(* ===== verification/Prelude.thy ===== *)
theory Prelude
  imports Main "HOL-Library.Word" "HOL-Library.Sublist"
begin

unbundle bit_operations_syntax

section \<open>Shared vocabulary of the Tomato64 development\<close>

text \<open>
  This theory fixes how C data is read in the rest of the library and collects the lemmas that
  several components use.

  A C string is the \<open>string\<close> (a list of \<open>char\<close>, one byte each) before its terminating NUL.
  A character read at the end of the string, as \<^verbatim>\<open>s[0]\<close> on an empty rest, is the NUL
  character: \<open>hd0\<close>.  The functions of the C library that the sources call (\<^verbatim>\<open>strchr\<close>,
  \<^verbatim>\<open>strstr\<close>, \<^verbatim>\<open>strspn\<close>, \<^verbatim>\<open>strcspn\<close>,
  \<^verbatim>\<open>strlcpy\<close>, \<^verbatim>\<open>strlcat\<close>, \<^verbatim>\<open>atoi\<close>, the \<^verbatim>\<open>%d\<close> conversion of
  \<^verbatim>\<open>printf\<close>) are defined here under their own names; a pointer into a string is the
  offset from its start, and a NULL result is \<open>None\<close>.

  Machine integers are words of the width the ABI of the 64-bit targets gives them; where the
  source works in \<^verbatim>\<open>int\<close> or \<^verbatim>\<open>long\<close> and no wrap-around can be observed the
  model uses \<open>int\<close> or \<open>nat\<close> and says so.
\<close>

type_synonym u8 = "8 word"
type_synonym u16 = "16 word"
type_synonym u32 = "32 word"
type_synonym u64 = "64 word"

named_theorems cstr \<open>facts about the C string functions\<close>

subsection \<open>Characters and bytes\<close>

abbreviation NUL :: char where
  "NUL \<equiv> CHR 0x00"

definition byte_of :: "char \<Rightarrow> u8" where
  "byte_of c = of_nat (of_char c)"

definition char_of_byte :: "u8 \<Rightarrow> char" where
  "char_of_byte b = char_of (unat b)"

lemma unat_byte_of [simp]: "unat (byte_of c) = of_char c"
  by (simp add: byte_of_def unat_of_nat)

lemma unat_u8_less [simp]: "unat (b :: u8) < 256"
  using unsigned_less [of b, where ?'a = nat] by simp

lemma char_of_byte_byte_of [simp]: "char_of_byte (byte_of c) = c"
  by (simp add: char_of_byte_def)

lemma byte_of_char_of_byte [simp]: "byte_of (char_of_byte b) = b"
  by (simp add: byte_of_def char_of_byte_def)

definition is_cstr :: "string \<Rightarrow> bool" where
  "is_cstr s \<longleftrightarrow> NUL \<notin> set s"

lemma of_char_eq_0 [simp]: "(of_char c :: int) = 0 \<longleftrightarrow> c = NUL"
proof -
  have "of_char NUL = (0 :: int)" by simp
  then show ?thesis by (metis of_char_eq_iff)
qed

definition hd0 :: "string \<Rightarrow> char" where
  "hd0 s = (case s of [] \<Rightarrow> NUL | c # _ \<Rightarrow> c)"

lemma hd0_simps [simp, cstr]: "hd0 [] = NUL" "hd0 (c # s) = c"
  by (simp_all add: hd0_def)

subsection \<open>The string functions of the C library\<close>

definition strchr :: "string \<Rightarrow> char \<Rightarrow> nat option" where
  "strchr s c =
     (if c \<in> set s then Some (length (takeWhile (\<lambda>d. d \<noteq> c) s))
      else if c = NUL then Some (length s) else None)"

lemma length_takeWhile_nth:
  "distinct xs \<Longrightarrow> i < length xs \<Longrightarrow> length (takeWhile (\<lambda>d. d \<noteq> xs ! i) xs) = i"
proof (induction xs arbitrary: i)
  case Nil
  then show ?case by simp
next
  case (Cons x xs)
  then show ?case by (cases i) auto
qed

lemma strchr_nth [cstr]:
  "distinct s \<Longrightarrow> i < length s \<Longrightarrow> strchr s (s ! i) = Some i"
  by (simp add: strchr_def length_takeWhile_nth)

lemma strchr_bound: "strchr s c = Some i \<Longrightarrow> i \<le> length s"
  by (auto simp: strchr_def length_takeWhile_le split: if_splits)

lemma strchr_None: "strchr s c = None \<longleftrightarrow> c \<notin> set s \<and> c \<noteq> NUL"
  by (auto simp: strchr_def)

definition strspn :: "string \<Rightarrow> string \<Rightarrow> nat" where
  "strspn s accept = length (takeWhile (\<lambda>c. c \<in> set accept) s)"

definition strcspn :: "string \<Rightarrow> string \<Rightarrow> nat" where
  "strcspn s reject = length (takeWhile (\<lambda>c. c \<notin> set reject) s)"

fun strstr :: "string \<Rightarrow> string \<Rightarrow> nat option" where
  "strstr s w =
     (if prefix w s then Some 0
      else case s of [] \<Rightarrow> None | c # s' \<Rightarrow> map_option Suc (strstr s' w))"

declare strstr.simps [simp del]

definition strlcpy :: "string \<Rightarrow> nat \<Rightarrow> string" where
  "strlcpy src n = take (n - 1) src"

definition strlcat :: "string \<Rightarrow> string \<Rightarrow> nat \<Rightarrow> string" where
  "strlcat dst src n = dst @ take (n - 1 - length dst) src"

lemma drop_strspn [cstr]: "drop (strspn s a) s = dropWhile (\<lambda>c. c \<in> set a) s"
  unfolding strspn_def by (rule dropWhile_eq_drop [symmetric])

lemma take_strcspn [cstr]: "take (strcspn s a) s = takeWhile (\<lambda>c. c \<notin> set a) s"
  unfolding strcspn_def by (rule takeWhile_eq_take [symmetric])

lemma drop_strcspn [cstr]: "drop (strcspn s a) s = dropWhile (\<lambda>c. c \<notin> set a) s"
  unfolding strcspn_def by (rule dropWhile_eq_drop [symmetric])

lemma strstr_Some:
  "strstr s w = Some k \<Longrightarrow> \<exists>v. s = take k s @ w @ v \<and> k + length w \<le> length s"
proof (induction s arbitrary: k)
  case Nil
  then show ?case
    by (auto simp: strstr.simps split: if_splits)
next
  case (Cons c s)
  show ?case
  proof (cases "prefix w (c # s)")
    case True
    with Cons.prems have "k = 0"
      by (simp add: strstr.simps [of "c # s"])
    moreover obtain v where "c # s = w @ v"
      using True by (auto simp: prefix_def)
    ultimately show ?thesis by simp
  next
    case False
    with Cons.prems obtain j where j: "strstr s w = Some j" "k = Suc j"
      by (auto simp: strstr.simps [of "c # s"])
    from Cons.IH [OF j(1)] j(2) show ?thesis by auto
  qed
qed

lemma strstr_None: "strstr s w = None \<Longrightarrow> s \<noteq> u @ w @ v"
proof (induction s arbitrary: u)
  case Nil
  then show ?case
    by (auto simp: strstr.simps split: if_splits)
next
  case (Cons c s)
  show ?case
  proof (cases u)
    case Nil
    with Cons.prems show ?thesis
      by (auto simp: strstr.simps [of "c # s"] split: if_splits)
  next
    case (Cons d u')
    with Cons.prems have "strstr s w = None"
      by (auto simp: strstr.simps [of "c # s"] split: if_splits)
    with Cons.IH Cons show ?thesis by auto
  qed
qed

lemma strstr_least: "strstr s w = Some k \<Longrightarrow> s = u @ w @ v \<Longrightarrow> k \<le> length u"
proof (induction s arbitrary: u k)
  case Nil
  then show ?case
    by (auto simp: strstr.simps split: if_splits)
next
  case (Cons c s)
  show ?case
  proof (cases u)
    case Nil
    with Cons.prems(2) have "prefix w (c # s)"
      by simp
    with Cons.prems(1) show ?thesis
      by (simp add: strstr.simps [of "c # s"])
  next
    case u: (Cons d u')
    show ?thesis
    proof (cases "prefix w (c # s)")
      case True
      with Cons.prems(1) show ?thesis
        by (simp add: strstr.simps [of "c # s"])
    next
      case False
      with Cons.prems(1) obtain j where "strstr s w = Some j" "k = Suc j"
        by (auto simp: strstr.simps [of "c # s"])
      with Cons.IH [of j u'] Cons.prems u show ?thesis by auto
    qed
  qed
qed

lemma strspn_le: "strspn s a \<le> length s"
  by (simp add: strspn_def length_takeWhile_le)

lemma strcspn_le: "strcspn s a \<le> length s"
  by (simp add: strcspn_def length_takeWhile_le)

fun strncmp :: "string \<Rightarrow> string \<Rightarrow> nat \<Rightarrow> int" where
  "strncmp a b 0 = 0"
| "strncmp a b (Suc n) =
     (let x = of_char (hd0 a); y = of_char (hd0 b)
      in if x \<noteq> y then x - y else if x = 0 then 0 else strncmp (tl a) (tl b) n)"

lemma strncmp_eq_0:
  "is_cstr a \<Longrightarrow> n \<le> length a \<Longrightarrow> strncmp a b n = 0 \<longleftrightarrow> n \<le> length b \<and> take n a = take n b"
proof (induction a b n rule: strncmp.induct)
  case (1 a b)
  then show ?case by simp
next
  case (2 a b n)
  then obtain c a' where a: "a = c # a'" "c \<noteq> NUL" "is_cstr a'"
    by (cases a) (auto simp: is_cstr_def)
  show ?case
  proof (cases b)
    case Nil
    with a show ?thesis by simp
  next
    case (Cons d b')
    with 2 a show ?thesis by (simp add: Let_def)
  qed
qed

subsection \<open>Words of a string\<close>

text \<open>
  The reference reading of a separated list: \<open>fields sep s\<close> are the maximal non-empty runs of
  characters that are not separators, in order.
\<close>

function fields :: "(char \<Rightarrow> bool) \<Rightarrow> string \<Rightarrow> string list" where
  "fields sep [] = []"
| "fields sep (c # s) =
     (if sep c then fields sep s
      else (c # takeWhile (\<lambda>d. \<not> sep d) s) # fields sep (dropWhile (\<lambda>d. \<not> sep d) s))"
  by pat_completeness auto
termination
  by (relation "measure (\<lambda>(sep, s). length s)") (auto simp: length_dropWhile_le less_Suc_eq_le)

lemma fields_dropWhile [simp]: "fields sep (dropWhile sep s) = fields sep s"
  by (induction s) auto

lemma fields_word:
  "s \<noteq> [] \<Longrightarrow> \<not> sep (hd s) \<Longrightarrow>
     fields sep s = takeWhile (\<lambda>d. \<not> sep d) s # fields sep (dropWhile (\<lambda>d. \<not> sep d) s)"
  by (cases s) auto

lemma takeWhile_id: "\<forall>d \<in> set s. P d \<Longrightarrow> takeWhile P s = s"
  by (simp add: takeWhile_eq_all_conv)

lemma takeWhile_upto: "c \<notin> set s \<Longrightarrow> takeWhile (\<lambda>d. d \<noteq> c) (s @ c # r) = s"
  by (subst takeWhile_append2) auto

lemma fields_no_sep [simp]: "\<forall>d \<in> set s. \<not> sep d \<Longrightarrow> fields sep (dropWhile (\<lambda>d. \<not> sep d) s) = []"
  using dropWhile_eq_Nil_conv [of "\<lambda>d. \<not> sep d" s] by (metis fields.simps(1))

lemma last_dropWhile: "dropWhile P s \<noteq> [] \<Longrightarrow> last (dropWhile P s) = last s"
  by (induction s) auto

lemma fields_append:
  "u = [] \<or> sep (last u) \<or> v = [] \<or> sep (hd v) \<Longrightarrow>
     fields sep (u @ v) = fields sep u @ fields sep v"
proof (induction sep u rule: fields.induct)
  case (1 sep)
  then show ?case by simp
next
  case (2 sep c s)
  show ?case
  proof (cases "sep c")
    case True
    with 2 show ?thesis by (auto split: if_splits)
  next
    case c: False
    show ?thesis
    proof (cases "\<exists>d \<in> set s. sep d")
      case True
      then obtain d where d: "d \<in> set s" "sep d" by blast
      have "last (dropWhile (\<lambda>d. \<not> sep d) s) = last s" if "dropWhile (\<lambda>d. \<not> sep d) s \<noteq> []"
        using that by (rule last_dropWhile)
      moreover have "s \<noteq> []" "dropWhile (\<lambda>d. \<not> sep d) s \<noteq> []"
        using d by (auto simp: dropWhile_eq_Nil_conv)
      ultimately show ?thesis
        using c 2 d by (auto simp: takeWhile_append1 dropWhile_append1)
    next
      case False
      have v: "v = [] \<or> sep (hd v)"
        using "2.prems" c False by (cases s) (auto split: if_splits dest: last_in_set)
      have "takeWhile (\<lambda>d. \<not> sep d) v = []" "dropWhile (\<lambda>d. \<not> sep d) v = v"
        using v by (cases v; simp)+
      with c False show ?thesis
        by (auto simp: takeWhile_id takeWhile_append2 dropWhile_append2)
    qed
  qed
qed

lemma fields_single: "w \<noteq> [] \<Longrightarrow> \<forall>c \<in> set w. \<not> sep c \<Longrightarrow> fields sep w = [w]"
  using fields_word [of w sep] by (cases w) (auto simp: takeWhile_id)

lemma fields_elem: "w \<in> set (fields sep s) \<Longrightarrow> w \<noteq> [] \<and> (\<forall>c \<in> set w. \<not> sep c)"
proof (induction sep s rule: fields.induct)
  case (1 sep)
  then show ?case by simp
next
  case (2 sep c s)
  show ?case
  proof (cases "sep c")
    case True
    with 2 show ?thesis by simp
  next
    case False
    have "\<forall>d \<in> set (takeWhile (\<lambda>d. \<not> sep d) s). \<not> sep d"
      by (auto dest: set_takeWhileD)
    with False 2 show ?thesis
      by (metis fields.simps(2) list.distinct(1) set_ConsD)
  qed
qed

lemma fields_occurs:
  "w \<in> set (fields sep s) \<Longrightarrow>
     \<exists>u v. s = u @ w @ v \<and> (u = [] \<or> sep (last u)) \<and> (v = [] \<or> sep (hd v))"
proof (induction sep s rule: fields.induct)
  case (1 sep)
  then show ?case by simp
next
  case (2 sep c s)
  show ?case
  proof (cases "sep c")
    case True
    with 2 obtain u v where "s = u @ w @ v" "u = [] \<or> sep (last u)" "v = [] \<or> sep (hd v)"
      by auto
    with True show ?thesis
      by (intro exI [of _ "c # u"] exI [of _ v]) auto
  next
    case c: False
    let ?t = "takeWhile (\<lambda>d. \<not> sep d) s" and ?d = "dropWhile (\<lambda>d. \<not> sep d) s"
    have hd_d: "?d = [] \<or> sep (hd ?d)"
      using hd_dropWhile [of "\<lambda>d. \<not> sep d" s] by blast
    show ?thesis
    proof (cases "w = c # ?t")
      case True
      with hd_d show ?thesis
        by (intro exI [of _ "[]"] exI [of _ ?d]) simp
    next
      case False
      with "2.prems" c have "w \<in> set (fields sep ?d)" by simp
      with "2.IH"(2) [OF c] obtain u v where
        uv: "?d = u @ w @ v" "u = [] \<or> sep (last u)" "v = [] \<or> sep (hd v)"
        by blast
      moreover have "w \<noteq> [] \<and> \<not> sep (hd w)"
        using fields_elem [OF \<open>w \<in> set (fields sep ?d)\<close>] by (cases w) auto
      ultimately have "u \<noteq> []"
        using hd_d by (cases u) auto
      with uv show ?thesis
        by (intro exI [of _ "c # ?t @ u"] exI [of _ v]) (simp flip: uv(1))
    qed
  qed
qed

lemma fields_split:
  assumes "w \<noteq> []" "\<forall>c \<in> set w. \<not> sep c"
    and "u = [] \<or> sep (last u)" "v = [] \<or> sep (hd v)"
  shows "fields sep (u @ w @ v) = fields sep u @ w # fields sep v"
proof -
  have "fields sep (w @ v) = w # fields sep v"
    using assms fields_append [of w sep v] fields_single [of w sep] by auto
  with assms(3) show ?thesis
    using fields_append [of u sep "w @ v"] by auto
qed

text \<open>A list of words needs the bytes of its words and one separator or terminator for each.\<close>

definition weight :: "string list \<Rightarrow> nat" where
  "weight ws = sum_list (map (\<lambda>w. length w + 1) ws)"

lemma weight_simps [simp]: "weight [] = 0" "weight (w # ws) = length w + 1 + weight ws"
  by (simp_all add: weight_def)

lemma weight_append [simp]: "weight (xs @ ys) = weight xs + weight ys"
  by (simp add: weight_def)

lemma weight_fields:
  "weight (fields sep s) \<le> length s + 1 \<and> (s = [] \<or> sep (hd s) \<longrightarrow> weight (fields sep s) \<le> length s)"
proof (induction sep s rule: fields.induct)
  case (1 sep)
  then show ?case by simp
next
  case (2 sep c s)
  let ?d = "dropWhile (\<lambda>d. \<not> sep d) s"
  have "?d = [] \<or> sep (hd ?d)"
    using hd_dropWhile [of "\<lambda>d. \<not> sep d" s] by blast
  moreover have "length (takeWhile (\<lambda>d. \<not> sep d) s) + length ?d = length s"
    by (metis length_append takeWhile_dropWhile_id)
  ultimately show ?case
    using 2 by (cases "sep c") (fastforce simp del: dropWhile_eq_Nil_conv)+
qed

subsection \<open>Decimal numbers\<close>

definition isdigit :: "char \<Rightarrow> bool" where
  "isdigit c \<longleftrightarrow> 48 \<le> (of_char c :: nat) \<and> (of_char c :: nat) \<le> 57"

definition isspace :: "char \<Rightarrow> bool" where
  "isspace c \<longleftrightarrow> (of_char c :: nat) = 32 \<or> (9 \<le> (of_char c :: nat) \<and> (of_char c :: nat) \<le> 13)"

definition digit_char :: "nat \<Rightarrow> char" where
  "digit_char d = char_of (48 + d)"

text \<open>The conversions \<^verbatim>\<open>%u\<close> and \<^verbatim>\<open>%d\<close> of \<^verbatim>\<open>printf\<close>.\<close>

fun show_nat :: "nat \<Rightarrow> string" where
  "show_nat n = (if n < 10 then [digit_char n] else show_nat (n div 10) @ [digit_char (n mod 10)])"

declare show_nat.simps [simp del]

definition show_int :: "int \<Rightarrow> string" where
  "show_int i = (if i < 0 then CHR ''-'' # show_nat (nat (- i)) else show_nat (nat i))"

text \<open>The digits at the start of a string, as \<^verbatim>\<open>strtoul\<close> reads them in base 10.\<close>

definition digits_value :: "string \<Rightarrow> nat" where
  "digits_value ds = foldl (\<lambda>a c. a * 10 + (of_char c - 48)) 0 ds"

definition read_nat :: "string \<Rightarrow> nat" where
  "read_nat s = digits_value (takeWhile isdigit s)"

text \<open>
  \<^verbatim>\<open>atoi\<close>: white space, an optional sign, digits.  Values outside \<^verbatim>\<open>int\<close> are
  undefined in C; the model returns the number that was written.
\<close>

definition atoi :: "string \<Rightarrow> int" where
  "atoi s =
     (let s = dropWhile isspace s
      in if hd0 s = CHR ''-'' then - int (read_nat (tl s))
         else if hd0 s = CHR ''+'' then int (read_nat (tl s))
         else int (read_nat s))"

lemma of_char_digit_char: "d < 10 \<Longrightarrow> of_char (digit_char d) = 48 + d"
  by (simp add: digit_char_def)

lemma isdigit_digit_char [simp]: "d < 10 \<Longrightarrow> isdigit (digit_char d)"
  by (simp add: isdigit_def of_char_digit_char)

lemma show_nat_digits: "c \<in> set (show_nat n) \<Longrightarrow> isdigit c"
proof (induction n rule: show_nat.induct)
  case (1 n)
  then show ?case
    by (cases "n < 10") (auto simp: show_nat.simps [of n])
qed

lemma show_nat_not_Nil [simp]: "show_nat n \<noteq> []"
  by (simp add: show_nat.simps [of n])

lemma length_show_nat: "n < 10 ^ Suc k \<Longrightarrow> length (show_nat n) \<le> Suc k"
proof (induction k arbitrary: n)
  case 0
  then show ?case by (simp add: show_nat.simps [of n])
next
  case (Suc k)
  then have "n div 10 < 10 ^ Suc k"
    by (simp add: less_mult_imp_div_less mult.commute)
  with Suc.IH [of "n div 10"] show ?case
    by (simp add: show_nat.simps [of n])
qed

lemma isdigit_not_space: "isdigit c \<Longrightarrow> \<not> isspace c \<and> c \<noteq> CHR ''-'' \<and> c \<noteq> CHR ''+'' \<and> c \<noteq> NUL"
  by (auto simp: isdigit_def isspace_def)

lemma is_cstr_show_nat [simp]: "is_cstr (show_nat n)"
  using show_nat_digits isdigit_not_space by (auto simp: is_cstr_def)

lemma digits_value_snoc [simp]: "digits_value (ds @ [c]) = digits_value ds * 10 + (of_char c - 48)"
  by (simp add: digits_value_def)

lemma digits_value_show_nat [simp]: "digits_value (show_nat n) = n"
proof (induction n rule: show_nat.induct)
  case (1 n)
  show ?case
  proof (cases "n < 10")
    case True
    then show ?thesis
      by (simp add: show_nat.simps [of n] digits_value_def of_char_digit_char)
  next
    case False
    with 1 show ?thesis
      by (simp add: show_nat.simps [of n] of_char_digit_char)
  qed
qed

lemma read_nat_show_nat: "r = [] \<or> \<not> isdigit (hd r) \<Longrightarrow> read_nat (show_nat n @ r) = n"
proof -
  assume "r = [] \<or> \<not> isdigit (hd r)"
  then have "takeWhile isdigit r = []"
    by (cases r) auto
  then show ?thesis
    unfolding read_nat_def using show_nat_digits by (subst takeWhile_append2) auto
qed

lemma atoi_show_int: "r = [] \<or> \<not> isdigit (hd r) \<Longrightarrow> atoi (show_int i @ r) = i"
proof -
  assume r: "r = [] \<or> \<not> isdigit (hd r)"
  show ?thesis
  proof (cases "i < 0")
    case True
    with r show ?thesis
      by (simp add: atoi_def show_int_def isspace_def read_nat_show_nat)
  next
    case False
    obtain c s where cs: "show_nat (nat i) = c # s"
      using show_nat_not_Nil neq_Nil_conv by metis
    then have "isdigit c"
      using show_nat_digits [of c "nat i"] by simp
    moreover have "read_nat (c # s @ r) = nat i"
      using read_nat_show_nat [OF r, of "nat i"] cs by simp
    ultimately show ?thesis
      using False cs isdigit_not_space [of c] by (simp add: atoi_def show_int_def)
  qed
qed

lemma read_nat_self [simp]: "read_nat (show_nat n) = n"
  using read_nat_show_nat [of "[]" n] by simp

lemma show_nat_inject [simp]: "show_nat m = show_nat n \<longleftrightarrow> m = n"
  by (metis read_nat_self)

subsection \<open>Hexadecimal numbers\<close>

definition hex_digit :: "nat \<Rightarrow> char" where
  "hex_digit d = (if d < 10 then char_of (48 + d) else char_of (87 + d))"

text \<open>The conversion \<^verbatim>\<open>%x\<close> of \<^verbatim>\<open>printf\<close>.\<close>

fun show_hex :: "nat \<Rightarrow> string" where
  "show_hex n = (if n < 16 then [hex_digit n] else show_hex (n div 16) @ [hex_digit (n mod 16)])"

declare show_hex.simps [simp del]

definition isxdigit :: "char \<Rightarrow> bool" where
  "isxdigit c \<longleftrightarrow> isdigit c \<or> (let n = (of_char c :: nat) in 65 \<le> n \<and> n \<le> 70 \<or> 97 \<le> n \<and> n \<le> 102)"

definition xdigit_value :: "char \<Rightarrow> nat" where
  "xdigit_value c = (let n = of_char c in if n \<le> 57 then n - 48 else if n \<le> 70 then n - 55 else n - 87)"

text \<open>The digits at the start of a string, as \<^verbatim>\<open>strtoull\<close> reads them in base 16.\<close>

definition xdigits_value :: "string \<Rightarrow> nat" where
  "xdigits_value ds = foldl (\<lambda>a c. a * 16 + xdigit_value c) 0 ds"

definition read_hex :: "string \<Rightarrow> nat" where
  "read_hex s = xdigits_value (takeWhile isxdigit s)"

lemma hex_digit_value: "d < 16 \<Longrightarrow> isxdigit (hex_digit d) \<and> xdigit_value (hex_digit d) = d"
  by (auto simp: hex_digit_def isxdigit_def isdigit_def xdigit_value_def Let_def)

lemma show_hex_digits: "c \<in> set (show_hex n) \<Longrightarrow> isxdigit c"
proof (induction n rule: show_hex.induct)
  case (1 n)
  then show ?case
    by (cases "n < 16") (auto simp: show_hex.simps [of n] hex_digit_value)
qed

lemma xdigits_value_show_hex: "xdigits_value (show_hex n) = n"
proof (induction n rule: show_hex.induct)
  case (1 n)
  then show ?case
    by (cases "n < 16") (simp_all add: show_hex.simps [of n] xdigits_value_def hex_digit_value)
qed

lemma takeWhile_all: "(\<And>c. c \<in> set s \<Longrightarrow> P c) \<Longrightarrow> takeWhile P s = s"
  by (simp add: takeWhile_eq_all_conv)

lemma read_hex_show_hex [simp]: "read_hex (show_hex n) = n"
  using show_hex_digits xdigits_value_show_hex by (simp add: read_hex_def takeWhile_all)

subsection \<open>The configuration store\<close>

text \<open>
  NVRAM variables live in a device (\<^verbatim>\<open>nvram_linux.c\<close> reads and writes
  \<^verbatim>\<open>/dev/nvram\<close>): what the programs see of it is a map from variable names to values.  \<open>nvram_safe_get\<close> and \<open>nvram_match\<close> are the inline functions of
  \<^verbatim>\<open>include/bcmnvram.h\<close>.
\<close>

type_synonym nvram = "string \<Rightarrow> string option"

definition nvram_safe_get :: "nvram \<Rightarrow> string \<Rightarrow> string" where
  "nvram_safe_get nv name = (case nv name of None \<Rightarrow> [] | Some p \<Rightarrow> p)"

definition nvram_match :: "nvram \<Rightarrow> string \<Rightarrow> string \<Rightarrow> bool" where
  "nvram_match nv name match = (case nv name of None \<Rightarrow> False | Some value \<Rightarrow> value = match)"

subsection \<open>Bounded collections of names\<close>

text \<open>
  The contract a fixed-size collection of names offers: while the space used so far and the weight
  of a new name fit the capacity, adding succeeds, keeps the names in order and adds only what is
  not there yet.  A client that adds many names gets the first occurrence of each.
\<close>

fun fold_add :: "('n \<Rightarrow> 'l \<Rightarrow> 'e + 'l) \<Rightarrow> 'n list \<Rightarrow> 'l \<Rightarrow> 'l option" where
  "fold_add add [] l = Some l"
| "fold_add add (n # ns) l = (case add n l of Inl _ \<Rightarrow> None | Inr l' \<Rightarrow> fold_add add ns l')"

definition add_new :: "'n list \<Rightarrow> 'n \<Rightarrow> 'n list" where
  "add_new xs n = (if n \<in> set xs then xs else xs @ [n])"

lemma foldl_add_new: "foldl add_new [] ns = rev (remdups (rev ns))"
  by (induction ns rule: rev_induct) (auto simp: add_new_def)

locale bounded_names =
  fixes inv :: "'l \<Rightarrow> bool" and ok :: "'n \<Rightarrow> bool" and names :: "'l \<Rightarrow> 'n list"
    and occupied :: "'l \<Rightarrow> nat" and cost :: "'n \<Rightarrow> nat" and cap :: nat
    and add :: "'n \<Rightarrow> 'l \<Rightarrow> 'e + 'l"
  assumes add_names: "inv l \<Longrightarrow> ok n \<Longrightarrow> occupied l + cost n \<le> cap \<Longrightarrow>
    \<exists>l'. add n l = Inr l' \<and> inv l' \<and> names l' = add_new (names l) n \<and>
      occupied l' \<le> occupied l + cost n"
begin

lemma fold_add_names:
  "inv l \<Longrightarrow> \<forall>n \<in> set ns. ok n \<Longrightarrow> occupied l + sum_list (map cost ns) \<le> cap \<Longrightarrow>
    \<exists>l'. fold_add add ns l = Some l' \<and> inv l' \<and> names l' = foldl add_new (names l) ns \<and>
      occupied l' \<le> occupied l + sum_list (map cost ns)"
proof (induction ns arbitrary: l)
  case Nil
  then show ?case by simp
next
  case (Cons n ns)
  then obtain l1 where l1: "add n l = Inr l1" "inv l1" "names l1 = add_new (names l) n"
    "occupied l1 \<le> occupied l + cost n"
    using add_names [of l n] by auto
  with Cons.prems obtain l' where "fold_add add ns l1 = Some l'" "inv l'"
    "names l' = foldl add_new (names l1) ns" "occupied l' \<le> occupied l1 + sum_list (map cost ns)"
    using Cons.IH [of l1] by auto
  with l1 show ?case by auto
qed

end

subsection \<open>The contract of an encoder and its decoder\<close>

text \<open>
  Several components write data in one form and read it back in another (base64 text, Ethernet
  addresses, configuration profiles).  The provider promises that decoding an encoded value of the
  domain returns it; what a client gets is that encoding loses nothing.
\<close>

locale codec =
  fixes dom_ok :: "'a \<Rightarrow> bool"
    and enc :: "'a \<Rightarrow> 'b"
    and dec :: "'b \<Rightarrow> 'a option"
  assumes dec_enc: "dom_ok x \<Longrightarrow> dec (enc x) = Some x"
begin

lemma enc_inj_on: "inj_on enc {x. dom_ok x}"
  by (rule inj_onI) (metis dec_enc mem_Collect_eq option.inject)

lemma enc_eq_iff: "dom_ok x \<Longrightarrow> dom_ok y \<Longrightarrow> enc x = enc y \<longleftrightarrow> x = y"
  using enc_inj_on by (auto dest: inj_onD)

end

end
