(* ===== verification/Base64.thy ===== *)
theory Base64
  imports Prelude
begin

section \<open>Base64 coding\<close>

text \<open>
  \<^verbatim>\<open>libshared/shared/base64.c\<close>.  The bandwidth daemon keeps its compressed history in an NVRAM
  variable as base64 text.  \<open>base64_encode\<close> and \<open>base64_decode\<close> are the two loops of the source; the
  output pointer difference they return is the length of the result list.  The arithmetic on
  \<^verbatim>\<open>*in\<close> is done in \<^verbatim>\<open>int\<close> after promotion (\<open>u32\<close>), the decoder's
  accumulator is an \<^verbatim>\<open>unsigned long\<close> (\<open>u64\<close>).
\<close>

definition base64_xlat :: string where
  "base64_xlat = ''ABCDEFGHIJKLMNOPQRSTUVWXYZabcdefghijklmnopqrstuvwxyz0123456789+/''"

definition xlat_at :: "u32 \<Rightarrow> char" where
  "xlat_at i = base64_xlat ! unat i"

fun base64_encode :: "u8 list \<Rightarrow> string" where
  "base64_encode (a # b # c # rest) =
     xlat_at (drop_bit 2 (ucast a))
     # xlat_at ((push_bit 4 (ucast a) AND 0x3F) OR drop_bit 4 (ucast b))
     # xlat_at ((push_bit 2 (ucast b) AND 0x3F) OR drop_bit 6 (ucast c))
     # xlat_at (ucast c AND 0x3F)
     # base64_encode rest"
| "base64_encode [a, b] =
     [xlat_at (drop_bit 2 (ucast a)),
      xlat_at ((push_bit 4 (ucast a) AND 0x3F) OR drop_bit 4 (ucast b)),
      xlat_at (push_bit 2 (ucast b) AND 0x3F),
      CHR ''='']"
| "base64_encode [a] =
     [xlat_at (drop_bit 2 (ucast a)),
      xlat_at (push_bit 4 (ucast a) AND 0x3F),
      CHR ''='', CHR ''='']"
| "base64_encode [] = []"

definition b64_flush :: "nat \<Rightarrow> u64 \<Rightarrow> u8 list" where
  "b64_flush n x =
     (if n = 3 then [ucast (drop_bit 10 x), ucast (drop_bit 2 x AND 0xFF)]
      else if n = 2 then [ucast (drop_bit 4 x)]
      else [])"

fun b64_loop :: "string \<Rightarrow> nat \<Rightarrow> u64 \<Rightarrow> u8 list" where
  "b64_loop [] n x = b64_flush n x"
| "b64_loop (c # cs) n x =
     (if c = CHR ''='' then b64_flush n x
      else case strchr base64_xlat c of
        None \<Rightarrow> b64_loop cs n x
      | Some p \<Rightarrow>
          (let x' = push_bit 6 x OR of_nat p
           in if n + 1 = 4
              then ucast (drop_bit 16 x') # ucast (drop_bit 8 x' AND 0xFF) # ucast (x' AND 0xFF)
                   # b64_loop cs 0 0
              else b64_loop cs (n + 1) x'))"

definition base64_decode :: "string \<Rightarrow> u8 list" where
  "base64_decode s = b64_loop s 0 0"

definition INT_MAX :: int where
  "INT_MAX = 2 ^ 31 - 1"

definition base64_encoded_len :: "int \<Rightarrow> u32" where
  "base64_encoded_len len =
     (if len < 0 \<or> len > INT_MAX - 2 then 0 else (of_int (len + 2) div 3) * 4)"

definition base64_decoded_len :: "int \<Rightarrow> u32" where
  "base64_decoded_len len =
     (if len < 0 \<or> len > INT_MAX - 3 then 0 else (of_int (len + 3) div 4) * 3)"

subsection \<open>The alphabet\<close>

lemma length_base64_xlat [simp]: "length base64_xlat = 64"
  by (simp add: base64_xlat_def)

lemma distinct_base64_xlat [simp]: "distinct base64_xlat"
  by (simp add: base64_xlat_def)

lemma pad_notin_xlat [simp]: "CHR ''='' \<notin> set base64_xlat"
  by (simp add: base64_xlat_def)

lemma xlat_at_not_pad [simp]: "unat i < 64 \<Longrightarrow> xlat_at i \<noteq> CHR ''=''"
  by (metis length_base64_xlat nth_mem pad_notin_xlat xlat_at_def)

lemma strchr_xlat_at [simp]: "unat i < 64 \<Longrightarrow> strchr base64_xlat (xlat_at i) = Some (unat i)"
  by (simp add: xlat_at_def strchr_nth)

text \<open>The sextets the encoder writes are below 64, and together they hold the bits of the input.\<close>

lemma mask_numerals: "(0x3F :: 'a::len word) = take_bit 6 (-1)" "(0xFF :: 'a word) = take_bit 8 (-1)"
  by (simp_all flip: mask_eq_take_bit_minus_one add: mask_eq_exp_minus_1)

lemma bit_u8_less: "bit (b :: u8) n \<Longrightarrow> n < 8"
  using bit_imp_le_length [of b n] by simp

lemma sextet_bound: "(\<And>n. bit (w :: u32) n \<Longrightarrow> n < 6) \<Longrightarrow> unat w < 64"
proof -
  assume "\<And>n. bit w n \<Longrightarrow> n < 6"
  then have "take_bit 6 w = w"
    by (intro bit_word_eqI) (auto simp: bit_simps)
  then have "unat w mod 64 = unat w"
    by (simp flip: take_bit_eq_mod [where n = 6, simplified] unsigned_take_bit_eq)
  then show ?thesis
    using mod_less_divisor [of 64 "unat w"] by simp
qed

lemma u8_eqI:
  fixes v w :: u8
  assumes "bit v 0 = bit w 0" "bit v 1 = bit w 1" "bit v 2 = bit w 2" "bit v 3 = bit w 3"
    "bit v 4 = bit w 4" "bit v 5 = bit w 5" "bit v 6 = bit w 6" "bit v 7 = bit w 7"
  shows "v = w"
proof (rule bit_word_eqI)
  fix n
  assume "n < LENGTH(8)"
  then have "n \<in> {0, 1, 2, 3, 4, 5, 6, 7}"
    by auto
  with assms show "bit v n = bit w n"
    by blast
qed

lemma bit_u8_numeral [simp]: "8 \<le> n \<Longrightarrow> \<not> bit (b :: u8) n"
  by (auto dest: bit_u8_less)

lemma sextets [simp]:
  fixes a b :: u8
  shows "unat (drop_bit 2 (ucast a) :: u32) < 64"
    and "unat ((push_bit 4 (ucast a) AND 0x3F) OR drop_bit 4 (ucast b) :: u32) < 64"
    and "unat ((push_bit 2 (ucast a) AND 0x3F) OR drop_bit 6 (ucast b) :: u32) < 64"
    and "unat (push_bit 4 (ucast a) AND 0x3F :: u32) < 64"
    and "unat (push_bit 2 (ucast a) AND 0x3F :: u32) < 64"
    and "unat (ucast a AND 0x3F :: u32) < 64"
  by (rule sextet_bound, auto simp: bit_simps mask_numerals dest!: bit_u8_less)+

lemma of_nat_unat_u32: "(of_nat (unat (w :: u32)) :: u64) = ucast w"
  by simp


text \<open>
  The accumulator after four, three and two sextets.  In each case the bytes the decoder cuts out
  of it are the bytes the encoder took the sextets from.
\<close>

lemma unpack4:
  fixes a b c :: u8
  defines "x \<equiv> push_bit 6 (push_bit 6 (push_bit 6 (ucast (drop_bit 2 (ucast a) :: u32))
     OR ucast ((push_bit 4 (ucast a) AND 0x3F) OR drop_bit 4 (ucast b) :: u32))
     OR ucast ((push_bit 2 (ucast b) AND 0x3F) OR drop_bit 6 (ucast c) :: u32))
     OR ucast (ucast c AND 0x3F :: u32) :: u64"
  shows "ucast (drop_bit 16 x) = a" and "ucast (drop_bit 8 x AND 0xFF) = b"
    and "ucast (x AND 0xFF) = c"
  unfolding x_def by (rule u8_eqI; simp add: bit_simps mask_numerals)+

lemma unpack3:
  fixes a b :: u8
  defines "x \<equiv> push_bit 6 (push_bit 6 (ucast (drop_bit 2 (ucast a) :: u32))
     OR ucast ((push_bit 4 (ucast a) AND 0x3F) OR drop_bit 4 (ucast b) :: u32))
     OR ucast (push_bit 2 (ucast b) AND 0x3F :: u32) :: u64"
  shows "ucast (drop_bit 10 x) = a" and "ucast (drop_bit 2 x AND 0xFF) = b"
  unfolding x_def by (rule u8_eqI; simp add: bit_simps mask_numerals)+

lemma unpack2:
  fixes a :: u8
  shows "ucast (drop_bit 4 (push_bit 6 (ucast (drop_bit 2 (ucast a) :: u32))
     OR ucast (push_bit 4 (ucast a) AND 0x3F :: u32) :: u64)) = a"
  by (rule u8_eqI; simp add: bit_simps mask_numerals)

lemma b64_loop_xlat:
  "unat i < 64 \<Longrightarrow> b64_loop (xlat_at i # cs) n x =
     (let x' = push_bit 6 x OR ucast i
      in if n + 1 = 4
         then ucast (drop_bit 16 x') # ucast (drop_bit 8 x' AND 0xFF) # ucast (x' AND 0xFF)
              # b64_loop cs 0 0
         else b64_loop cs (n + 1) x')"
  by (simp add: Let_def)

lemma b64_loop_pad: "b64_loop (CHR ''='' # cs) n x = b64_flush n x"
  by simp

lemma b64_loop_encode: "b64_loop (base64_encode bs) 0 0 = bs"
proof (induction bs rule: base64_encode.induct)
  case (1 a b c rest)
  then show ?case
    using unpack4 [of a b c] by (simp add: b64_loop_xlat Let_def del: b64_loop.simps)
next
  case (2 a b)
  show ?case
    using unpack3 [of a b]
    by (simp add: b64_loop_xlat b64_loop_pad b64_flush_def Let_def del: b64_loop.simps)
next
  case (3 a)
  show ?case
    using unpack2 [of a]
    by (simp add: b64_loop_xlat b64_loop_pad b64_flush_def Let_def del: b64_loop.simps)
qed (simp add: b64_flush_def)

subsection \<open>Buffer sizes\<close>

lemma length_base64_encode: "length (base64_encode bs) = (length bs + 2) div 3 * 4"
proof (induction bs rule: base64_encode.induct)
  case (1 a b c rest)
  have "(length rest + 3 + 2) div 3 = (length rest + 2) div 3 + 1"
    by linarith
  with 1 show ?case by (simp add: algebra_simps)
qed simp_all

lemma length_b64_flush: "length (b64_flush n x) \<le> (m + n + 3) div 4 * 3"
proof -
  have "n = 2 \<or> n = 3 \<Longrightarrow> 1 \<le> (m + n + 3) div 4"
    by auto
  then show ?thesis by (auto simp: b64_flush_def)
qed

lemma length_b64_loop: "n < 4 \<Longrightarrow> length (b64_loop cs n x) \<le> (length cs + n + 3) div 4 * 3"
proof (induction cs n x rule: b64_loop.induct)
  case (1 n x)
  then show ?case
    using length_b64_flush [of n x 0] by simp
next
  case (2 c cs n x)
  consider (pad) "c = CHR ''=''" | (skip) "c \<noteq> CHR ''=''" "strchr base64_xlat c = None"
    | (full) p where "c \<noteq> CHR ''=''" "strchr base64_xlat c = Some p" "n = 3"
    | (more) p where "c \<noteq> CHR ''=''" "strchr base64_xlat c = Some p" "n < 3"
    using "2.prems" by (cases "strchr base64_xlat c") fastforce+
  then show ?case
  proof cases
    case pad
    then show ?thesis
      using length_b64_flush [of n x "Suc (length cs)"] by simp
  next
    case skip
    have "(length cs + n + 3) div 4 \<le> (Suc (length cs) + n + 3) div 4"
      by (rule div_le_mono) simp
    with skip "2.IH"(1) "2.prems" show ?thesis by simp
  next
    case full
    have "(7 + length cs) div 4 = (length cs + 3) div 4 + 1"
      by simp
    with full "2.IH"(2) [OF _ _ refl] show ?thesis by (simp add: Let_def)
  next
    case more
    with "2.IH"(3) [OF _ _ refl] show ?thesis by (simp add: Let_def)
  qed
qed

lemma unat_of_int_u32: "int n < 2 ^ 32 \<Longrightarrow> unat (of_int (int n) :: u32) = n"
  by (simp add: unat_of_nat)

lemma base64_encoded_len_eq:
  assumes "int n \<le> INT_MAX - 2"
  shows "unat (base64_encoded_len (int n)) = (n + 2) div 3 * 4"
proof -
  have "unat (of_int (int n + 2) :: u32) = n + 2"
    using assms unat_of_int_u32 [of "n + 2"] by (simp add: INT_MAX_def add.commute)
  then have "unat (of_int (int n + 2) div 3 :: u32) = (n + 2) div 3"
    by (simp add: unat_div)
  then show ?thesis
    using assms by (simp add: base64_encoded_len_def unat_word_ariths INT_MAX_def)
qed

lemma base64_decoded_len_eq:
  assumes "int n \<le> INT_MAX - 3"
  shows "unat (base64_decoded_len (int n)) = (n + 3) div 4 * 3"
proof -
  have "unat (of_int (int n + 3) :: u32) = n + 3"
    using assms unat_of_int_u32 [of "n + 3"] by (simp add: INT_MAX_def add.commute)
  then have "unat (of_int (int n + 3) div 4 :: u32) = (n + 3) div 4"
    by (simp add: unat_div)
  then show ?thesis
    using assms by (simp add: base64_decoded_len_def unat_word_ariths INT_MAX_def)
qed

interpretation b64: codec "\<lambda>_. True" base64_encode "\<lambda>s. Some (base64_decode s)"
  by unfold_locales (simp add: base64_decode_def b64_loop_encode)

subsection \<open>Properties\<close>

text \<open>C23: decoding what the encoder wrote returns the bytes that were encoded, for input of any
  length and content.\<close>

theorem base64_roundtrip: "base64_decode (base64_encode bs) = bs"
  using b64.dec_enc [of bs] by simp

text \<open>C27: the lengths that the callers compute for their buffers are enough: the encoder writes
  exactly \<^verbatim>\<open>base64_encoded_len\<close> characters, and the decoder never writes more than
  \<^verbatim>\<open>base64_decoded_len\<close> bytes, whatever text it is given; both computations are free of
  wrap-around up to the guards at \<^verbatim>\<open>INT_MAX\<close>.\<close>

theorem base64_buffers:
  assumes "int (length bs) \<le> INT_MAX - 2" "int (length s) \<le> INT_MAX - 3"
  shows "length (base64_encode bs) = unat (base64_encoded_len (int (length bs))) \<and>
    length (base64_decode s) \<le> unat (base64_decoded_len (int (length s)))"
  using assms length_b64_loop [of 0 s 0]
  by (simp add: base64_encoded_len_eq base64_decoded_len_eq length_base64_encode base64_decode_def)

theorem base64_buffers_witness:
  "length (base64_encode [1, 2]) = unat (base64_encoded_len (int (length [1 :: u8, 2]))) \<and>
    length (base64_decode ''AQI='') \<le> unat (base64_decoded_len (int (length ''AQI='')))"
  by (rule base64_buffers) (simp_all add: INT_MAX_def)

end
