(* ===== verification/Shutils.thy ===== *)
theory Shutils
  imports Prelude "HOL-Library.Multiset" "HOL-Library.List_Lexorder" "HOL-Library.Char_ord"
begin

section \<open>Space-separated name lists\<close>

text \<open>
  \<^verbatim>\<open>libshared/shared/shutils.c\<close>: interface and unit names are kept in NVRAM variables as
  space-separated lists that fit a buffer of \<^verbatim>\<open>listsize\<close> bytes.  The functions below are the
  source's; a pointer into a list is the offset from its start, an error code is a \<open>list_error\<close> (the
  buffer is then unchanged) and a NULL return is \<open>None\<close>.  The arguments are non-NULL.
\<close>

datatype list_error = EINVAL | EMSGSIZE

lemma after_spaces:
  assumes "drop (strspn s '' '') s \<noteq> []"
  obtains c t where "drop (strspn s '' '') s = c # t" "c \<noteq> CHR '' ''"
proof -
  have "hd (dropWhile (\<lambda>c. c \<in> set '' '') s) \<notin> set '' ''"
    using assms by (metis drop_strspn hd_dropWhile)
  with assms that show thesis
    by (cases "drop (strspn s '' '') s") (auto simp: drop_strspn)
qed

lemma strcspn_pos: "drop (strspn s '' '') s \<noteq> [] \<Longrightarrow> 0 < strcspn (drop (strspn s '' '') s) '' ''"
  by (erule after_spaces) (simp add: strcspn_def)

function find_in_list_loop :: "string \<Rightarrow> string \<Rightarrow> nat \<Rightarrow> nat option" where
  "find_in_list_loop needle ptr off =
     (if ptr = [] then None
      else
        let k = strspn ptr '' ''; ptr = drop k ptr
        in if ptr = [] then None
           else let len = strcspn ptr '' ''
                in if length needle = len \<and> strncmp needle ptr len = 0 then Some (off + k)
                   else find_in_list_loop needle (drop len ptr) (off + k + len))"
  by pat_completeness auto
termination
proof (relation "measure (\<lambda>(needle, ptr, off). length ptr)", goal_cases)
  case (2 needle ptr off k ptr' len)
  then show ?case
    using strcspn_pos [of ptr] by simp
qed simp

declare find_in_list_loop.simps [simp del]

definition find_in_list :: "string \<Rightarrow> string \<Rightarrow> nat option" where
  "find_in_list haystack needle =
     (if haystack = [] \<or> needle = [] then None else find_in_list_loop needle haystack 0)"

definition remove_from_list :: "string \<Rightarrow> string \<Rightarrow> int \<Rightarrow> list_error + string" where
  "remove_from_list name list listsize =
     (if listsize \<le> 0 \<or> name = [] then Inl EINVAL
      else if listsize \<le> int (length list) then Inl EINVAL
      else case find_in_list list name of
        None \<Rightarrow> Inl EINVAL
      | Some occurrence \<Rightarrow>
          let namelen = length name; after = hd0 (drop (occurrence + namelen) list)
          in if after = NUL
             then Inr (take (if occurrence \<noteq> 0 then occurrence - 1 else occurrence) list)
             else if after = CHR '' ''
             then Inr (take occurrence list @ drop (occurrence + namelen + 1) list)
             else Inl EINVAL)"

definition add_to_list :: "string \<Rightarrow> string \<Rightarrow> int \<Rightarrow> list_error + string" where
  "add_to_list name list listsize =
     (if listsize \<le> 0 \<or> name = [] then Inl EINVAL
      else if listsize \<le> int (length list) then Inl EINVAL
      else if find_in_list list name \<noteq> None then Inr list
      else
        let need_space = (if list \<noteq> [] \<and> last list \<noteq> CHR '' '' then 1 else 0 :: nat)
        in if nat listsize - length list - need_space \<le> length name then Inl EMSGSIZE
           else Inr (list @ replicate need_space CHR '' '' @ name))"

text \<open>The \<^verbatim>\<open>foreach\<close> macro of \<^verbatim>\<open>shutils.h\<close> with a word buffer of \<open>n\<close> bytes.\<close>

function foreach_words :: "nat \<Rightarrow> string \<Rightarrow> string list" where
  "foreach_words n next =
     (let next = drop (strspn next '' '') next;
          word = strlcpy next n;
          word = take (strcspn word '' '') word
      in if word = [] then []
         else word # (case strchr next CHR '' '' of
                        None \<Rightarrow> []
                      | Some k \<Rightarrow> foreach_words n (drop k next)))"
  by pat_completeness auto
termination
proof (relation "measure (\<lambda>(n, next). length next)", goal_cases)
  case (2 n nxt nxt' w word k)
  then have "nxt' \<noteq> []"
    by (auto simp: strlcpy_def strcspn_def)
  then obtain c t where "nxt' = c # t" "c \<noteq> CHR '' ''"
    using 2 after_spaces [of nxt] by metis
  moreover from this have "0 < k"
    using 2 by (auto simp: strchr_def split: if_splits)
  moreover have "length nxt' \<le> length nxt"
    using 2 by simp
  ultimately show ?case
    by auto
qed simp

declare foreach_words.simps [simp del]

definition remove_dups :: "string \<Rightarrow> int \<Rightarrow> string option" where
  "remove_dups inlist inlist_size =
     (if inlist_size \<le> 0 then None
      else if inlist_size \<le> int (length inlist) then None
      else map_option (\<lambda>outlist. strlcpy outlist (nat inlist_size))
             (fold_add (\<lambda>name outlist. add_to_list name outlist inlist_size)
                (foreach_words 256 inlist) []))"

function find_smallest_loop :: "string \<Rightarrow> nat \<Rightarrow> nat \<Rightarrow> nat \<Rightarrow> nat" where
  "find_smallest_loop haystack p smallest smallest_len =
     (let ptr = drop p haystack
      in if ptr = [] then smallest
         else
           let k = strspn ptr '' ''; ptr = drop k ptr
           in if ptr = [] then smallest
              else
                let len = strcspn ptr '' '';
                    cmp_len = (if len < smallest_len then len else smallest_len);
                    ret = strncmp ptr (drop smallest haystack) cmp_len
                in if ret < 0 \<or> ret = 0 \<and> len < smallest_len
                   then find_smallest_loop haystack (p + k + len) (p + k) len
                   else find_smallest_loop haystack (p + k + len) smallest smallest_len)"
  by pat_completeness auto
termination
proof (relation "measure (\<lambda>(haystack, p, smallest, smallest_len). length haystack - p)", goal_cases)
  case (2 haystack p smallest smallest_len ptr k ptr' len cmp_len ret)
  then have "0 < len" "p < length haystack"
    using strcspn_pos [of ptr] by auto
  then show ?case by simp
next
  case (3 haystack p smallest smallest_len ptr k ptr' len cmp_len ret)
  then have "0 < len" "p < length haystack"
    using strcspn_pos [of ptr] by auto
  then show ?case by simp
qed simp

declare find_smallest_loop.simps [simp del]

definition find_smallest_in_list :: "string \<Rightarrow> nat option" where
  "find_smallest_in_list haystack =
     (let p = strspn haystack '' ''; ptr = drop p haystack
      in if ptr = [] then None
         else let smallest_len = strcspn ptr '' ''
              in Some (find_smallest_loop haystack (p + smallest_len) p smallest_len))"

abbreviation words :: "string \<Rightarrow> string list" where
  "words \<equiv> fields (\<lambda>c. c = CHR '' '')"

text \<open>What one step of the scanning loops sees: the spaces, the next word, the rest.\<close>

lemma first_word:
  assumes "drop (strspn s '' '') s \<noteq> []"
  obtains sp w r where "s = sp @ w @ r" "length sp = strspn s '' ''" "set sp \<subseteq> {CHR '' ''}"
    "drop (strspn s '' '') s = w @ r" "strcspn (w @ r) '' '' = length w"
    "w \<noteq> []" "CHR '' '' \<notin> set w" "r = [] \<or> hd r = CHR '' ''" "words s = w # words r"
proof -
  let ?sp = "takeWhile (\<lambda>c. c = CHR '' '') s"
  let ?t = "dropWhile (\<lambda>c. c = CHR '' '') s"
  let ?w = "takeWhile (\<lambda>c. c \<noteq> CHR '' '') ?t"
  let ?r = "dropWhile (\<lambda>c. c \<noteq> CHR '' '') ?t"
  have t: "drop (strspn s '' '') s = ?t"
    by (simp add: drop_strspn)
  with assms have ne: "?t \<noteq> []" "hd ?t \<noteq> CHR '' ''"
    using hd_dropWhile [of "\<lambda>c. c = CHR '' ''" s] by auto
  have "words s = words ?t"
    by simp
  also have "\<dots> = ?w # words ?r"
    using fields_word [OF ne(1), of "\<lambda>c. c = CHR '' ''"] ne(2) by simp
  finally have ws: "words s = ?w # words ?r" .
  have w: "?w \<noteq> []"
    using ne by (cases ?t) auto
  have spaces: "set ?sp \<subseteq> {CHR '' ''}" and nospace: "CHR '' '' \<notin> set ?w"
    by (auto dest: set_takeWhileD)
  have r: "?r = [] \<or> hd ?r = CHR '' ''"
    using hd_dropWhile [of "\<lambda>c. c \<noteq> CHR '' ''" ?t] by blast
  have "strcspn (?w @ ?r) '' '' = length ?w"
    by (simp only: takeWhile_dropWhile_id) (simp add: strcspn_def)
  then show thesis
    using that [of ?sp ?w ?r] t w ws spaces nospace r
    by (simp add: strspn_def takeWhile_dropWhile_id)
qed

lemma words_spaces: "set sp \<subseteq> {CHR '' ''} \<Longrightarrow> words sp = []"
  by (induction sp) auto

text \<open>A successful search splits the list at the first occurrence of the needle as a word.\<close>

lemma find_in_list_loop_Some:
  "find_in_list_loop needle ptr off = Some p \<Longrightarrow> is_cstr needle \<Longrightarrow>
    \<exists>u v. ptr = u @ needle @ v \<and> p = off + length u \<and> needle \<noteq> [] \<and> CHR '' '' \<notin> set needle \<and>
      (u = [] \<or> last u = CHR '' '') \<and> (v = [] \<or> hd v = CHR '' '') \<and> needle \<notin> set (words u)"
proof (induction needle ptr off arbitrary: p rule: find_in_list_loop.induct)
  case (1 needle ptr off)
  from 1(2) have ne: "ptr \<noteq> []" "drop (strspn ptr '' '') ptr \<noteq> []"
    by (auto simp: find_in_list_loop.simps [of needle ptr] Let_def split: if_splits)
  from ne(2) obtain sp w r where f: "ptr = sp @ w @ r" "length sp = strspn ptr '' ''"
    "set sp \<subseteq> {CHR '' ''}" "drop (strspn ptr '' '') ptr = w @ r" "strcspn (w @ r) '' '' = length w"
    "w \<noteq> []" "CHR '' '' \<notin> set w" "r = [] \<or> hd r = CHR '' ''" "words ptr = w # words r"
    by (rule first_word)
  have sp: "sp = [] \<or> last sp = CHR '' ''"
    using f(3) last_in_set by (cases "sp = []") auto
  have unf: "find_in_list_loop needle ptr off =
      (if length needle = length w \<and> strncmp needle (w @ r) (length w) = 0
       then Some (off + length sp) else find_in_list_loop needle r (off + length sp + length w))"
    using ne f(2,4,5) f(6)
    by (simp add: find_in_list_loop.simps [of needle ptr] Let_def del: drop_eq_Nil)
  show ?case
  proof (cases "needle = w")
    case True
    with 1(3) unf 1(2) have "p = off + length sp"
      by (simp add: strncmp_eq_0)
    then show ?thesis
      using f True sp words_spaces [of sp] by (intro exI [of _ sp] exI [of _ r]) simp
  next
    case False
    have d: "w @ r = drop (length sp) ptr"
      using f(2,4) by simp
    have no: "\<not> (length needle = length w \<and> strncmp needle (w @ r) (length w) = 0)"
      using False 1(3) by (auto simp: strncmp_eq_0)
    with unf 1(2) have rec: "find_in_list_loop needle r (off + length sp + length w) = Some p"
      by simp
    have "\<exists>u v. r = u @ needle @ v \<and> p = off + length sp + length w + length u \<and> needle \<noteq> [] \<and>
        CHR '' '' \<notin> set needle \<and> (u = [] \<or> last u = CHR '' '') \<and> (v = [] \<or> hd v = CHR '' '') \<and>
        needle \<notin> set (words u)"
      using 1(1) [OF ne(1) f(2) d _ f(5) [symmetric]] no rec 1(3) f(6) by simp
    then obtain u v where uv: "r = u @ needle @ v" "p = off + length sp + length w + length u"
      "needle \<noteq> []" "CHR '' '' \<notin> set needle" "u = [] \<or> last u = CHR '' ''"
      "v = [] \<or> hd v = CHR '' ''" "needle \<notin> set (words u)"
      by blast
    have "u \<noteq> []"
      using f(8) uv(1,3,4) by (cases needle) auto
    moreover have "hd u = CHR '' ''"
      using f(8) uv(1) calculation by auto
    moreover have "words (sp @ w @ u) = w # words u"
      using fields_split [of w "\<lambda>c. c = CHR '' ''" sp u] f(6,7) sp words_spaces [OF f(3)] calculation
      by auto
    ultimately show ?thesis
      using f(1) uv False by (intro exI [of _ "sp @ w @ u"] exI [of _ v]) auto
  qed
qed

lemma find_in_list_loop_None:
  "find_in_list_loop needle ptr off = None \<Longrightarrow> is_cstr needle \<Longrightarrow> needle \<notin> set (words ptr)"
proof (induction needle ptr off rule: find_in_list_loop.induct)
  case (1 needle ptr off)
  show ?case
  proof (cases "drop (strspn ptr '' '') ptr = []")
    case True
    moreover have "words ptr = words (drop (strspn ptr '' '') ptr)"
      by (simp add: drop_strspn)
    ultimately show ?thesis by (simp del: drop_eq_Nil)
  next
    case False
    then have ne: "ptr \<noteq> []" by auto
    from False obtain sp w r where f: "ptr = sp @ w @ r" "length sp = strspn ptr '' ''"
      "set sp \<subseteq> {CHR '' ''}" "drop (strspn ptr '' '') ptr = w @ r" "strcspn (w @ r) '' '' = length w"
      "w \<noteq> []" "CHR '' '' \<notin> set w" "r = [] \<or> hd r = CHR '' ''" "words ptr = w # words r"
      by (rule first_word)
    have d: "w @ r = drop (length sp) ptr"
      using f(2,4) by simp
    have no: "\<not> (length needle = length w \<and> strncmp needle (w @ r) (length w) = 0)"
      and rec: "find_in_list_loop needle r (off + length sp + length w) = None"
      using 1(2) ne f(2,4,5,6)
      by (simp_all add: find_in_list_loop.simps [of needle ptr] Let_def del: drop_eq_Nil split: if_splits)
    have "needle \<notin> set (words r)"
      using 1(1) [OF ne f(2) d _ f(5) [symmetric]] no rec 1(3) f(6) by simp
    moreover have "needle \<noteq> w"
      using no 1(3) by (auto simp: strncmp_eq_0)
    ultimately show ?thesis
      using f(9) by simp
  qed
qed

lemma find_in_list_Some:
  assumes "find_in_list l n = Some p" "is_cstr n"
  shows "\<exists>u v. l = u @ n @ v \<and> p = length u \<and> n \<noteq> [] \<and> CHR '' '' \<notin> set n \<and>
      (u = [] \<or> last u = CHR '' '') \<and> (v = [] \<or> hd v = CHR '' '') \<and> n \<notin> set (words u) \<and>
      words l = words u @ n # words v"
proof -
  from assms have "find_in_list_loop n l 0 = Some p"
    by (simp add: find_in_list_def split: if_splits)
  from find_in_list_loop_Some [OF this assms(2)] show ?thesis
  proof (elim exE conjE)
    fix u v
    assume uv: "l = u @ n @ v" "p = 0 + length u" "n \<noteq> []" "CHR '' '' \<notin> set n"
      "u = [] \<or> last u = CHR '' ''" "v = [] \<or> hd v = CHR '' ''" "n \<notin> set (words u)"
    then have "words l = words u @ n # words v"
      using fields_split [of n "\<lambda>c. c = CHR '' ''" u v] by blast
    with uv show ?thesis
      by (intro exI [of _ u] exI [of _ v]) simp
  qed
qed

lemma find_in_list_iff: "is_cstr n \<Longrightarrow> find_in_list l n \<noteq> None \<longleftrightarrow> n \<in> set (words l)"
proof
  assume "is_cstr n" "find_in_list l n \<noteq> None"
  then show "n \<in> set (words l)"
    using find_in_list_Some [of l n] by auto
next
  assume n: "is_cstr n" "n \<in> set (words l)"
  have "l \<noteq> []"
    using n(2) by (metis fields.simps(1) empty_iff list.set(1))
  moreover have "n \<noteq> []"
    using fields_elem [OF n(2)] by (rule conjunct1)
  ultimately show "find_in_list l n \<noteq> None"
    using find_in_list_loop_None [of n l 0] n by (auto simp only: find_in_list_def if_False simp_thms)
qed

subsection \<open>Removing and adding a name\<close>

lemma find_in_list_loop_bound: "find_in_list_loop needle ptr off = Some p \<Longrightarrow> p < off + length ptr"
proof (induction needle ptr off rule: find_in_list_loop.induct)
  case (1 needle ptr off)
  from 1(2) have ne: "ptr \<noteq> []" "drop (strspn ptr '' '') ptr \<noteq> []"
    by (auto simp: find_in_list_loop.simps [of needle ptr] Let_def split: if_splits)
  let ?t = "drop (strspn ptr '' '') ptr"
  show ?case
  proof (cases "length needle = strcspn ?t '' '' \<and> strncmp needle ?t (strcspn ?t '' '') = 0")
    case True
    with 1(2) ne have "p = off + strspn ptr '' ''"
      by (simp add: find_in_list_loop.simps [of needle ptr] Let_def del: drop_eq_Nil)
    with ne(2) show ?thesis by simp
  next
    case False
    with 1(2) ne have "find_in_list_loop needle (drop (strcspn ?t '' '') ?t)
        (off + strspn ptr '' '' + strcspn ?t '' '') = Some p"
      by (auto simp: find_in_list_loop.simps [of needle ptr] Let_def simp del: drop_eq_Nil split: if_splits)
    from 1(1) [OF ne(1) refl refl ne(2) refl False this] show ?thesis
      using ne(2) strcspn_le [of ?t "'' ''"] by simp
  qed
qed

lemma remove_from_list_shorter:
  "remove_from_list name list listsize = Inr list' \<Longrightarrow> length list' < length list"
  using find_in_list_loop_bound [of name list 0]
  by (auto simp: remove_from_list_def find_in_list_def Let_def split: if_splits option.splits)

text \<open>
  One round of the sorting loop: the smallest word is appended to \<^verbatim>\<open>tmplist\<close> and removed
  from \<^verbatim>\<open>inlist\<close>.  The result is the success flag and the two buffers: when the source
  returns NULL, \<^verbatim>\<open>inlist\<close> has already lost the words moved so far.
\<close>

definition IFNAMSIZ :: nat where
  "IFNAMSIZ = 16"

function sort_loop :: "string \<Rightarrow> string \<Rightarrow> int \<Rightarrow> bool \<times> string \<times> string" where
  "sort_loop inlist tmplist inlist_size =
     (case find_smallest_in_list inlist of
        None \<Rightarrow> (True, inlist, tmplist)
      | Some b \<Rightarrow>
          let len = strcspn (drop b inlist) '' ''
          in if IFNAMSIZ \<le> len then (False, inlist, tmplist)
             else
               let tmp = take len (drop b inlist)
               in case add_to_list tmp tmplist inlist_size of
                    Inl _ \<Rightarrow> (False, inlist, tmplist)
                  | Inr tmplist' \<Rightarrow>
                      (case remove_from_list tmp inlist inlist_size of
                         Inl _ \<Rightarrow> (False, inlist, tmplist')
                       | Inr inlist' \<Rightarrow> sort_loop inlist' tmplist' inlist_size))"
  by pat_completeness auto
termination
  by (relation "measure (\<lambda>(inlist, tmplist, inlist_size). length inlist)")
    (auto dest: remove_from_list_shorter)

declare sort_loop.simps [simp del]

definition sort_list :: "string \<Rightarrow> int \<Rightarrow> bool \<times> string" where
  "sort_list inlist inlist_size =
     (if inlist_size \<le> 0 then (False, inlist)
      else if inlist_size \<le> int (length inlist) then (False, inlist)
      else case sort_loop inlist [] inlist_size of
        (True, inlist', tmplist) \<Rightarrow> (True, strlcpy tmplist (nat inlist_size))
      | (False, inlist', tmplist) \<Rightarrow> (False, inlist'))"

lemma words_butlast: "u \<noteq> [] \<Longrightarrow> last u = CHR '' '' \<Longrightarrow> words (butlast u) = words u"
  using fields_append [of "butlast u" "\<lambda>c. c = CHR '' ''" "[CHR '' '']"] append_butlast_last_id [of u]
  by simp

lemma remove_from_list_words:
  assumes "is_cstr n" "is_cstr l" "n \<in> set (words l)" "int (length l) < sz"
  shows "\<exists>l'. remove_from_list n l sz = Inr l' \<and> words l' = remove1 n (words l) \<and>
    is_cstr l' \<and> length l' < length l"
proof -
  obtain p where p: "find_in_list l n = Some p"
    using find_in_list_iff [OF assms(1)] assms(3) by blast
  from find_in_list_Some [OF this assms(1)] obtain u v where
    uv: "l = u @ n @ v" "p = length u" "n \<noteq> []" "CHR '' '' \<notin> set n"
      "u = [] \<or> last u = CHR '' ''" "v = [] \<or> hd v = CHR '' ''" "n \<notin> set (words u)"
      "words l = words u @ n # words v"
    by (elim exE conjE) (rule that)
  have rm: "remove1 n (words l) = words u @ words v"
    using uv(7,8) by (simp add: remove1_append)
  have pre: "\<not> (sz \<le> 0 \<or> n = [])" "\<not> sz \<le> int (length l)"
    using assms(4) uv(3) by auto
  show ?thesis
  proof (cases v)
    case Nil
    then have "remove_from_list n l sz = Inr (take (if p \<noteq> 0 then p - 1 else p) l)"
      using pre p uv(1,2) by (simp add: remove_from_list_def)
    also have "take (if p \<noteq> 0 then p - 1 else p) l = butlast u"
      using uv(1,2) by (cases "u = []") (simp_all add: butlast_conv_take)
    finally have r: "remove_from_list n l sz = Inr (butlast u)" .
    moreover have "words (butlast u) = remove1 n (words l)"
      using rm Nil uv(5) words_butlast [of u] by (cases "u = []") simp_all
    moreover have "is_cstr (butlast u)"
      using assms(2) uv(1) by (auto simp: is_cstr_def dest: in_set_butlastD)
    ultimately show ?thesis
      using remove_from_list_shorter [OF r] by simp
  next
    case (Cons c v')
    with uv(6) have c: "c = CHR '' ''" by simp
    then have r: "remove_from_list n l sz = Inr (u @ v')"
      using pre p uv(1,2) Cons by (simp add: remove_from_list_def)
    moreover have "words (u @ v') = remove1 n (words l)"
      using rm Cons c fields_append [of u "\<lambda>c. c = CHR '' ''" v'] uv(5) by auto
    moreover have "is_cstr (u @ v')"
      using assms(2) uv(1) Cons by (auto simp: is_cstr_def)
    ultimately show ?thesis
      using remove_from_list_shorter [OF r] by simp
  qed
qed

lemma remove_from_list_absent:
  "is_cstr n \<Longrightarrow> n \<notin> set (words l) \<Longrightarrow> remove_from_list n l sz = Inl EINVAL"
  using find_in_list_iff [of n l] by (auto simp: remove_from_list_def)

definition name_ok :: "string \<Rightarrow> bool" where
  "name_ok w \<longleftrightarrow> w \<noteq> [] \<and> CHR '' '' \<notin> set w \<and> is_cstr w"

lemma words_name_ok: "is_cstr l \<Longrightarrow> w \<in> set (words l) \<Longrightarrow> name_ok w"
proof -
  assume l: "is_cstr l" and w: "w \<in> set (words l)"
  obtain u v where "l = u @ w @ v"
    using fields_occurs [OF w] by blast
  then show ?thesis
    using l fields_elem [OF w] by (auto simp: name_ok_def is_cstr_def)
qed

text \<open>The bytes a list occupies when one more name is appended: its length and the separator.\<close>

definition used :: "string \<Rightarrow> nat" where
  "used l = length l + (if l \<noteq> [] \<and> last l \<noteq> CHR '' '' then 1 else 0)"

lemma add_to_list_words:
  assumes "name_ok n" "is_cstr l" "used l + length n < sz"
  shows "\<exists>l'. add_to_list n l (int sz) = Inr l' \<and> is_cstr l' \<and>
    words l' = (if n \<in> set (words l) then words l else words l @ [n]) \<and>
    used l' \<le> used l + length n + 1 \<and> length l' < sz"
proof (cases "n \<in> set (words l)")
  case True
  with assms find_in_list_iff [of n l] show ?thesis
    by (auto simp: add_to_list_def name_ok_def used_def)
next
  case False
  define sp where "sp = replicate (if l \<noteq> [] \<and> last l \<noteq> CHR '' '' then 1 else 0) CHR '' ''"
  have "find_in_list l n = None"
    using assms(1) False find_in_list_iff [of n l] by (auto simp: name_ok_def)
  then have "add_to_list n l (int sz) = Inr (l @ sp @ n)"
    using assms
    by (cases "l \<noteq> [] \<and> last l \<noteq> CHR '' ''") (auto simp: add_to_list_def name_ok_def used_def sp_def)
  moreover have "words (l @ sp @ n) = words l @ [n]"
  proof -
    have "l @ sp = [] \<or> last (l @ sp) = CHR '' ''"
      by (auto simp: sp_def)
    then have "words ((l @ sp) @ n @ []) = words (l @ sp) @ n # words []"
      using fields_split [of n "\<lambda>c. c = CHR '' ''" "l @ sp" "[]"] assms(1) by (auto simp: name_ok_def)
    moreover have "words (l @ sp) = words l"
      using fields_append [of l "\<lambda>c. c = CHR '' ''" sp] by (auto simp: sp_def)
    ultimately show ?thesis by simp
  qed
  moreover have "is_cstr (l @ sp @ n)"
    using assms by (auto simp: is_cstr_def name_ok_def sp_def)
  moreover have "used (l @ sp @ n) \<le> used l + length n + 1" "length (l @ sp @ n) < sz"
    using assms(3) by (auto simp: used_def sp_def)
  ultimately show ?thesis
    using False by auto
qed

interpretation nl: bounded_names "\<lambda>l. is_cstr l \<and> length l < sz" name_ok words used "\<lambda>n. length n + 1" sz
  "\<lambda>n l. add_to_list n l (int sz)" for sz
proof (unfold_locales, goal_cases)
  case (1 l n)
  then have "used l + length n < sz"
    by simp
  from add_to_list_words [OF 1(2) conjunct1 [OF 1(1)] this] show ?case
    by (simp add: add_new_def ac_simps)
qed

lemma no_more_words: "drop (strspn s '' '') s = [] \<Longrightarrow> words s = []"
proof -
  assume *: "drop (strspn s '' '') s = []"
  have "words s = words (drop (strspn s '' '') s)"
    by (simp add: drop_strspn)
  with * show ?thesis by (simp del: drop_eq_Nil)
qed

lemma takeWhile_take: "takeWhile P (take k s) = take k (takeWhile P s)"
proof (induction s arbitrary: k)
  case (Cons c s)
  then show ?case by (cases k) auto
qed simp

lemma takeWhile_word:
  assumes "CHR '' '' \<notin> set w" "r = [] \<or> hd r = CHR '' ''"
  shows "takeWhile (\<lambda>c. c \<noteq> CHR '' '') (w @ r) = w"
  using assms by (cases r) (auto simp: takeWhile_append takeWhile_id)

lemma foreach_words_eq: "1 < n \<Longrightarrow> foreach_words n s = map (take (n - 1)) (words s)"
proof (induction n s rule: foreach_words.induct)
  case (1 n s)
  show ?case
  proof (cases "drop (strspn s '' '') s = []")
    case True
    then show ?thesis
      using no_more_words [OF True]
      by (simp add: foreach_words.simps [of n s] strlcpy_def strcspn_def Let_def del: drop_eq_Nil)
  next
    case False
    then obtain sp w r where f: "s = sp @ w @ r" "length sp = strspn s '' ''"
      "set sp \<subseteq> {CHR '' ''}" "drop (strspn s '' '') s = w @ r" "strcspn (w @ r) '' '' = length w"
      "w \<noteq> []" "CHR '' '' \<notin> set w" "r = [] \<or> hd r = CHR '' ''" "words s = w # words r"
      by (rule first_word)
    let ?word = "strlcpy (w @ r) n"
    have word: "take (strcspn ?word '' '') ?word = take (n - 1) w"
      unfolding take_strcspn strlcpy_def takeWhile_take
      using takeWhile_word [OF f(7,8)] by (simp del: take_append)
    have ne: "take (n - 1) w \<noteq> []"
      using "1.prems" f(6) by simp
    show ?thesis
    proof (cases r)
      case Nil
      then have "strchr (w @ r) CHR '' '' = None"
        using f(7) by (simp add: strchr_None)
      with word ne f(4,9) Nil show ?thesis
        by (simp add: foreach_words.simps [of n s] Let_def del: drop_eq_Nil take_eq_Nil)
    next
      case (Cons c r')
      with f(8) have c: "r = CHR '' '' # r'" by simp
      then have k: "strchr (w @ r) CHR '' '' = Some (length w)"
        using takeWhile_word [OF f(7,8)] by (simp add: strchr_def)
      have "foreach_words n r = map (take (n - 1)) (words r)"
        using 1(1) [OF f(4) [symmetric] refl, of _ "length w"] word ne k "1.prems" by simp
      with word ne f(4,9) k show ?thesis
        by (simp add: foreach_words.simps [of n s] Let_def del: drop_eq_Nil take_eq_Nil)
    qed
  qed
qed

lemma remove_dups_words:
  assumes "is_cstr l" "length l < sz" "\<forall>w \<in> set (words l). length w < 256"
  shows "\<exists>out. remove_dups l (int sz) = Some out \<and> words out = rev (remdups (rev (words l)))"
proof -
  have short: "map (take 255) (words l) = words l"
    using assms(3) by (intro map_idI) fastforce
  have "weight (words l) \<le> sz"
    using weight_fields [of "\<lambda>c. c = CHR '' ''" l] assms(2) by linarith
  then obtain out where out: "fold_add (\<lambda>n l. add_to_list n l (int sz)) (words l) [] = Some out"
    "length out < sz" "words out = foldl add_new [] (words l)"
    using nl.fold_add_names [of "[]" sz "words l"] words_name_ok [OF assms(1)] assms(2)
    by (auto simp: is_cstr_def used_def weight_def)
  then show ?thesis
    using out assms(2) short by (simp add: remove_dups_def foreach_words_eq strlcpy_def foldl_add_new)
qed


subsection \<open>Sorting a list\<close>

lemma less_char_iff: "(c :: char) < d \<longleftrightarrow> (of_char c :: int) < of_char d"
proof -
  have "(of_char c :: int) = int (of_char c)" "(of_char d :: int) = int (of_char d)"
    by (simp_all add: of_nat_of_char)
  then show ?thesis
    by (simp add: less_char_def)
qed

lemma strncmp_less:
  assumes "is_cstr a" "is_cstr b"
  shows "(let ret = strncmp (a @ r) (b @ s) (min (length a) (length b))
          in ret < 0 \<or> ret = 0 \<and> length a < length b) \<longleftrightarrow> a < b"
  using assms
proof (induction a arbitrary: b)
  case Nil
  then show ?case by (cases b) auto
next
  case (Cons x a)
  show ?case
  proof (cases b)
    case Nil
    then show ?thesis by simp
  next
    case b: (Cons y b')
    have "x \<noteq> NUL" "is_cstr a" "is_cstr b'"
      using Cons.prems b by (auto simp: is_cstr_def)
    with Cons.IH [of b'] show ?thesis
      using b less_char_iff [of x y] by (cases "x = y") (auto simp: Let_def)
  qed
qed

text \<open>\<open>w\<close> is the word of the list that starts at offset \<open>p\<close>.\<close>

definition at_word :: "string \<Rightarrow> nat \<Rightarrow> string \<Rightarrow> bool" where
  "at_word hay p w \<longleftrightarrow> name_ok w \<and>
     (\<exists>u v. hay = u @ w @ v \<and> length u = p \<and> (u = [] \<or> last u = CHR '' '') \<and>
        (v = [] \<or> hd v = CHR '' ''))"

lemma at_word_strcspn:
  assumes "at_word hay p w"
  shows "strcspn (drop p hay) '' '' = length w" "take (length w) (drop p hay) = w"
    "w \<in> set (words hay)" "\<exists>v. drop p hay = w @ v"
proof -
  from assms obtain u v where uv: "hay = u @ w @ v" "length u = p" "u = [] \<or> last u = CHR '' ''"
    "v = [] \<or> hd v = CHR '' ''" and ok: "name_ok w"
    by (auto simp only: at_word_def)
  have "takeWhile (\<lambda>c. c \<noteq> CHR '' '') (w @ v) = w"
    using ok uv(4) by (intro takeWhile_word) (simp_all add: name_ok_def)
  then show "strcspn (drop p hay) '' '' = length w" "take (length w) (drop p hay) = w"
    using uv(1,2) by (simp_all add: strcspn_def)
  show "w \<in> set (words hay)"
    using fields_split [OF _ _ uv(3,4), of w] ok uv(1) by (metis in_set_conv_decomp name_ok_def)
  show "\<exists>v. drop p hay = w @ v"
    using uv(1,2) by auto
qed

lemma find_smallest_loop_min:
  assumes "is_cstr hay" "at_word hay smallest w" "smallest_len = length w"
    "drop p hay = [] \<or> hd (drop p hay) = CHR '' ''"
  shows "at_word hay (find_smallest_loop hay p smallest smallest_len) (fold min (words (drop p hay)) w)"
  using assms
proof (induction "length hay - p" arbitrary: p smallest smallest_len w rule: less_induct)
  case (less p smallest smallest_len)
  let ?ptr = "drop p hay"
  show ?case
  proof (cases "drop (strspn ?ptr '' '') ?ptr = []")
    case True
    then show ?thesis
      using less.prems(2) no_more_words [OF True]
      by (simp add: find_smallest_loop.simps [of hay p] Let_def del: drop_eq_Nil drop_drop)
  next
    case False
    then have ne: "?ptr \<noteq> []" by auto
    from False obtain sp x r where f: "?ptr = sp @ x @ r" "length sp = strspn ?ptr '' ''"
      "set sp \<subseteq> {CHR '' ''}" "drop (strspn ?ptr '' '') ?ptr = x @ r"
      "strcspn (x @ r) '' '' = length x" "x \<noteq> []" "CHR '' '' \<notin> set x" "r = [] \<or> hd r = CHR '' ''"
      "words ?ptr = x # words r"
      by (rule first_word)
    have hay: "hay = (take p hay @ sp) @ x @ r"
      using f(1) by (metis append_assoc append_take_drop_id)
    have p: "length (take p hay) = p"
      using ne by simp
    have cx: "is_cstr x"
      using less.prems(1) hay by (metis UnCI is_cstr_def set_append)
    have "sp \<noteq> []"
      using ne less.prems(4) f(1,6,7) by (cases x) auto
    then have "last (take p hay @ sp) = CHR '' ''"
      using f(3) last_in_set [of sp] by (metis last_append singletonD subsetD)
    then have ax: "at_word hay (p + length sp) x"
      unfolding at_word_def name_ok_def
      using f(6,7,8) cx p hay by (intro conjI exI [of _ "take p hay @ sp"] exI [of _ r]) auto
    have rest: "drop (p + length sp + length x) hay = r"
      using f(1) by (metis append_eq_conv_conj drop_drop add.commute)
    obtain v where v: "drop smallest hay = w @ v"
      using at_word_strcspn(4) [OF less.prems(2)] by blast
    have cw: "is_cstr w"
      using less.prems(2) by (simp add: at_word_def name_ok_def)
    let ?ret = "strncmp (x @ r) (w @ v) (min (length x) (length w))"
    have cmp: "(?ret < 0 \<or> ?ret = 0 \<and> length x < length w) \<longleftrightarrow> x < w"
      using strncmp_less [OF cx cw, of r v] by (simp add: Let_def)
    have minlen: "(if length x < length w then length x else length w) = min (length x) (length w)"
      by simp
    have unf: "find_smallest_loop hay p smallest smallest_len =
        (if x < w then find_smallest_loop hay (p + length sp + length x) (p + length sp) (length x)
         else find_smallest_loop hay (p + length sp + length x) smallest (length w))"
      using f(2,4,5) ne f(6) cmp v less.prems(3) minlen
      by (simp add: find_smallest_loop.simps [of hay p] Let_def del: drop_eq_Nil drop_drop min_def)
    have shorter: "length hay - (p + length sp + length x) < length hay - p"
      using ne f(6) by (cases x) auto
    show ?thesis
    proof (cases "x < w")
      case True
      with less.hyps [OF shorter less.prems(1) ax refl] f(8,9) rest unf show ?thesis
        by (simp add: min_absorb1 less_imp_le)
    next
      case False
      with less.hyps [OF shorter less.prems(1,2) refl] f(8,9) rest unf show ?thesis
        by (simp add: min_absorb2)
    qed
  qed
qed
lemma find_smallest_in_list_None: "find_smallest_in_list hay = None \<Longrightarrow> words hay = []"
  using no_more_words [of hay]
  by (auto simp: find_smallest_in_list_def Let_def simp del: drop_eq_Nil split: if_splits)

lemma find_smallest_in_list_Some:
  assumes "is_cstr hay" "find_smallest_in_list hay = Some b"
  shows "at_word hay b (Min (set (words hay)))"
proof -
  have "drop (strspn hay '' '') hay \<noteq> []"
    using assms(2) by (auto simp: find_smallest_in_list_def Let_def split: if_splits)
  then obtain sp w r where f: "hay = sp @ w @ r" "length sp = strspn hay '' ''"
    "set sp \<subseteq> {CHR '' ''}" "drop (strspn hay '' '') hay = w @ r" "strcspn (w @ r) '' '' = length w"
    "w \<noteq> []" "CHR '' '' \<notin> set w" "r = [] \<or> hd r = CHR '' ''" "words hay = w # words r"
    by (rule first_word)
  have "sp = [] \<or> last sp = CHR '' ''"
    using f(3) last_in_set [of sp] by blast
  then have aw: "at_word hay (length sp) w"
    unfolding at_word_def name_ok_def
    using f(6,7,8) assms(1) f(1) by (intro conjI exI [of _ sp] exI [of _ r]) (auto simp: is_cstr_def)
  have r: "drop (length sp + length w) hay = r"
    using f(1) by simp
  have "find_smallest_loop hay (length sp + length w) (length sp) (length w) = b"
    using assms(2) f(2,4,5,6) by (simp add: find_smallest_in_list_def Let_def del: drop_eq_Nil)
  moreover have "fold min (words r) w = Min (set (words hay))"
    using f(9) Min.set_eq_fold [of w "words r"] by (simp only: )
  ultimately show ?thesis
    using find_smallest_loop_min [OF assms(1) aw refl, of "length sp + length w"] f(8) r by auto
qed

lemma sort_Min: "xs \<noteq> [] \<Longrightarrow> sort xs = Min (set xs) # sort (remove1 (Min (set xs)) xs)"
proof -
  assume ne: "xs \<noteq> []"
  let ?m = "Min (set xs)"
  have "sorted (?m # sort (remove1 ?m xs))"
    using ne set_remove1_subset [of ?m xs] by (auto intro: Min_le)
  moreover have "mset (?m # sort (remove1 ?m xs)) = mset xs"
    using ne by simp
  ultimately show ?thesis
    by (metis sorted_sort_id properties_for_sort sorted_sort mset_sort)
qed

lemma sorted_wrt_remdups: "sorted_wrt R xs \<Longrightarrow> sorted_wrt R (remdups xs)"
  by (induction xs) auto

lemma foldl_add_new_sort: "foldl add_new [] (sort ws) = sorted_list_of_set (set ws)"
proof -
  have "sorted_wrt (\<ge>) (rev (sort ws))"
    using sorted_sort [of ws] by (simp add: sorted_wrt_rev)
  then have "sorted_wrt (\<ge>) (remdups (rev (sort ws)))"
    by (rule sorted_wrt_remdups)
  then have "sorted (rev (remdups (rev (sort ws))))"
    by (simp add: sorted_wrt_rev)
  then show ?thesis
    unfolding foldl_add_new by (intro sorted_distinct_set_unique) simp_all
qed

lemma weight_remove1: "w \<in> set ws \<Longrightarrow> weight (remove1 w ws) + length w + 1 = weight ws"
  by (induction ws) auto

lemma sort_loop_words:
  assumes "is_cstr l" "int (length l) < int sz" "\<forall>w \<in> set (words l). length w < IFNAMSIZ"
    "is_cstr t" "length t < sz" "used t + weight (words l) \<le> sz"
  shows "\<exists>l' t'. sort_loop l t (int sz) = (True, l', t') \<and> length t' < sz \<and>
    words t' = foldl add_new (words t) (sort (words l))"
  using assms
proof (induction "length l" arbitrary: l t rule: less_induct)
  case (less l t)
  show ?case
  proof (cases "find_smallest_in_list l")
    case None
    with find_smallest_in_list_None [OF None] less.prems(5) show ?thesis
      by (simp add: sort_loop.simps [of l])
  next
    case (Some b)
    let ?w = "Min (set (words l))"
    note aw = find_smallest_in_list_Some [OF less.prems(1) Some]
    note w = at_word_strcspn [OF aw]
    have ne: "words l \<noteq> []"
      using w(3) by (metis empty_iff list.set(1))
    have ok: "name_ok ?w"
      using aw by (simp add: at_word_def)
    obtain t' where t': "add_to_list ?w t (int sz) = Inr t'" "is_cstr t'" "length t' < sz"
      "words t' = add_new (words t) ?w" "used t' \<le> used t + length ?w + 1"
      using nl.add_names [of t sz ?w] less.prems(4,5,6) ok weight_remove1 [OF w(3)]
      by (auto simp: ac_simps)
    obtain l' where l': "remove_from_list ?w l (int sz) = Inr l'" "words l' = remove1 ?w (words l)"
      "is_cstr l'" "length l' < length l"
      using remove_from_list_words [of ?w l "int sz"] ok less.prems(1,2) w(3)
      by (auto simp: name_ok_def)
    have "sort_loop l t (int sz) = sort_loop l' t' (int sz)"
      using Some w(1,2) less.prems(3) [rule_format, OF w(3)] t'(1) l'(1)
      by (simp add: sort_loop.simps [of l] Let_def leD)
    moreover have "\<exists>l'' t''. sort_loop l' t' (int sz) = (True, l'', t'') \<and> length t'' < sz \<and>
        words t'' = foldl add_new (words t') (sort (words l'))"
    proof (rule less.hyps)
      show "\<forall>w \<in> set (words l'). length w < IFNAMSIZ"
        using less.prems(3) l'(2) by (auto dest: notin_set_remove1)
      show "used t' + weight (words l') \<le> sz"
        using t'(5) l'(2) weight_remove1 [OF w(3)] less.prems(6) by simp
    qed (use l' t' less.prems(2) in auto)
    ultimately show ?thesis
      using sort_Min [OF ne] t'(4) l'(2) by simp
  qed
qed

lemma sort_list_words:
  assumes "is_cstr l" "length l < sz" "\<forall>w \<in> set (words l). length w < IFNAMSIZ"
  shows "\<exists>out. sort_list l (int sz) = (True, out) \<and> words out = sorted_list_of_set (set (words l))"
proof -
  have "used [] + weight (words l) \<le> sz"
    using weight_fields [of "\<lambda>c. c = CHR '' ''" l] assms(2) by (simp add: used_def)
  with sort_loop_words [of l sz "[]"] assms obtain l' t' where
    "sort_loop l [] (int sz) = (True, l', t')" "length t' < sz"
    "words t' = foldl add_new [] (sort (words l))"
    by (auto simp: is_cstr_def)
  then show ?thesis
    using assms(2) by (simp add: sort_list_def strlcpy_def foldl_add_new_sort)
qed

subsection \<open>Properties\<close>

text \<open>\<^verbatim>\<open>add_to_list\<close> on a list that has room for the name, its separator and the
  terminator succeeds, stays within the buffer, keeps the words that were there in their order and
  adds the name at the end, unless it is a word of the list already.\<close>

theorem add_to_list_correct:
  assumes "name_ok n" "is_cstr l" "used l + length n < sz"
  shows "\<exists>l'. add_to_list n l (int sz) = Inr l' \<and> is_cstr l' \<and> length l' < sz \<and>
    words l' = (if n \<in> set (words l) then words l else words l @ [n])"
  using add_to_list_words [OF assms] by blast

theorem add_to_list_correct_witness:
  "\<exists>l'. add_to_list ''eth1'' ''eth0 vlan1'' (int 32) = Inr l' \<and> is_cstr l' \<and> length l' < 32 \<and>
    words l' = (if ''eth1'' \<in> set (words ''eth0 vlan1'') then words ''eth0 vlan1''
      else words ''eth0 vlan1'' @ [''eth1''])"
  by (rule add_to_list_correct) (simp_all add: name_ok_def is_cstr_def used_def)

text \<open>\<^verbatim>\<open>remove_from_list\<close> succeeds exactly when the name is a word of the list (a name that
  is only part of a longer word does not count), takes out its first occurrence and leaves the
  other words in their order.\<close>

theorem remove_from_list_correct:
  assumes "is_cstr n" "is_cstr l" "int (length l) < sz"
  shows "if n \<in> set (words l)
    then \<exists>l'. remove_from_list n l sz = Inr l' \<and> words l' = remove1 n (words l) \<and> length l' < length l
    else remove_from_list n l sz = Inl EINVAL"
  using remove_from_list_words [OF assms(1,2) _ assms(3)] remove_from_list_absent [OF assms(1), of l sz]
  by auto

theorem remove_from_list_correct_witness:
  "if ''eth1'' \<in> set (words ''eth0 eth1 eth10'')
    then \<exists>l'. remove_from_list ''eth1'' ''eth0 eth1 eth10'' 32 = Inr l' \<and>
      words l' = remove1 ''eth1'' (words ''eth0 eth1 eth10'') \<and> length l' < length ''eth0 eth1 eth10''
    else remove_from_list ''eth1'' ''eth0 eth1 eth10'' 32 = Inl EINVAL"
  by (rule remove_from_list_correct) (simp_all add: is_cstr_def)

text \<open>\<^verbatim>\<open>remove_dups\<close> on a list that fits its buffer and has no word of 256 characters
  or more always succeeds and leaves each word once, in the order of the first occurrences.\<close>

theorem remove_dups_correct:
  assumes "is_cstr l" "length l < sz" "\<forall>w \<in> set (words l). length w < 256"
  shows "\<exists>out. remove_dups l (int sz) = Some out \<and> words out = rev (remdups (rev (words l)))"
  using remove_dups_words [OF assms] .

theorem remove_dups_correct_witness:
  "\<exists>out. remove_dups ''b a b  a'' (int 16) = Some out \<and>
    words out = rev (remdups (rev (words ''b a b  a'')))"
  by (rule remove_dups_correct) (simp_all add: is_cstr_def)

text \<open>C22: \<^verbatim>\<open>sort_list\<close> on a list that fits its buffer and whose words are shorter than
  \<^verbatim>\<open>IFNAMSIZ\<close> terminates with success; the result holds the distinct words of the input in
  increasing byte order.  A word that was in the list twice is in the result once.\<close>

theorem sort_list_correct:
  assumes "is_cstr l" "length l < sz" "\<forall>w \<in> set (words l). length w < IFNAMSIZ"
  shows "\<exists>out. sort_list l (int sz) = (True, out) \<and> words out = sorted_list_of_set (set (words l))"
  using sort_list_words [OF assms] .

theorem sort_list_correct_witness:
  "\<exists>out. sort_list ''vlan2 eth0 vlan1'' (int 32) = (True, out) \<and>
    words out = sorted_list_of_set (set (words ''vlan2 eth0 vlan1''))"
  by (rule sort_list_correct) (simp_all add: is_cstr_def IFNAMSIZ_def)

end
