(* ===== verification/Ifnames.thy ===== *)
theory Ifnames
  imports Prelude
begin

section \<open>Ethernet addresses and interface names\<close>

text \<open>
  The conversions of \<^verbatim>\<open>libshared/shared/shutils.c\<close> between Ethernet addresses and their text
  form, between binary data and hexadecimal text, and between the interface names the system uses
  and the names NVRAM uses.  A return code with an output buffer is a pair, or a triple for two
  outputs; the buffers' sizes are arguments where the source takes them.
\<close>

subsection \<open>Ethernet addresses\<close>

definition hexval :: "char \<Rightarrow> int" where
  "hexval c =
     (if isdigit c then of_char c - 48
      else if 97 \<le> (of_char c :: int) \<and> (of_char c :: int) \<le> 102 then of_char c - 97 + 10
      else if 65 \<le> (of_char c :: int) \<and> (of_char c :: int) \<le> 70 then of_char c - 65 + 10
      else - 1)"

definition ETHER_ADDR_LEN :: nat where
  "ETHER_ADDR_LEN = 6"

text \<open>
  The loop of \<^verbatim>\<open>ether_atoe\<close> from index \<open>i\<close> with the text still to read; \<open>None\<close> is
  \<^verbatim>\<open>goto fail\<close>.  The source reads \<^verbatim>\<open>a[1]\<close> before it has looked at
  \<^verbatim>\<open>a[0]\<close>; past the terminator the value does not matter, because \<^verbatim>\<open>hi\<close> is then
  already negative, and the model reads NUL there.
\<close>

function atoe_loop :: "nat \<Rightarrow> char \<Rightarrow> string \<Rightarrow> u8 list option" where
  "atoe_loop i sep a =
     (if i < ETHER_ADDR_LEN then
        let hi = hexval (hd0 a); lo = hexval (hd0 (drop 1 a))
        in if hi < 0 \<or> lo < 0 then None
           else
             let e_i = word_of_int (push_bit 4 hi OR lo); a = drop 2 a
             in if i < ETHER_ADDR_LEN - 1 then
                  if i = 0 then
                    let sep = hd0 a
                    in if sep \<noteq> CHR '':'' \<and> sep \<noteq> CHR ''-'' then None
                       else map_option ((#) e_i) (atoe_loop (i + 1) sep (drop 1 a))
                  else if hd0 a \<noteq> sep then None
                  else map_option ((#) e_i) (atoe_loop (i + 1) sep (drop 1 a))
                else if hd0 a \<noteq> NUL then None
                else map_option ((#) e_i) (atoe_loop (i + 1) sep a)
      else Some [])"
  by pat_completeness auto
termination
  by (relation "measure (\<lambda>(i, sep, a). ETHER_ADDR_LEN - i)") auto

declare atoe_loop.simps [simp del]

definition ether_atoe :: "string \<Rightarrow> bool \<times> u8 list" where
  "ether_atoe a =
     (case atoe_loop 0 NUL a of
        None \<Rightarrow> (False, replicate ETHER_ADDR_LEN 0)
      | Some e \<Rightarrow> (True, e))"

definition HEX :: string where
  "HEX = ''0123456789ABCDEF''"

definition hex_byte :: "string \<Rightarrow> u8 \<Rightarrow> string" where
  "hex_byte hex b = [hex ! unat (drop_bit 4 b), hex ! unat (b AND 0x0F)]"

fun etoa_loop :: "nat \<Rightarrow> u8 list \<Rightarrow> string" where
  "etoa_loop i [] = []"
| "etoa_loop i (b # e) = (if i \<noteq> 0 then [CHR '':''] else []) @ hex_byte HEX b @ etoa_loop (i + 1) e"

definition ether_etoa :: "u8 list \<Rightarrow> string" where
  "ether_etoa e = etoa_loop 0 (take ETHER_ADDR_LEN e)"

datatype hex_error = HEX_EINVAL | ENAMETOOLONG

definition bin2hex :: "nat \<Rightarrow> u8 list \<Rightarrow> hex_error + string" where
  "bin2hex dstlen src =
     (if dstlen = 0 then Inl HEX_EINVAL
      else if (dstlen - 1) div 2 < length src then Inl ENAMETOOLONG
      else Inr (concat (map (hex_byte ''0123456789abcdef'') src)))"

subsection \<open>Units of an interface name\<close>

definition DIGITS :: string where
  "DIGITS = ''0123456789''"

definition sh_strrspn :: "string \<Rightarrow> string \<Rightarrow> nat" where
  "sh_strrspn s accept = length (takeWhile (\<lambda>c. c \<in> set accept) (rev s))"

definition get_ifname_unit :: "string \<Rightarrow> int \<times> int \<times> int" where
  "get_ifname_unit ifname =
     (if 64 \<le> length ifname then (- 1, - 1, - 1)
      else
        let str = ifname; len = sh_strrspn str DIGITS
        in if len = 0 then (- 1, - 1, - 1)
           else
             let p = length str - len; val = read_nat (drop p str)
             in if 2 ^ 31 - 1 < val then (- 1, - 1, - 1)
                else if p = 0 \<or> str ! (p - 1) \<noteq> CHR ''.'' then (0, int val, - 1)
                else
                  let su = int val; str = take (p - 1) str; len = sh_strrspn str DIGITS
                  in if len = 0 then (- 1, - 1, - 1)
                     else
                       let val = read_nat (drop (length str - len) str)
                       in if 2 ^ 31 - 1 < val then (- 1, - 1, - 1) else (0, int val, su))"

subsection \<open>NVRAM names and system names\<close>

definition MAX_NVPARSE :: nat where
  "MAX_NVPARSE = 255"

definition NVRAM_MAX_PARAM_LEN :: nat where
  "NVRAM_MAX_PARAM_LEN = 64"

definition nvifname_to_osifname :: "nvram \<Rightarrow> string \<Rightarrow> int \<Rightarrow> int \<times> string" where
  "nvifname_to_osifname nv nvifname buf_len =
     (if nvifname = [] \<or> buf_len \<le> 0 then (- 1, [])
      else
        let buflen = nat buf_len
        in if strstr nvifname ''eth'' \<noteq> None \<or> strstr nvifname ''.'' \<noteq> None then
             (if buflen \<le> length nvifname then - 1 else 0, strlcpy nvifname buflen)
           else if NVRAM_MAX_PARAM_LEN \<le> length (nvifname @ ''_ifname'') then (- 1, [])
           else case nv (nvifname @ ''_ifname'') of
               None \<Rightarrow> (- 1, [])
             | Some ptr \<Rightarrow>
                 if ptr = [] then (- 1, [])
                 else (if buflen \<le> length ptr then - 1 else 0, strlcpy ptr buflen))"

definition wl_unit_name :: "nat \<Rightarrow> string" where
  "wl_unit_name pri = ''wl'' @ show_nat pri"

definition wl_subunit_name :: "nat \<times> nat \<Rightarrow> string" where
  "wl_subunit_name ps = ''wl'' @ show_nat (fst ps) @ ''.'' @ show_nat (snd ps)"

text \<open>The search loops: the first candidate name whose variable holds \<^verbatim>\<open>osifname\<close>.\<close>

definition find_wl :: "nvram \<Rightarrow> string \<Rightarrow> string list \<Rightarrow> string option" where
  "find_wl nv osifname cands = find (\<lambda>n. nvram_match nv (n @ ''_ifname'') osifname) cands"

definition osifname_to_nvifname :: "nvram \<Rightarrow> string \<Rightarrow> int \<Rightarrow> int \<times> string" where
  "osifname_to_nvifname nv osifname buf_len =
     (if osifname = [] \<or> buf_len \<le> 0 then (- 1, [])
      else
        let buflen = nat buf_len
        in if strstr osifname ''wl'' \<noteq> None \<or> strstr osifname ''br'' \<noteq> None \<or> strstr osifname ''wds'' \<noteq> None then
             (if buflen \<le> length osifname then - 1 else 0, strlcpy osifname buflen)
           else case find_wl nv osifname (map wl_unit_name [0..<MAX_NVPARSE]) of
               Some n \<Rightarrow> (if buflen \<le> length n then - 1 else 0, strlcpy n buflen)
             | None \<Rightarrow>
                 (case find_wl nv osifname
                         (map wl_subunit_name (List.product [0..<MAX_NVPARSE] [0..<MAX_NVPARSE])) of
                    Some n \<Rightarrow> (if buflen \<le> length n then - 1 else 0, strlcpy n buflen)
                  | None \<Rightarrow> (- 1, [])))"


subsection \<open>Reading and writing an Ethernet address\<close>

definition toupper :: "char \<Rightarrow> char" where
  "toupper c =
     (if 97 \<le> (of_char c :: nat) \<and> (of_char c :: nat) \<le> 122 then char_of ((of_char c :: nat) - 32)
      else c)"

lemma hexval_toupper:
  "if hexval c < 0 then toupper c \<notin> set HEX
   else nat (hexval c) < 16 \<and> toupper c = HEX ! nat (hexval c)"
proof -
  have "\<forall>c. if hexval c < 0 then toupper c \<notin> set HEX
     else nat (hexval c) < 16 \<and> toupper c = HEX ! nat (hexval c)"
    by code_simp
  then show ?thesis ..
qed

lemma HEX_facts [simp]: "length HEX = 16" "distinct HEX" "CHR '':'' \<notin> set HEX" "NUL \<notin> set HEX"
  by (simp_all add: HEX_def)

lemma nibbles: "unat (drop_bit 4 (b :: u8)) = unat b div 16" "unat (b AND 0x0F) = unat b mod 16"
proof -
  show "unat (drop_bit 4 b) = unat b div 16"
    by (simp add: drop_bit_eq_div unat_div)
  have "b AND 0x0F = take_bit 4 b"
    by (simp add: take_bit_eq_mask mask_eq_exp_minus_1)
  also have "\<dots> = b mod 16"
    by (simp add: take_bit_eq_mod)
  finally show "unat (b AND 0x0F) = unat b mod 16"
    by (simp add: unat_mod)
qed

lemma nibbles_less [simp]: "unat b div 16 < 16" for b :: u8
  using unat_u8_less [of b] by linarith

lemma nibble_join: "h < 16 \<Longrightarrow> l < 16 \<Longrightarrow> unat (word_of_int (push_bit 4 (int h) OR int l) :: u8) = h * 16 + l"
proof -
  assume hl: "h < 16" "l < 16"
  have "push_bit 4 (int h) AND int l = 0"
  proof (rule bit_eqI)
    fix n
    have "take_bit 4 (int l) = int l"
      using hl by (simp add: take_bit_int_eq_self)
    then have "bit (int l) n \<Longrightarrow> n < 4"
      by (metis bit_take_bit_iff)
    then show "bit (push_bit 4 (int h) AND int l) n = bit 0 n"
      by (auto simp: bit_simps)
  qed
  then have "push_bit 4 (int h) OR int l = int (h * 16 + l)"
    by (simp flip: disjunctive_add_eq_or add: push_bit_eq_mult)
  moreover have "h * 16 + l < 256"
    using hl by simp
  ultimately show ?thesis
    by (simp only: of_int_of_nat_eq unat_of_nat) simp
qed

text \<open>Two characters are read as a byte exactly when their capitals are that byte in hexadecimal.\<close>

lemma byte_of_hex:
  "(0 \<le> hexval x \<and> 0 \<le> hexval y \<and> b = word_of_int (push_bit 4 (hexval x) OR hexval y)) \<longleftrightarrow>
    [toupper x, toupper y] = hex_byte HEX b"
proof
  assume *: "0 \<le> hexval x \<and> 0 \<le> hexval y \<and> b = word_of_int (push_bit 4 (hexval x) OR hexval y)"
  define h l where "h = nat (hexval x)" and "l = nat (hexval y)"
  have hl: "h < 16" "l < 16" "toupper x = HEX ! h" "toupper y = HEX ! l"
    using * hexval_toupper [of x] hexval_toupper [of y] by (auto simp: h_def l_def)
  have "b = word_of_int (push_bit 4 (int h) OR int l)"
    using * by (simp add: h_def l_def)
  then have "unat b = h * 16 + l"
    using nibble_join [OF hl(1,2)] by simp
  with hl show "[toupper x, toupper y] = hex_byte HEX b"
    by (simp add: hex_byte_def nibbles)
next
  assume *: "[toupper x, toupper y] = hex_byte HEX b"
  then have "toupper x \<in> set HEX" "toupper y \<in> set HEX"
    by (auto simp: hex_byte_def nibbles)
  then have hl: "0 \<le> hexval x" "0 \<le> hexval y" "nat (hexval x) < 16" "nat (hexval y) < 16"
    "toupper x = HEX ! nat (hexval x)" "toupper y = HEX ! nat (hexval y)"
    using hexval_toupper [of x] hexval_toupper [of y] by (auto split: if_splits)
  with * have "nat (hexval x) = unat b div 16" "nat (hexval y) = unat b mod 16"
    by (simp_all add: hex_byte_def nibbles nth_eq_iff_index_eq)
  moreover from this have "unat (word_of_int (push_bit 4 (hexval x) OR hexval y) :: u8) = unat b"
    using nibble_join [OF hl(3,4), unfolded nat_0_le [OF hl(1)] nat_0_le [OF hl(2)]] by simp
  ultimately show "0 \<le> hexval x \<and> 0 \<le> hexval y \<and> b = word_of_int (push_bit 4 (hexval x) OR hexval y)"
    using hl(1,2) unsigned_word_eqI by blast
qed

definition colon_bytes :: "u8 list \<Rightarrow> string" where
  "colon_bytes e = concat (map (\<lambda>b. CHR '':'' # hex_byte HEX b) e)"

lemma colon_bytes_simps [simp]:
  "colon_bytes [] = []" "colon_bytes (b # e) = CHR '':'' # hex_byte HEX b @ colon_bytes e"
  by (simp_all add: colon_bytes_def)

lemma etoa_loop_eq: "0 < i \<Longrightarrow> etoa_loop i e = colon_bytes e"
  by (induction e arbitrary: i) simp_all

text \<open>The text form with another separator.\<close>

definition with_sep :: "char \<Rightarrow> string \<Rightarrow> string" where
  "with_sep sep a = map (\<lambda>c. if c = CHR '':'' then sep else c) a"

lemma with_sep_hex [simp]: "with_sep sep (hex_byte HEX b @ s) = hex_byte HEX b @ with_sep sep s"
proof -
  have "CHR '':'' \<noteq> HEX ! k" if "k < 16" for k
    using that nth_mem [of k HEX] HEX_facts(1,3) by metis
  from this [of "unat b div 16"] this [of "unat b mod 16"] show ?thesis
    by (auto simp: with_sep_def hex_byte_def nibbles)
qed

lemma toupper_sep:
  assumes "sep \<in> {CHR '':'', CHR ''-'', NUL}"
  shows "toupper c = sep \<longleftrightarrow> c = sep"
proof -
  have "\<forall>sep \<in> {CHR '':'', CHR ''-'', NUL}. \<forall>c. toupper c = sep \<longleftrightarrow> c = sep"
    by code_simp
  with assms show ?thesis by blast
qed

lemma map_toupper_byte:
  "map toupper a = hex_byte HEX b @ s \<longleftrightarrow>
     (\<exists>x y r. a = x # y # r \<and> [toupper x, toupper y] = hex_byte HEX b \<and> map toupper r = s)"
  by (auto simp: hex_byte_def map_eq_Cons_conv)


lemma hexval_NUL [simp]: "hexval NUL = - 1"
  by (simp add: hexval_def isdigit_def)

text \<open>One round of the loop on the two characters it reads.\<close>

lemma atoe_loop_round:
  assumes "i < 6"
  shows "atoe_loop i sep a = Some e \<longleftrightarrow>
    (\<exists>x y r b e'. a = x # y # r \<and> [toupper x, toupper y] = hex_byte HEX b \<and> e = b # e' \<and>
      (if i = 5 then hd0 r = NUL \<and> e' = []
       else (if i = 0 then hd0 r = CHR '':'' \<or> hd0 r = CHR ''-'' else hd0 r = sep) \<and>
         atoe_loop (i + 1) (hd0 r) (drop 1 r) = Some e'))"
proof -
  consider "a = []" | x where "a = [x]" | x y r where "a = x # y # r"
    by (metis list.exhaust)
  then show ?thesis
  proof cases
    case 3
    let ?b = "word_of_int (push_bit 4 (hexval x) OR hexval y)"
    have "atoe_loop i sep (x # y # r) =
      (if hexval x < 0 \<or> hexval y < 0 then None
       else if i = 5 then if hd0 r \<noteq> NUL then None else Some [?b]
       else if (if i = 0 then hd0 r \<noteq> CHR '':'' \<and> hd0 r \<noteq> CHR ''-'' else hd0 r \<noteq> sep) then None
       else map_option ((#) ?b) (atoe_loop (i + 1) (hd0 r) (drop 1 r)))"
      using assms by (simp add: atoe_loop.simps [of i] atoe_loop.simps [of 6] ETHER_ADDR_LEN_def Let_def)
    then show ?thesis
      unfolding 3 list.inject byte_of_hex [symmetric] by (cases "i = 5") auto
  qed (use assms in \<open>simp_all add: atoe_loop.simps [of i] ETHER_ADDR_LEN_def\<close>)
qed

lemma hd0_NUL: "is_cstr r \<Longrightarrow> hd0 r = NUL \<longleftrightarrow> r = []"
  by (cases r) (auto simp: is_cstr_def)

lemma map_toupper_pair:
  "[toupper x, toupper y] = hex_byte HEX b \<Longrightarrow> map toupper (x # y # r) = hex_byte HEX b @ map toupper r"
  by (metis append_Cons append_Nil list.simps(9))

lemma with_sep_simps [simp]: "with_sep sep [] = []" "with_sep sep (CHR '':'' # s) = sep # with_sep sep s"
  by (simp_all add: with_sep_def)

lemma hd0_sep:
  assumes "sep \<in> {CHR '':'', CHR ''-''}"
  shows "hd0 r = sep \<and> map toupper (drop 1 r) = s \<longleftrightarrow> map toupper r = sep # s"
  using assms toupper_sep [of sep] by (cases r) auto

lemma atoe_loop_iff:
  assumes "1 \<le> i" "i < 6" "sep \<in> {CHR '':'', CHR ''-''}" "is_cstr a"
  shows "atoe_loop i sep a = Some e \<longleftrightarrow>
    length e = 6 - i \<and> map toupper a = with_sep sep (tl (colon_bytes e))"
  using assms
proof (induction "5 - i" arbitrary: i a e)
  case 0
  then have i: "i = 5" by simp
  show ?case
  proof
    assume "atoe_loop i sep a = Some e"
    then obtain x y r b where *: "a = x # y # r" "[toupper x, toupper y] = hex_byte HEX b" "e = [b]" "hd0 r = NUL"
      using atoe_loop_round [of i sep a e] 0 i by auto
    then have "r = []"
      using 0(5) hd0_NUL [of r] by (simp add: is_cstr_def)
    then show "length e = 6 - i \<and> map toupper a = with_sep sep (tl (colon_bytes e))"
      using map_toupper_pair [OF *(2), of r] * i with_sep_hex [of sep b "[]"] by simp
  next
    assume "length e = 6 - i \<and> map toupper a = with_sep sep (tl (colon_bytes e))"
    then obtain b where b: "e = [b]" "map toupper a = hex_byte HEX b @ []"
      using with_sep_hex [of sep _ "[]"] by (auto simp: i length_Suc_conv)
    then show "atoe_loop i sep a = Some e"
      unfolding map_toupper_byte using atoe_loop_round [of i sep a e] by (auto simp: i)
  qed
next
  case (Suc n)
  then have i: "i < 5" "n = 5 - (i + 1)" by simp_all
  note IH = Suc.hyps(1) [OF i(2) _ _ Suc.prems(3)]
  show ?case
  proof
    assume "atoe_loop i sep a = Some e"
    then obtain x y r b e' where *: "a = x # y # r" "[toupper x, toupper y] = hex_byte HEX b"
      "e = b # e'" "hd0 r = sep" "atoe_loop (i + 1) (hd0 r) (drop 1 r) = Some e'"
      using atoe_loop_round [of i sep a e] i Suc.prems by auto
    have "is_cstr (drop 1 r)"
      using Suc.prems(4) *(1) by (auto simp: is_cstr_def dest: in_set_dropD)
    with IH * i(1) have e': "length e' = 5 - i"
      "map toupper (drop 1 r) = with_sep sep (tl (colon_bytes e'))"
      by auto
    then obtain b' e'' where "e' = b' # e''"
      using i by (cases e') auto
    moreover have "map toupper r = sep # with_sep sep (tl (colon_bytes e'))"
      using iffD1 [OF hd0_sep [OF Suc.prems(3)] conjI [OF *(4) e'(2)]] .
    ultimately show "length e = 6 - i \<and> map toupper a = with_sep sep (tl (colon_bytes e))"
      using map_toupper_pair [OF *(2), of r] *(1,3) e'(1) i by simp
  next
    assume *: "length e = 6 - i \<and> map toupper a = with_sep sep (tl (colon_bytes e))"
    moreover from this obtain b b' e' where e: "e = b # b' # e'"
      using i by (cases e; cases "tl e") auto
    ultimately obtain x y r where r: "a = x # y # r" "[toupper x, toupper y] = hex_byte HEX b"
      "map toupper r = sep # hex_byte HEX b' @ with_sep sep (colon_bytes e')"
      by (auto simp: map_toupper_byte)
    then have "hd0 r = sep" "map toupper (drop 1 r) = with_sep sep (tl (colon_bytes (b' # e')))"
      using hd0_sep [OF Suc.prems(3), of r] by auto
    moreover have "is_cstr (drop 1 r)"
      using Suc.prems(4) r(1) by (auto simp: is_cstr_def dest: in_set_dropD)
    moreover have "length (b' # e') = 6 - (i + 1)"
      using * e by auto
    ultimately have "atoe_loop (i + 1) sep (drop 1 r) = Some (b' # e')"
      using IH [of "drop 1 r" "b' # e'"] i(1) by simp
    then show "atoe_loop i sep a = Some e"
      using atoe_loop_round [of i sep a e] r e i(1) \<open>hd0 r = sep\<close> Suc.prems(1) by auto
  qed
qed

lemma ether_atoe_iff:
  assumes "is_cstr a"
  shows "ether_atoe a = (True, e) \<longleftrightarrow>
    length e = 6 \<and> (\<exists>sep \<in> {CHR '':'', CHR ''-''}. map toupper a = with_sep sep (ether_etoa e))"
proof -
  have etoa: "ether_etoa (b # e') = hex_byte HEX b @ colon_bytes e'" if "length e' = 5" for b e'
    using that by (simp add: ether_etoa_def ETHER_ADDR_LEN_def etoa_loop_eq)
  have ok: "ether_atoe a = (True, e) \<longleftrightarrow> atoe_loop 0 NUL a = Some e"
    by (auto simp: ether_atoe_def split: option.splits)
  show ?thesis
  proof
    assume "ether_atoe a = (True, e)"
    then obtain x y r b e' where *: "a = x # y # r" "[toupper x, toupper y] = hex_byte HEX b"
      "e = b # e'" "hd0 r \<in> {CHR '':'', CHR ''-''}" "atoe_loop 1 (hd0 r) (drop 1 r) = Some e'"
      using atoe_loop_round [of 0 NUL a e] ok by auto
    have "is_cstr (drop 1 r)"
      using assms *(1) by (auto simp: is_cstr_def dest: in_set_dropD)
    then have e': "length e' = 5" "map toupper (drop 1 r) = with_sep (hd0 r) (tl (colon_bytes e'))"
      using atoe_loop_iff [of 1 "hd0 r" "drop 1 r" e'] * by auto
    then obtain b' e'' where "e' = b' # e''"
      by (cases e') auto
    moreover have "map toupper r = hd0 r # with_sep (hd0 r) (tl (colon_bytes e'))"
      using iffD1 [OF hd0_sep [OF *(4)] conjI [OF refl e'(2)]] .
    ultimately have "map toupper a = with_sep (hd0 r) (ether_etoa e)"
      using map_toupper_pair [OF *(2), of r] *(1,3) e'(1) etoa [of e' b] by simp
    with *(3,4) e'(1) show "length e = 6 \<and> (\<exists>sep \<in> {CHR '':'', CHR ''-''}. map toupper a = with_sep sep (ether_etoa e))"
      by auto
  next
    assume "length e = 6 \<and> (\<exists>sep \<in> {CHR '':'', CHR ''-''}. map toupper a = with_sep sep (ether_etoa e))"
    then obtain sep where sep: "sep \<in> {CHR '':'', CHR ''-''}" "map toupper a = with_sep sep (ether_etoa e)"
      and len: "length e = 6" by blast
    from len obtain b b' e' where e: "e = b # b' # e'"
      by (cases e; cases "tl e") auto
    with len etoa [of "b' # e'" b] sep(2) obtain x y r where
      r: "a = x # y # r" "[toupper x, toupper y] = hex_byte HEX b"
      "map toupper r = sep # hex_byte HEX b' @ with_sep sep (colon_bytes e')"
      by (auto simp: map_toupper_byte)
    then have "hd0 r = sep" "map toupper (drop 1 r) = with_sep sep (tl (colon_bytes (b' # e')))"
      using hd0_sep [OF sep(1), of r] by auto
    moreover have "is_cstr (drop 1 r)"
      using assms r(1) by (auto simp: is_cstr_def dest: in_set_dropD)
    ultimately have "atoe_loop 1 sep (drop 1 r) = Some (b' # e')"
      using atoe_loop_iff [of 1 sep "drop 1 r" "b' # e'"] sep(1) len e by simp
    then show "ether_atoe a = (True, e)"
      using atoe_loop_round [of 0 NUL a e] r e \<open>hd0 r = sep\<close> sep(1) ok by auto
  qed
qed


lemma toupper_HEX: "c \<in> set HEX \<Longrightarrow> toupper c = c"
proof -
  have "\<forall>c \<in> set HEX. toupper c = c"
    by code_simp
  then show "c \<in> set HEX \<Longrightarrow> toupper c = c" by blast
qed

lemma ether_etoa_chars: "set (ether_etoa e) \<subseteq> insert CHR '':'' (set HEX)"
proof -
  have "set (etoa_loop i e) \<subseteq> insert CHR '':'' (set HEX)" for i and e :: "u8 list"
    by (induction e arbitrary: i) (auto simp: hex_byte_def nibbles)
  then show ?thesis
    by (simp add: ether_etoa_def)
qed

lemma ether_atoe_etoa: "length e = 6 \<Longrightarrow> ether_atoe (ether_etoa e) = (True, e)"
proof -
  assume len: "length e = 6"
  have "toupper c = c" if "c \<in> set (ether_etoa e)" for c
    using that ether_etoa_chars [of e] toupper_HEX [of c] toupper_sep [of "CHR '':''" c] by auto
  then have "map toupper (ether_etoa e) = ether_etoa e"
    by (rule map_idI)
  moreover have "with_sep CHR '':'' (ether_etoa e) = ether_etoa e"
    by (simp add: with_sep_def)
  moreover have "is_cstr (ether_etoa e)"
    using ether_etoa_chars [of e] by (auto simp: is_cstr_def)
  ultimately show ?thesis
    using ether_atoe_iff [of "ether_etoa e" e] len by simp
qed

interpretation ether: codec "\<lambda>e. length e = 6" ether_etoa
  "\<lambda>a. case ether_atoe a of (True, e) \<Rightarrow> Some e | (False, _) \<Rightarrow> None"
  by unfold_locales (simp add: ether_atoe_etoa)

lemma bin2hex_length: "bin2hex n src = Inr dst \<Longrightarrow> length dst = 2 * length src \<and> length dst < n"
proof -
  assume *: "bin2hex n src = Inr dst"
  then have "dst = concat (map (hex_byte ''0123456789abcdef'') src)" "0 < n" "length src \<le> (n - 1) div 2"
    by (auto simp: bin2hex_def split: if_splits)
  moreover have "length (concat (map (hex_byte s) src)) = 2 * length src" for s
    by (induction src) (simp_all add: hex_byte_def)
  ultimately show ?thesis by auto
qed

subsection \<open>Unit numbers\<close>

lemma mem_DIGITS: "c \<in> set DIGITS \<longleftrightarrow> isdigit c"
proof -
  have "\<forall>c. c \<in> set DIGITS \<longleftrightarrow> isdigit c"
    by code_simp
  then show ?thesis ..
qed

lemma sh_strrspn_digits:
  assumes "pre = [] \<or> \<not> isdigit (last pre)" "\<forall>c \<in> set ds. isdigit c"
  shows "sh_strrspn (pre @ ds) DIGITS = length ds"
proof -
  have "takeWhile isdigit (rev pre) = []"
    using assms(1) by (cases pre rule: rev_cases) auto
  then show ?thesis
    using assms(2) takeWhile_append2 [of "rev ds" isdigit "rev pre"]
    by (simp add: sh_strrspn_def mem_DIGITS)
qed

lemma get_ifname_unit_subunit:
  assumes "pre = [] \<or> \<not> isdigit (last pre)" "u < 2 ^ 31" "s < 2 ^ 31"
    "length (pre @ show_nat u @ ''.'' @ show_nat s) < 64"
  shows "get_ifname_unit (pre @ show_nat u @ ''.'' @ show_nat s) = (0, int u, int s)"
proof -
  let ?u = "pre @ show_nat u" and ?s = "show_nat s"
  have s: "sh_strrspn ((?u @ ''.'') @ ?s) DIGITS = length ?s"
    by (rule sh_strrspn_digits) (auto simp: isdigit_def dest: show_nat_digits)
  have u: "sh_strrspn (pre @ show_nat u) DIGITS = length (show_nat u)"
    using assms(1) by (rule sh_strrspn_digits) (auto dest: show_nat_digits)
  have "drop (length ((?u @ ''.'') @ ?s) - length ?s) ((?u @ ''.'') @ ?s) = ?s"
    "take (length ((?u @ ''.'') @ ?s) - length ?s - 1) ((?u @ ''.'') @ ?s) = ?u"
    "((?u @ ''.'') @ ?s) ! (length ((?u @ ''.'') @ ?s) - length ?s - 1) = CHR ''.''"
    "drop (length ?u - length (show_nat u)) ?u = show_nat u"
    by (simp_all add: nth_append)
  then show ?thesis
    using assms s u by (simp add: get_ifname_unit_def Let_def nth_append)
qed

lemma get_ifname_unit_plain:
  assumes "pre = [] \<or> \<not> isdigit (last pre) \<and> last pre \<noteq> CHR ''.''" "u < 2 ^ 31"
    "length (pre @ show_nat u) < 64"
  shows "get_ifname_unit (pre @ show_nat u) = (0, int u, - 1)"
proof -
  have "sh_strrspn (pre @ show_nat u) DIGITS = length (show_nat u)"
    using assms(1) by (intro sh_strrspn_digits) (auto dest: show_nat_digits)
  moreover have "pre = [] \<or> (pre @ show_nat u) ! (length pre - 1) \<noteq> CHR ''.''"
    using assms(1) by (cases pre rule: rev_cases) (auto simp: nth_append)
  ultimately show ?thesis
    using assms(2,3) by (auto simp: get_ifname_unit_def Let_def)
qed

subsection \<open>Looking up an interface\<close>

lemma find_wl_Some:
  "find_wl nv os cands = Some n \<Longrightarrow> n \<in> set cands \<and> nv (n @ ''_ifname'') = Some os"
  by (auto simp: find_wl_def find_Some_iff nvram_match_def split: option.splits)

lemma find_wl_None: "find_wl nv os cands = None \<longleftrightarrow> (\<forall>n \<in> set cands. nv (n @ ''_ifname'') \<noteq> Some os)"
  by (auto simp: find_wl_def find_None_iff nvram_match_def split: option.splits)

lemma no_infix_show_nat: "\<not> isdigit c \<Longrightarrow> c \<in> set w \<Longrightarrow> c \<notin> set pre \<Longrightarrow> strstr (pre @ show_nat n) w = None"
proof (rule ccontr)
  assume c: "\<not> isdigit c" "c \<in> set w" "c \<notin> set pre" and "strstr (pre @ show_nat n) w \<noteq> None"
  then obtain k where "strstr (pre @ show_nat n) w = Some k" by blast
  from strstr_Some [OF this] obtain v where "pre @ show_nat n = take k (pre @ show_nat n) @ w @ v"
    by blast
  then have "c \<in> set (pre @ show_nat n)"
    using c(2) by (metis Un_iff set_append)
  with c show False by (auto dest: show_nat_digits)
qed

lemma show_nat_255: "n < 255 \<Longrightarrow> length (show_nat n) \<le> 3"
  using length_show_nat [of n 2] by simp

lemma nvifname_of_unit:
  assumes "n < 255" "nv (wl_unit_name n @ ''_ifname'') = Some os" "os \<noteq> []" "length os < m"
  shows "nvifname_to_osifname nv (wl_unit_name n) (int m) = (0, os)"
proof -
  have "strstr (wl_unit_name n) ''eth'' = None" "strstr (wl_unit_name n) ''.'' = None"
    using no_infix_show_nat [of "CHR ''e''" "''eth''" "''wl''" n] no_infix_show_nat [of "CHR ''.''" "''.''" "''wl''" n]
    by (simp_all add: wl_unit_name_def isdigit_def)
  moreover have "length (wl_unit_name n @ ''_ifname'') < 64"
    using show_nat_255 [OF assms(1)] by (simp add: wl_unit_name_def)
  moreover have "wl_unit_name n \<noteq> []"
    by (simp add: wl_unit_name_def)
  ultimately show ?thesis
    using assms(2-4) by (simp add: nvifname_to_osifname_def strlcpy_def NVRAM_MAX_PARAM_LEN_def)
qed

lemma osifname_to_nvifname_unit:
  assumes "strstr os ''wl'' = None" "strstr os ''br'' = None" "strstr os ''wds'' = None" "os \<noteq> []"
    "n < 255" "nv (wl_unit_name n @ ''_ifname'') = Some os" "5 < m"
  shows "\<exists>k < 255. osifname_to_nvifname nv os (int m) = (0, wl_unit_name k) \<and>
    nv (wl_unit_name k @ ''_ifname'') = Some os"
proof -
  have "find_wl nv os (map wl_unit_name [0..<MAX_NVPARSE]) \<noteq> None"
    using assms(5,6) by (auto simp: find_wl_None MAX_NVPARSE_def)
  then obtain x where x: "find_wl nv os (map wl_unit_name [0..<MAX_NVPARSE]) = Some x"
    by blast
  then obtain k where k: "k < 255" "x = wl_unit_name k" "nv (x @ ''_ifname'') = Some os"
    using find_wl_Some [OF x] by (auto simp: MAX_NVPARSE_def)
  have "length x \<le> 5"
    using show_nat_255 [OF k(1)] k(2) by (simp add: wl_unit_name_def)
  then have "osifname_to_nvifname nv os (int m) = (0, wl_unit_name k)"
    using assms x k(2) by (simp add: osifname_to_nvifname_def strlcpy_def)
  with k show ?thesis by blast
qed

lemma wl_unit_name_0: "wl_unit_name 0 = ''wl0''"
  by code_simp

subsection \<open>Properties\<close>

text \<open>\<^verbatim>\<open>ether_atoe\<close> accepts exactly six hexadecimal bytes in either case with one kind of
  separator between them, colon or dash, and nothing after them; the bytes it returns are the ones
  that \<^verbatim>\<open>ether_etoa\<close> prints as that text.\<close>

theorem ether_atoe_correct:
  assumes "is_cstr a"
  shows "ether_atoe a = (True, e) \<longleftrightarrow>
    length e = 6 \<and> (\<exists>sep \<in> {CHR '':'', CHR ''-''}. map toupper a = with_sep sep (ether_etoa e))"
  using assms by (rule ether_atoe_iff)

theorem ether_atoe_correct_witness:
  "ether_atoe ''00-1a-2B-3c-4d-5e'' = (True, [0x00, 0x1A, 0x2B, 0x3C, 0x4D, 0x5E]) \<longleftrightarrow>
    length [0x00, 0x1A, 0x2B, 0x3C, 0x4D, 0x5E :: u8] = 6 \<and>
    (\<exists>sep \<in> {CHR '':'', CHR ''-''}. map toupper ''00-1a-2B-3c-4d-5e'' =
      with_sep sep (ether_etoa [0x00, 0x1A, 0x2B, 0x3C, 0x4D, 0x5E]))"
  by (rule ether_atoe_correct) (simp add: is_cstr_def)

text \<open>An Ethernet address printed by \<^verbatim>\<open>ether_etoa\<close> and read back by
  \<^verbatim>\<open>ether_atoe\<close> is the same address, so two different addresses never print alike.\<close>

theorem ether_roundtrip:
  assumes "length e = 6" "length f = 6"
  shows "ether_atoe (ether_etoa e) = (True, e) \<and> (ether_etoa e = ether_etoa f \<longleftrightarrow> e = f)"
  using ether_atoe_etoa [OF assms(1)] ether.enc_eq_iff [OF assms] by blast

theorem ether_roundtrip_witness:
  "ether_atoe (ether_etoa [1, 2, 3, 4, 5, 6]) = (True, [1, 2, 3, 4, 5, 6]) \<and>
    (ether_etoa [1, 2, 3, 4, 5, 6] = ether_etoa [1, 2, 3, 4, 5, 7] \<longleftrightarrow>
      [1, 2, 3, 4, 5, 6 :: u8] = [1, 2, 3, 4, 5, 7])"
  by (rule ether_roundtrip) simp_all

text \<open>\<^verbatim>\<open>get_ifname_unit\<close> reads the unit and the subunit back from an interface name that
  was printed with them, for every prefix that does not itself end in a digit and every pair of
  numbers an \<^verbatim>\<open>int\<close> can hold.\<close>

theorem get_ifname_unit_correct:
  assumes "pre = [] \<or> \<not> isdigit (last pre) \<and> last pre \<noteq> CHR ''.''" "u < 2 ^ 31" "s < 2 ^ 31"
    "length (pre @ show_nat u @ ''.'' @ show_nat s) < 64"
  shows "get_ifname_unit (pre @ show_nat u @ ''.'' @ show_nat s) = (0, int u, int s) \<and>
    get_ifname_unit (pre @ show_nat u) = (0, int u, - 1)"
  using get_ifname_unit_subunit [of pre u s] get_ifname_unit_plain [of pre u] assms by auto

theorem get_ifname_unit_correct_witness:
  "get_ifname_unit (''wl'' @ show_nat 0 @ ''.'' @ show_nat 12) = (0, int 0, int 12) \<and>
    get_ifname_unit (''wl'' @ show_nat 0) = (0, int 0, - 1)"
  by (rule get_ifname_unit_correct) (simp_all add: isdigit_def show_nat.simps)

text \<open>An interface whose system name is recorded under some primary unit is found by
  \<^verbatim>\<open>osifname_to_nvifname\<close>, and \<^verbatim>\<open>nvifname_to_osifname\<close> takes the name that was found back
  to the system name.\<close>

theorem ifname_lookup_roundtrip:
  assumes "strstr os ''wl'' = None" "strstr os ''br'' = None" "strstr os ''wds'' = None" "os \<noteq> []"
    "n < 255" "nv (wl_unit_name n @ ''_ifname'') = Some os" "5 < m" "length os < m"
  shows "\<exists>k < 255. osifname_to_nvifname nv os (int m) = (0, wl_unit_name k) \<and>
    nvifname_to_osifname nv (wl_unit_name k) (int m) = (0, os)"
  using osifname_to_nvifname_unit [of os n nv m] nvifname_of_unit [of _ nv os m] assms by blast

theorem ifname_lookup_roundtrip_witness:
  "\<exists>k < 255. osifname_to_nvifname [''wl0_ifname'' \<mapsto> ''eth1''] ''eth1'' (int 16) = (0, wl_unit_name k) \<and>
    nvifname_to_osifname [''wl0_ifname'' \<mapsto> ''eth1''] (wl_unit_name k) (int 16) = (0, ''eth1'')"
  by (rule ifname_lookup_roundtrip [of _ 0])
    (simp_all add: strstr.simps wl_unit_name_0)

end
