(* ===== verification/Strings.thy ===== *)
theory Strings
  imports Prelude
begin

section \<open>String helpers\<close>

text \<open>
  \<^verbatim>\<open>libshared/shared/strings.c\<close>: searching and removing words, trimming, and the port-list
  helpers.  A function that edits its argument in place returns the new string.  The buffers of
  \<^verbatim>\<open>splitport\<close> are modelled byte by byte, because the code's index arithmetic can leave them.
\<close>

subsection \<open>Words separated by blanks or commas\<close>

definition word_sep :: "char \<Rightarrow> bool" where
  "word_sep c \<longleftrightarrow> c = CHR '' '' \<or> c = CHR '','' "

text \<open>
  The loop of \<^verbatim>\<open>find_word\<close> from offset \<open>p\<close>.  A search past the end of the buffer, which only
  an empty word can cause, has no defined result in C and is \<open>None\<close> here.
\<close>

function find_word_loop :: "string \<Rightarrow> string \<Rightarrow> nat \<Rightarrow> nat option" where
  "find_word_loop buffer word p =
     (if length buffer < p then None
      else case strstr (drop p buffer) word of
        None \<Rightarrow> None
      | Some k \<Rightarrow>
          let p = p + k; q = p + length word
          in if (p = 0 \<or> word_sep (buffer ! (p - 1))) \<and>
                (hd0 (drop q buffer) = NUL \<or> word_sep (hd0 (drop q buffer)))
             then Some p
             else find_word_loop buffer word (p + 1))"
  by pat_completeness auto
termination
  by (relation "measure (\<lambda>(buffer, word, p). length buffer + 1 - p)") auto

declare find_word_loop.simps [simp del]

definition find_word :: "string \<Rightarrow> string \<Rightarrow> nat option" where
  "find_word buffer word = find_word_loop buffer word 0"

definition remove_word :: "string \<Rightarrow> string \<Rightarrow> bool \<times> string" where
  "remove_word buffer word =
     (case strstr buffer word of
        None \<Rightarrow> (False, buffer)
      | Some q \<Rightarrow>
          let p = dropWhile (\<lambda>c. c = CHR '' '') (drop (q + length word) buffer);
              q = q - length (takeWhile (\<lambda>c. c = CHR '' '') (rev (take q buffer)))
          in if hd0 (drop q buffer) \<noteq> NUL then (True, take q buffer @ '' '' @ p)
             else (True, take q buffer @ p))"

definition blank :: "char \<Rightarrow> bool" where
  "blank c \<longleftrightarrow> c = CHR '' '' \<or> c = CHR 0x09"

text \<open>The loop of \<^verbatim>\<open>trimstr\<close> that moves \<^verbatim>\<open>end\<close> back stops at \<^verbatim>\<open>start\<close>.\<close>

definition trimstr :: "string \<Rightarrow> string" where
  "trimstr str =
     (if str = [] then str
      else
        let start = dropWhile blank str
        in if start = [] then []
           else
             let k = length start - 1 - length (takeWhile blank (rev (tl start)))
             in take (k + 1) start)"

function splitpath_loop :: "string \<Rightarrow> nat \<Rightarrow> nat" where
  "splitpath_loop str i =
     (if length str \<le> i then i
      else if str ! (length str - 1 - i) \<noteq> CHR ''/'' then splitpath_loop str (i + 1)
      else i)"
  by pat_completeness auto
termination
  by (relation "measure (\<lambda>(str, i). length str - i)") auto

declare splitpath_loop.simps [simp del]

text \<open>The path and the file name, cut to buffers of \<open>pathlen\<close> and \<open>filelen\<close> bytes (both positive).\<close>

definition splitpath :: "string \<Rightarrow> nat \<Rightarrow> nat \<Rightarrow> string \<times> string" where
  "splitpath str pathlen filelen =
     (let len = length str
      in if len = 0 then ([], [])
         else
           let i = splitpath_loop str 0
           in if i = len then ([], strlcpy str filelen)
              else (strlcpy (take (len - i) str) pathlen, strlcpy (drop (len - i) str) filelen))"

subsection \<open>Port lists\<close>

definition is_port :: "string \<Rightarrow> bool" where
  "is_port str \<longleftrightarrow>
     list_all (\<lambda>c. isdigit c \<or> c = CHR '':'' \<or> c = CHR ''-'' \<or> c = CHR '' '') str"

definition filter_space :: "string \<Rightarrow> string" where
  "filter_space str = filter (\<lambda>c. c \<noteq> CHR '' '') str"

definition format_port :: "string \<Rightarrow> string" where
  "format_port str = map (\<lambda>c. if c = CHR ''-'' then CHR '':'' else c) (filter_space str)"

definition is_number :: "string \<Rightarrow> bool" where
  "is_number a =
     (let len = length a; j = length (filter (\<lambda>c. of_char c \<le> (57 :: nat) \<and> (48 :: nat) \<le> of_char c) a)
      in if len = 0 then False else j = len)"

text \<open>\<^verbatim>\<open>isspacex\<close> answers 0 for white space.\<close>

definition isspacex :: "char \<Rightarrow> bool" where
  "isspacex ch = (ch \<notin> {CHR 0x09, CHR 0x0D, CHR 0x0A, CHR '' ''})"

text \<open>
  The loop of \<^verbatim>\<open>shrink_space\<close>; \<open>prev\<close> is \<^verbatim>\<open>*(src - 1)\<close>, the byte before the string on
  the first round.
\<close>

fun shrink_space_loop :: "char \<Rightarrow> string \<Rightarrow> nat \<Rightarrow> string" where
  "shrink_space_loop prev [] n = []"
| "shrink_space_loop prev (c # src) 0 = []"
| "shrink_space_loop prev (c # src) (Suc n) =
     (if isspacex c then c # shrink_space_loop c src n
      else if \<not> isspacex prev then shrink_space_loop c src n
      else CHR '' '' # shrink_space_loop c src n)"

definition shrink_space :: "char \<Rightarrow> string \<Rightarrow> nat \<Rightarrow> string" where
  "shrink_space before src n = shrink_space_loop before src n"

definition del_str_line :: "string \<Rightarrow> string" where
  "del_str_line str = takeWhile (\<lambda>c. c \<noteq> CHR 0x0A) str"

subsection \<open>Splitting a port list\<close>

definition MAX_PORTS :: nat where
  "MAX_PORTS = 64"

definition PORT_SIZE :: nat where
  "PORT_SIZE = 16"

text \<open>
  \<^verbatim>\<open>out_port\<close> is one block of \<^verbatim>\<open>MAX_PORTS * PORT_SIZE\<close> bytes; a write outside it is
  \<open>None\<close>.  \<open>cstr_at\<close> is the string that starts at an offset, \<open>put_str\<close> writes a string and its
  terminator.
\<close>

definition put_byte :: "char list \<Rightarrow> nat \<Rightarrow> char \<Rightarrow> char list option" where
  "put_byte buf i c = (if i < length buf then Some (buf[i := c]) else None)"

definition cstr_at :: "char list \<Rightarrow> nat \<Rightarrow> string" where
  "cstr_at buf i = takeWhile (\<lambda>c. c \<noteq> NUL) (drop i buf)"

definition put_str :: "char list \<Rightarrow> nat \<Rightarrow> string \<Rightarrow> char list" where
  "put_str buf i s = take i buf @ s @ [NUL] @ drop (i + length s + 1) buf"

definition splitport_end :: "bool \<Rightarrow> char list \<Rightarrow> nat \<Rightarrow> nat \<Rightarrow> (char list \<times> nat) option" where
  "splitport_end check buf j k =
     (case put_byte buf (j * PORT_SIZE + k) NUL of
        None \<Rightarrow> None
      | Some buf \<Rightarrow>
          let row = trimstr (cstr_at buf (j * PORT_SIZE))
          in if 0 < length row \<and> (check \<longrightarrow> is_port row)
             then Some (put_str buf (j * PORT_SIZE) (format_port row), j + 1)
             else Some (put_str buf (j * PORT_SIZE) row, j))"

fun splitport_loop :: "string \<Rightarrow> char list \<Rightarrow> nat \<Rightarrow> nat \<Rightarrow> (char list \<times> nat) option" where
  "splitport_loop [] buf j k = splitport_end False buf j k"
| "splitport_loop (c # cs) buf j k =
     (if c = CHR '','' \<or> c = CHR '' '' then
        case splitport_end True buf j k of
          None \<Rightarrow> None
        | Some (buf, j) \<Rightarrow>
            if MAX_PORTS \<le> j then splitport_end False buf j k else splitport_loop cs buf j 0
      else
        case put_byte buf (j * PORT_SIZE + k) c of
          None \<Rightarrow> None
        | Some buf \<Rightarrow> splitport_loop cs buf j (if k < PORT_SIZE then k + 1 else k))"

definition splitport :: "string \<Rightarrow> char list \<Rightarrow> (char list \<times> nat) option" where
  "splitport in_ports out_port =
     (let in_ports = trimstr in_ports
      in if length in_ports = 0 then Some (out_port, 0) else splitport_loop in_ports out_port 0 0)"


subsection \<open>Finding a word\<close>

text \<open>\<open>w\<close> stands at offset \<open>i\<close> with a separator or an end of the buffer on each side.\<close>

definition delimited :: "string \<Rightarrow> string \<Rightarrow> nat \<Rightarrow> bool" where
  "delimited b w i \<longleftrightarrow>
     (\<exists>u v. b = u @ w @ v \<and> length u = i \<and> (u = [] \<or> word_sep (last u)) \<and> (v = [] \<or> word_sep (hd v)))"

lemma find_word_cases:
  assumes "p \<le> length b" "is_cstr b" "strstr (drop p b) w = Some k"
  shows "((p + k = 0 \<or> word_sep (b ! (p + k - 1))) \<and>
      (hd0 (drop (p + k + length w) b) = NUL \<or> word_sep (hd0 (drop (p + k + length w) b)))) \<longleftrightarrow>
    delimited b w (p + k)"
proof -
  obtain v where v: "drop p b = take k (drop p b) @ w @ v" and len: "k + length w \<le> length (drop p b)"
    using strstr_Some [OF assms(3)] by blast
  define u where "u = take p b @ take k (drop p b)"
  have b: "b = u @ w @ v"
    using v by (metis append_assoc append_take_drop_id u_def)
  have lu: "length u = p + k"
    using assms(1) len by (simp add: u_def)
  have u: "(p + k = 0 \<or> word_sep (b ! (p + k - 1))) \<longleftrightarrow> u = [] \<or> word_sep (last u)"
    using lu by (cases u rule: rev_cases) (auto simp: b nth_append)
  have "v = [] \<or> hd v \<noteq> NUL"
    using assms(2) b by (cases v) (auto simp: is_cstr_def)
  moreover have "drop (p + k + length w) b = v"
    using b lu by simp
  ultimately have w: "(hd0 (drop (p + k + length w) b) = NUL \<or> word_sep (hd0 (drop (p + k + length w) b))) \<longleftrightarrow>
      v = [] \<or> word_sep (hd v)"
    by (cases v) auto
  have "delimited b w (p + k) \<longleftrightarrow> (u = [] \<or> word_sep (last u)) \<and> (v = [] \<or> word_sep (hd v))"
    unfolding delimited_def using b lu by (metis append_eq_append_conv)
  with u w show ?thesis by blast
qed

lemma delimited_drop:
  assumes "delimited b w i" "p \<le> i"
  shows "\<exists>u v. drop p b = u @ w @ v \<and> length u = i - p"
proof -
  obtain u v where "b = u @ w @ v" "length u = i"
    using assms(1) by (auto simp: delimited_def)
  with assms(2) have "drop p b = drop p u @ w @ v" "length (drop p u) = i - p"
    by simp_all
  then show ?thesis by blast
qed

lemma find_word_loop_spec:
  assumes "is_cstr b" "w \<noteq> []"
  shows "case find_word_loop b w p of
      None \<Rightarrow> \<forall>i \<ge> p. \<not> delimited b w i
    | Some i \<Rightarrow> p \<le> i \<and> delimited b w i \<and> (\<forall>j. p \<le> j \<and> j < i \<longrightarrow> \<not> delimited b w j)"
proof (induction "length b + 1 - p" arbitrary: p rule: less_induct)
  case (less p)
  show ?case
  proof (cases "length b < p")
    case True
    then have "\<not> delimited b w i" if "p \<le> i" for i
      using that by (auto simp: delimited_def)
    with True show ?thesis
      by (simp add: find_word_loop.simps [of b w p])
  next
    case False
    show ?thesis
    proof (cases "strstr (drop p b) w")
      case None
      then have "\<not> delimited b w i" if "p \<le> i" for i
        using delimited_drop [OF _ that, of b w] strstr_None [OF None] by blast
      with None False show ?thesis
        by (simp add: find_word_loop.simps [of b w p])
    next
      case (Some k)
      have before: "\<not> delimited b w j" if "p \<le> j" "j < p + k" for j
        using delimited_drop [OF _ that(1), of b w] strstr_least [OF Some] that by fastforce
      have step: "find_word_loop b w p =
          (if delimited b w (p + k) then Some (p + k) else find_word_loop b w (p + k + 1))"
        using find_word_cases [OF _ assms(1) Some] False Some
        by (simp add: find_word_loop.simps [of b w p] Let_def)
      show ?thesis
      proof (cases "delimited b w (p + k)")
        case True
        with step before show ?thesis by simp
      next
        case no: False
        then have "\<not> delimited b w j" if "p \<le> j" "j < p + k + 1" for j
          using before [of j] that by (cases "j = p + k") auto
        moreover have "length b + 1 - (p + k + 1) < length b + 1 - p"
          using False by simp
        ultimately show ?thesis
          using less.hyps [of "p + k + 1"] step no
          by (fastforce split: option.splits simp: not_less_eq_eq [symmetric])
      qed
    qed
  qed
qed

lemma delimited_fields:
  assumes "w \<noteq> []" "\<forall>c \<in> set w. \<not> word_sep c"
  shows "(\<exists>i. delimited b w i) \<longleftrightarrow> w \<in> set (fields word_sep b)"
proof
  assume "\<exists>i. delimited b w i"
  then obtain u v where uv: "b = u @ w @ v" "u = [] \<or> word_sep (last u)" "v = [] \<or> word_sep (hd v)"
    by (auto simp: delimited_def)
  then show "w \<in> set (fields word_sep b)"
    using fields_split [OF assms uv(2,3)] by simp
next
  assume "w \<in> set (fields word_sep b)"
  from fields_occurs [OF this] show "\<exists>i. delimited b w i"
    unfolding delimited_def by blast
qed

lemma find_word_fields:
  assumes "is_cstr b" "w \<noteq> []" "\<forall>c \<in> set w. \<not> word_sep c"
  shows "find_word b w \<noteq> None \<longleftrightarrow> w \<in> set (fields word_sep b)"
  using find_word_loop_spec [OF assms(1,2), of 0] delimited_fields [OF assms(2,3), of b]
  by (auto simp: find_word_def split: option.splits)

lemma find_word_first:
  assumes "is_cstr b" "w \<noteq> []" "find_word b w = Some i"
  shows "delimited b w i \<and> (\<forall>j < i. \<not> delimited b w j)"
  using find_word_loop_spec [OF assms(1,2), of 0] assms(3) by (simp add: find_word_def)

subsection \<open>Trimming and splitting\<close>

lemma trimstr_eq: "trimstr s = rev (dropWhile blank (rev (dropWhile blank s)))"
proof (cases "dropWhile blank s")
  case Nil
  then show ?thesis by (simp add: trimstr_def del: dropWhile_eq_Nil_conv)
next
  case (Cons c t)
  have c: "\<not> blank c"
    using hd_dropWhile [of blank s] Cons by simp
  let ?k = "length (takeWhile blank (rev t))"
  have k: "?k \<le> length t"
    using length_takeWhile_le [of blank "rev t"] by simp
  have t: "dropWhile blank (rev t) = rev (take (length t - ?k) t)"
    by (simp add: dropWhile_eq_drop drop_rev)
  have "dropWhile blank (rev t @ [c]) = dropWhile blank (rev t) @ [c]"
  proof (cases "\<exists>x \<in> set t. \<not> blank x")
    case True
    then show ?thesis by (auto simp: dropWhile_append1)
  next
    case False
    with c dropWhile_append2 [of "rev t" blank "[c]"] show ?thesis
      by (metis append_Nil dropWhile_eq_Nil_conv dropWhile.simps(2) set_rev)
  qed
  with Cons t have "rev (dropWhile blank (rev (dropWhile blank s))) = c # take (length t - ?k) t"
    by simp
  moreover have "s \<noteq> []"
    using Cons by auto
  ultimately show ?thesis
    using Cons by (simp add: trimstr_def Let_def)
qed

lemma splitpath_loop_spec:
  "i \<le> length str \<Longrightarrow> CHR ''/'' \<notin> set (drop (length str - i) str) \<Longrightarrow>
    i \<le> splitpath_loop str i \<and> splitpath_loop str i \<le> length str \<and>
    CHR ''/'' \<notin> set (drop (length str - splitpath_loop str i) str) \<and>
    (splitpath_loop str i < length str \<longrightarrow> str ! (length str - 1 - splitpath_loop str i) = CHR ''/'')"
proof (induction str i rule: splitpath_loop.induct)
  case (1 str i)
  show ?case
  proof (cases "length str \<le> i \<or> str ! (length str - 1 - i) = CHR ''/''")
    case True
    then have "splitpath_loop str i = i"
      by (auto simp: splitpath_loop.simps [of str i])
    with 1 True show ?thesis by auto
  next
    case False
    then have "Suc (length str - 1 - i) = length str - i" "length str - 1 - i < length str"
      by auto
    then have "drop (length str - (i + 1)) str = str ! (length str - 1 - i) # drop (length str - i) str"
      using Cons_nth_drop_Suc [of "length str - 1 - i" str] by simp
    with False 1 show ?thesis
      by (auto simp: splitpath_loop.simps [of str i])
  qed
qed

lemma splitpath_join:
  assumes "length str < pathlen" "length str < filelen" "splitpath str pathlen filelen = (path, file)"
  shows "path @ file = str \<and> CHR ''/'' \<notin> set file \<and> (path = [] \<or> last path = CHR ''/'')"
proof -
  let ?i = "splitpath_loop str 0"
  have i: "?i \<le> length str" "CHR ''/'' \<notin> set (drop (length str - ?i) str)"
    "?i < length str \<longrightarrow> str ! (length str - 1 - ?i) = CHR ''/''"
    using splitpath_loop_spec [of 0 str] by simp_all
  show ?thesis
  proof (cases "?i = length str")
    case True
    with assms i(2) show ?thesis
      by (auto simp: splitpath_def strlcpy_def Let_def split: if_splits)
  next
    case False
    then have "last (take (length str - ?i) str) = CHR ''/''"
      using i(1,3) by (subst last_conv_nth) auto
    with False assms i show ?thesis
      by (auto simp: splitpath_def strlcpy_def Let_def split: if_splits)
  qed
qed

subsection \<open>Properties\<close>

text \<open>\<^verbatim>\<open>find_word\<close> finds a word exactly when it is one of the blank- or comma-separated
  words of the buffer, and the position it returns is the first such occurrence; a longer word that
  merely contains it is passed over.\<close>

theorem find_word_correct:
  assumes "is_cstr b" "w \<noteq> []" "\<forall>c \<in> set w. \<not> word_sep c"
  shows "case find_word b w of
      None \<Rightarrow> w \<notin> set (fields word_sep b)
    | Some i \<Rightarrow> w \<in> set (fields word_sep b) \<and> i = (LEAST i. delimited b w i)"
  using find_word_fields [OF assms] find_word_first [OF assms(1,2)]
  by (auto split: option.splits intro!: Least_equality [symmetric] simp: linorder_not_less [symmetric])

theorem find_word_correct_witness:
  "case find_word ''eth10,eth1 lo'' ''eth1'' of
      None \<Rightarrow> ''eth1'' \<notin> set (fields word_sep ''eth10,eth1 lo'')
    | Some i \<Rightarrow> ''eth1'' \<in> set (fields word_sep ''eth10,eth1 lo'') \<and>
        i = (LEAST i. delimited ''eth10,eth1 lo'' ''eth1'' i)"
  by (rule find_word_correct) (simp_all add: is_cstr_def word_sep_def)

text \<open>\<^verbatim>\<open>splitpath\<close> cuts a path after its last slash: the two parts put together are the
  path, the file name has no slash, and the directory part is empty or ends in a slash.\<close>

theorem splitpath_correct:
  assumes "length str < pathlen" "length str < filelen" "splitpath str pathlen filelen = (path, file)"
  shows "path @ file = str \<and> CHR ''/'' \<notin> set file \<and> (path = [] \<or> last path = CHR ''/'')"
  using splitpath_join [OF assms] .

theorem splitpath_correct_witness:
  "''/etc/'' @ ''hosts'' = ''/etc/hosts'' \<and> CHR ''/'' \<notin> set ''hosts'' \<and>
    (''/etc/'' = [] \<or> last ''/etc/'' = CHR ''/'')"
  by (rule splitpath_correct [of _ 32 32])
    (simp_all add: splitpath_def splitpath_loop.simps strlcpy_def Let_def)

end
