(* ===== verification/Timer.thy ===== *)
theory Timer
  imports Prelude
begin

section \<open>The timer queue\<close>

text \<open>
  \<^verbatim>\<open>libshared/shared/linux_timer.c\<close>: any number of timers are served by the one interval timer
  of the process.  Armed timers form a linked list in the order of their expiry; each holds the time
  between its predecessor's expiry and its own.  Free timers form a second list.

  The model keeps the code's memory: \<open>events\<close> is the array that \<^verbatim>\<open>init_event_queue\<close>
  allocates, a \<^verbatim>\<open>struct event *\<close> is an index into it (\<open>None\<close> is NULL), and a
  \<^verbatim>\<open>struct event **\<close> is either the variable \<^verbatim>\<open>event_queue\<close> or the
  \<^verbatim>\<open>next\<close> field of an event.  The fields \<open>itimer\<close> and \<open>itimer_interval\<close> are the kernel's
  \<^verbatim>\<open>ITIMER_REAL\<close>: what \<^verbatim>\<open>getitimer\<close> reads is the time that remains, so the theorems
  speak of every value it can have counted down to.  \<^verbatim>\<open>assert\<close>, \<^verbatim>\<open>exit(1)\<close> and a call
  through a null function pointer are error values; a list that is not well formed can make the
  loops run forever, which is the value \<open>None\<close>.
\<close>

subsection \<open>Times\<close>

record timeval =
  tv_sec :: int
  tv_usec :: int

record timespec =
  ts_sec :: int
  ts_nsec :: int

definition tv :: "int \<Rightarrow> int \<Rightarrow> timeval" where
  "tv s u = \<lparr>tv_sec = s, tv_usec = u\<rparr>"

text \<open>The macros of \<^verbatim>\<open>sys/time.h\<close>.\<close>

definition timerisset :: "timeval \<Rightarrow> bool" where
  "timerisset t \<longleftrightarrow> tv_sec t \<noteq> 0 \<or> tv_usec t \<noteq> 0"

definition timercmp_less :: "timeval \<Rightarrow> timeval \<Rightarrow> bool" where
  "timercmp_less a b =
     (if tv_sec a = tv_sec b then tv_usec a < tv_usec b else tv_sec a < tv_sec b)"

definition timersub :: "timeval \<Rightarrow> timeval \<Rightarrow> timeval" where
  "timersub a b =
     (let s = tv_sec a - tv_sec b; u = tv_usec a - tv_usec b
      in if u < 0 then tv (s - 1) (u + 1000000) else tv s u)"

definition timeradd :: "timeval \<Rightarrow> timeval \<Rightarrow> timeval" where
  "timeradd a b =
     (let s = tv_sec a + tv_sec b; u = tv_usec a + tv_usec b
      in if 1000000 \<le> u then tv (s + 1) (u - 1000000) else tv s u)"

definition TIMESPEC_TO_TIMEVAL :: "timespec \<Rightarrow> timeval" where
  "TIMESPEC_TO_TIMEVAL ts = tv (ts_sec ts) (ts_nsec ts div 1000)"

definition TIMEVAL_TO_TIMESPEC :: "timeval \<Rightarrow> timespec" where
  "TIMEVAL_TO_TIMESPEC t = \<lparr>ts_sec = tv_sec t, ts_nsec = tv_usec t * 1000\<rparr>"

definition ROUNDUP :: "int \<Rightarrow> int \<Rightarrow> int" where
  "ROUNDUP x y = (x + y - 1) div y * y"

definition timerroundup :: "timeval \<Rightarrow> int \<Rightarrow> timeval" where
  "timerroundup t g =
     (let t = (if \<not> timerisset t then t\<lparr>tv_usec := 1\<rparr> else t)
      in if tv_sec t = 0 then t\<lparr>tv_usec := ROUNDUP (tv_usec t) g\<rparr> else t)"

subsection \<open>Events and the state of the module\<close>

record event =
  it_interval :: timeval
  it_value :: timeval
  func :: "nat option"
  arg :: int
  flags :: u16
  next_ev :: "nat option"

definition TFLAG_NONE :: u16 where "TFLAG_NONE = 0"
definition TFLAG_CANCELLED :: u16 where "TFLAG_CANCELLED = 1"
definition TFLAG_DELETED :: u16 where "TFLAG_DELETED = 2"

record timer_state =
  events :: "event list"
  event_queue :: "nat option"
  event_freelist :: "nat option"
  g_granularity :: int
  g_maxevents :: int
  block_count :: int
  itimer :: timeval
  itimer_interval :: timeval

datatype timer_error = Assertion | Exit1 | NullCall

abbreviation ev :: "timer_state \<Rightarrow> nat \<Rightarrow> event" where
  "ev st p \<equiv> events st ! p"

definition upd :: "nat \<Rightarrow> (event \<Rightarrow> event) \<Rightarrow> timer_state \<Rightarrow> timer_state" where
  "upd p f st = st\<lparr>events := (events st)[p := f (ev st p)]\<rparr>"

definition setitimer :: "timeval \<Rightarrow> timeval \<Rightarrow> timer_state \<Rightarrow> timer_state" where
  "setitimer interval val st = st\<lparr>itimer_interval := interval, itimer := val\<rparr>"

definition block_timer :: "timer_state \<Rightarrow> timer_state" where
  "block_timer st = st\<lparr>block_count := block_count st + 1\<rparr>"

definition unblock_timer :: "timer_state \<Rightarrow> timer_state" where
  "unblock_timer st = st\<lparr>block_count := block_count st - 1\<rparr>"

definition event0 :: event where
  "event0 = \<lparr>it_interval = tv 0 0, it_value = tv 0 0, func = None, arg = 0, flags = 0, next_ev = None\<rparr>"

text \<open>
  \<^verbatim>\<open>sizeof(struct event)\<close> is 64 on the 64-bit targets.  \<open>alloc\<close> says whether
  \<^verbatim>\<open>malloc\<close> succeeds and \<open>readback\<close> is the interval that \<^verbatim>\<open>getitimer\<close> reports after
  an interval of one microsecond was set.
\<close>

definition init_event_queue :: "bool \<Rightarrow> int \<Rightarrow> int \<Rightarrow> timer_state \<Rightarrow> int \<times> timer_state" where
  "init_event_queue alloc readback n st =
     (if n \<le> 0 \<or> (2 ^ 64 - 1) div 64 < n then (- 1, st)
      else if \<not> alloc then (- 1, st\<lparr>event_freelist := None\<rparr>)
      else
        let st = st\<lparr>events := map (\<lambda>i. event0\<lparr>next_ev := (if i < nat n - 1 then Some (i + 1) else None)\<rparr>)
                              [0..<nat n],
                    event_freelist := Some 0, g_maxevents := n\<rparr>;
            st = setitimer (tv 0 1) (tv 0 0) st
        in (0, st\<lparr>g_granularity := (if readback = 0 then 1 else readback)\<rparr>))"

text \<open>The walk of \<^verbatim>\<open>check_event_queue\<close> from a pointer with the count \<open>i\<close>.\<close>

partial_function (option) check_walk :: "timer_state \<Rightarrow> nat option \<Rightarrow> int \<Rightarrow> (timer_error + unit) option" where
  "check_walk st e i =
     (case e of
        None \<Rightarrow> Some (Inr ())
      | Some p \<Rightarrow> if g_maxevents st < i then Some (Inl Exit1) else check_walk st (next_ev (ev st p)) (i + 1))"

definition check_event_queue :: "timer_state \<Rightarrow> (timer_error + unit) option" where
  "check_event_queue st = check_walk st (event_queue st) 0"

text \<open>Sequencing of steps that can fail or not end.\<close>

definition andthen :: "('e + 'a) option \<Rightarrow> ('a \<Rightarrow> ('e + 'b) option) \<Rightarrow> ('e + 'b) option" where
  "andthen r f = (case r of None \<Rightarrow> None | Some (Inl e) \<Rightarrow> Some (Inl e) | Some (Inr x) \<Rightarrow> f x)"

lemma andthen_simps [simp]:
  "andthen (Some (Inr x)) f = f x" "andthen (Some (Inl e)) f = Some (Inl e)" "andthen None f = None"
  by (simp_all add: andthen_def)

text \<open>
  \<^verbatim>\<open>timer_create\<close> as \<^verbatim>\<open>bcm_timer_create\<close> calls it: \<open>realtime\<close> is
  \<^verbatim>\<open>clock_id == CLOCK_REALTIME\<close>, \<open>evp\<close> is \<open>None\<close> for NULL and otherwise whether the event asks
  for \<^verbatim>\<open>SIGALRM\<close>.
\<close>

definition timer_create :: "bool \<Rightarrow> bool option \<Rightarrow> timer_state \<Rightarrow> (timer_error + nat \<times> timer_state) option" where
  "timer_create realtime evp st =
     (if \<not> realtime then Some (Inl Exit1)
      else if evp = Some False then Some (Inl Exit1)
      else case event_freelist st of
        None \<Rightarrow> Some (Inl Assertion)
      | Some p \<Rightarrow>
          let st = upd p (\<lambda>e. e\<lparr>flags := TFLAG_NONE\<rparr>) st;
              st = st\<lparr>event_freelist := next_ev (ev st p)\<rparr>;
              st = upd p (\<lambda>e. e\<lparr>next_ev := None\<rparr>) st
          in andthen (check_event_queue st) (\<lambda>_. Some (Inr (p, st))))"

definition timer_connect :: "nat \<Rightarrow> nat option \<Rightarrow> int \<Rightarrow> timer_state \<Rightarrow> (timer_error + timer_state) option" where
  "timer_connect timerid routine a st =
     (if routine = None then Some (Inl Assertion)
      else Some (Inr (upd timerid (\<lambda>e. e\<lparr>func := routine, arg := a\<rparr>) st)))"

definition timer_change_settime :: "nat \<Rightarrow> timespec \<Rightarrow> timespec \<Rightarrow> timer_state \<Rightarrow> timer_state" where
  "timer_change_settime timerid interval val st =
     upd timerid (\<lambda>e. e\<lparr>it_interval := TIMESPEC_TO_TIMEVAL interval, it_value := TIMESPEC_TO_TIMEVAL val\<rparr>) st"

subsection \<open>Pointers to pointers\<close>

datatype pptr = Queue | Next nat

fun load_pp :: "timer_state \<Rightarrow> pptr \<Rightarrow> nat option" where
  "load_pp st Queue = event_queue st"
| "load_pp st (Next p) = next_ev (ev st p)"

fun store_pp :: "pptr \<Rightarrow> nat option \<Rightarrow> timer_state \<Rightarrow> timer_state" where
  "store_pp Queue v st = st\<lparr>event_queue := v\<rparr>"
| "store_pp (Next p) v st = upd p (\<lambda>e. e\<lparr>next_ev := v\<rparr>) st"

text \<open>
  The march down the list that \<^verbatim>\<open>timer_settime\<close> and \<^verbatim>\<open>alarm_handler\<close> share: it
  turns the time of the new event into the distance from its predecessor.
\<close>

partial_function (option) insert_walk :: "nat \<Rightarrow> pptr \<Rightarrow> timer_state \<Rightarrow> (pptr \<times> timer_state) option" where
  "insert_walk e pp st =
     (case load_pp st pp of
        None \<Rightarrow> Some (pp, st)
      | Some q \<Rightarrow>
          if timercmp_less (it_value (ev st e)) (it_value (ev st q))
          then Some (pp, upd q (\<lambda>x. x\<lparr>it_value := timersub (it_value x) (it_value (ev st e))\<rparr>) st)
          else insert_walk e (Next q)
                 (upd e (\<lambda>x. x\<lparr>it_value := timersub (it_value x) (it_value (ev st q))\<rparr>) st))"

definition link_event :: "nat \<Rightarrow> timer_state \<Rightarrow> timer_state option" where
  "link_event e st =
     (case insert_walk e Queue st of
        None \<Rightarrow> None
      | Some (pp, st) \<Rightarrow>
          Some (store_pp pp (Some e) (upd e (\<lambda>x. x\<lparr>next_ev := load_pp st pp\<rparr>) st)))"

text \<open>Restarting the interval timer for the event at the head of the queue.\<close>

definition reissue :: "nat \<Rightarrow> timer_state \<Rightarrow> timer_state" where
  "reissue h st =
     (let st = upd h (\<lambda>x. x\<lparr>it_value := timerroundup (it_value x) (g_granularity st)\<rparr>) st;
          v = it_value (ev st h);
          v = (if \<not> timerisset v then tv 0 1 else v)
      in setitimer (tv 0 0) v st)"

definition asserts_ok :: "nat \<Rightarrow> timer_state \<Rightarrow> bool" where
  "asserts_ok h st \<longleftrightarrow>
     \<not> timerisset (itimer_interval st) \<and>
     (0 < tv_sec (itimer st) \<or> g_granularity st \<le> tv_usec (itimer st)) \<and>
     (0 < tv_sec (it_value (ev st h)) \<or> g_granularity st \<le> tv_usec (it_value (ev st h)))"

subsection \<open>Cancelling\<close>

text \<open>What \<^verbatim>\<open>timer_cancel\<close> does at the place \<open>pp\<close> where it has found the event.\<close>

definition cancel_here :: "nat \<Rightarrow> pptr \<Rightarrow> timer_state \<Rightarrow> timer_error + timer_state" where
  "cancel_here e pp st =
     (let st =
            (case next_ev (ev st e) of
               Some n \<Rightarrow>
                 if event_queue st = Some e then
                   let st = upd e (\<lambda>x. x\<lparr>it_value := timersub (it_value x) (itimer st)\<rparr>) st
                   in upd n (\<lambda>x. x\<lparr>it_value := timeradd (it_value x) (it_value (ev st e))\<rparr>) st
                 else st
             | None \<Rightarrow> st);
          st = store_pp pp (next_ev (ev st e)) st;
          st = upd e (\<lambda>x. x\<lparr>next_ev := None\<rparr>) st
      in case event_queue st of
           Some h \<Rightarrow>
             let st = reissue h st
             in if asserts_ok h st then Inr st else Inl Assertion
         | None \<Rightarrow> Inr (setitimer (tv 0 0) (tv 0 0) st))"

partial_function (option) cancel_walk :: "nat \<Rightarrow> pptr \<Rightarrow> timer_state \<Rightarrow> (timer_error + timer_state) option" where
  "cancel_walk e pp st =
     (case load_pp st pp of
        None \<Rightarrow> Some (Inr st)
      | Some q \<Rightarrow> if q = e then Some (cancel_here e pp st) else cancel_walk e (Next q) st)"

definition timer_cancel :: "nat \<Rightarrow> timer_state \<Rightarrow> (timer_error + timer_state) option" where
  "timer_cancel timerid st =
     (if flags (ev st timerid) AND TFLAG_CANCELLED \<noteq> 0 then Some (Inr st)
      else
        andthen (cancel_walk timerid Queue (block_timer st)) (\<lambda>st.
          Some (Inr (unblock_timer (upd timerid (\<lambda>x. x\<lparr>flags := flags x OR TFLAG_CANCELLED\<rparr>) st)))))"

partial_function (option) cancel_all_walk :: "timer_state \<Rightarrow> timer_state option" where
  "cancel_all_walk st =
     (case event_queue st of
        None \<Rightarrow> Some st
      | Some p \<Rightarrow> cancel_all_walk (upd p (\<lambda>x. x\<lparr>next_ev := None\<rparr>) (st\<lparr>event_queue := next_ev (ev st p)\<rparr>)))"

definition timer_cancel_all :: "timer_state \<Rightarrow> timer_state option" where
  "timer_cancel_all st = cancel_all_walk (setitimer (tv 0 0) (tv 0 0) st)"

definition timer_delete :: "nat \<Rightarrow> timer_state \<Rightarrow> (timer_error + int \<times> timer_state) option" where
  "timer_delete timerid st =
     (if flags (ev st timerid) AND TFLAG_DELETED \<noteq> 0 then Some (Inr (1, st))
      else
        andthen (timer_cancel timerid st) (\<lambda>st.
          let st = upd timerid (\<lambda>x. x\<lparr>flags := flags x OR TFLAG_DELETED\<rparr>) st;
              st = upd timerid (\<lambda>x. x\<lparr>next_ev := event_freelist st\<rparr>) st
          in Some (Inr (0, st\<lparr>event_freelist := Some timerid\<rparr>))))"

subsection \<open>Arming a timer\<close>

text \<open>The head of the queue is given the time that is left on the interval timer.\<close>

definition refresh_head :: "timer_state \<Rightarrow> timer_state" where
  "refresh_head st =
     (if timerisset (itimer st) then
        (case event_queue st of
           Some h \<Rightarrow> if timercmp_less (it_value (ev st h)) (itimer st) then st
                     else upd h (\<lambda>e. e\<lparr>it_value := itimer st\<rparr>) st
         | None \<Rightarrow> st)
      else st)"

definition timer_settime :: "nat \<Rightarrow> timespec \<Rightarrow> timespec \<Rightarrow> timer_state \<Rightarrow> (timer_error + timer_state) option" where
  "timer_settime timerid interval val st =
     (let st = upd timerid (\<lambda>e. e\<lparr>it_interval := TIMESPEC_TO_TIMEVAL interval,
                                  it_value := TIMESPEC_TO_TIMEVAL val\<rparr>) st
      in if \<not> timerisset (it_value (ev st timerid)) then timer_cancel timerid st
         else
           let st = block_timer st;
               st = upd timerid (\<lambda>e. e\<lparr>it_value := timerroundup (it_value e) (g_granularity st)\<rparr>) st;
               st = refresh_head st
           in case link_event timerid st of
                None \<Rightarrow> None
              | Some st \<Rightarrow>
                  andthen (check_event_queue st) (\<lambda>_.
                    let st' = (if event_queue st = Some timerid then reissue timerid st else st)
                    in if event_queue st = Some timerid \<and> \<not> asserts_ok timerid st' then Some (Inl Assertion)
                       else Some (Inr (unblock_timer
                              (upd timerid (\<lambda>x. x\<lparr>flags := flags x AND NOT TFLAG_CANCELLED\<rparr>) st')))))"

subsection \<open>Expiry\<close>

text \<open>
  One round of the loop in \<^verbatim>\<open>alarm_handler\<close>; \<open>callback\<close> is the program's function, which may
  itself call the timer functions.
\<close>

definition alarm_round ::
  "(nat \<Rightarrow> nat \<Rightarrow> int \<Rightarrow> timer_state \<Rightarrow> timer_state) \<Rightarrow> nat \<Rightarrow> timer_state \<Rightarrow> (timer_error + timer_state) option" where
  "alarm_round callback p st =
     (let st = st\<lparr>event_queue := next_ev (ev st p)\<rparr>;
          st = upd p (\<lambda>x. x\<lparr>next_ev := None\<rparr>) st
      in case func (ev st p) of
           None \<Rightarrow> Some (Inl NullCall)
         | Some f \<Rightarrow>
             let st = callback f p (arg (ev st p)) st;
                 r = (if flags (ev st p) AND TFLAG_CANCELLED = 0 \<and> timerisset (it_interval (ev st p))
                      then link_event p
                             (upd p (\<lambda>x. x\<lparr>it_value := timerroundup (it_interval x) (g_granularity st)\<rparr>) st)
                      else Some st)
             in case r of
                  None \<Rightarrow> None
                | Some st \<Rightarrow> andthen (check_event_queue st) (\<lambda>_. Some (Inr st)))"

partial_function (option) alarm_loop ::
  "(nat \<Rightarrow> nat \<Rightarrow> int \<Rightarrow> timer_state \<Rightarrow> timer_state) \<Rightarrow> nat \<Rightarrow> timer_state \<Rightarrow> (timer_error + timer_state) option" where
  "alarm_loop callback p st =
     (case alarm_round callback p st of
        None \<Rightarrow> None
      | Some (Inl e) \<Rightarrow> Some (Inl e)
      | Some (Inr st) \<Rightarrow>
          (case event_queue st of
             None \<Rightarrow> Some (Inr st)
           | Some h \<Rightarrow>
               if timercmp_less (it_value (ev st h)) (tv 0 (g_granularity st div 2))
               then alarm_loop callback h st
               else Some (Inr st)))"

definition alarm_handler ::
  "(nat \<Rightarrow> nat \<Rightarrow> int \<Rightarrow> timer_state \<Rightarrow> timer_state) \<Rightarrow> timer_state \<Rightarrow> (timer_error + timer_state) option" where
  "alarm_handler callback st =
     (let st = block_timer st
      in case event_queue st of
           None \<Rightarrow> Some (Inr (unblock_timer st))
         | Some p \<Rightarrow>
             andthen (alarm_loop callback p st) (\<lambda>st.
               Some (Inr (unblock_timer
                 (case event_queue st of None \<Rightarrow> st | Some h \<Rightarrow> reissue h st)))))"


subsection \<open>Times as microseconds\<close>

definition usec :: "timeval \<Rightarrow> int" where
  "usec t = tv_sec t * 1000000 + tv_usec t"

definition valid_tv :: "timeval \<Rightarrow> bool" where
  "valid_tv t \<longleftrightarrow> 0 \<le> tv_sec t \<and> 0 \<le> tv_usec t \<and> tv_usec t < 1000000"

named_theorems timev \<open>the time macros on microseconds\<close>

lemma tv_simps [simp]: "tv_sec (tv s u) = s" "tv_usec (tv s u) = u"
  by (simp_all add: tv_def)

lemma usec_tv [simp]: "usec (tv s u) = s * 1000000 + u"
  by (simp add: usec_def)

lemma valid_tv_0 [simp]: "valid_tv (tv 0 0)"
  by (simp add: valid_tv_def)

lemma usec_nonneg [simp]: "valid_tv t \<Longrightarrow> 0 \<le> usec t"
  by (simp add: valid_tv_def usec_def)

lemma timerisset_usec [timev]: "valid_tv t \<Longrightarrow> timerisset t \<longleftrightarrow> 0 < usec t"
  by (auto simp: timerisset_def valid_tv_def usec_def)

lemma timercmp_less_usec [timev]: "valid_tv a \<Longrightarrow> valid_tv b \<Longrightarrow> timercmp_less a b \<longleftrightarrow> usec a < usec b"
  by (auto simp: timercmp_less_def valid_tv_def usec_def)

lemma usec_timersub [timev]: "usec (timersub a b) = usec a - usec b"
  by (simp add: timersub_def usec_def Let_def)

lemma usec_timeradd [timev]: "usec (timeradd a b) = usec a + usec b"
  by (simp add: timeradd_def usec_def Let_def)

lemma valid_timersub [timev]: "valid_tv a \<Longrightarrow> valid_tv b \<Longrightarrow> usec b \<le> usec a \<Longrightarrow> valid_tv (timersub a b)"
  by (auto simp: timersub_def valid_tv_def usec_def Let_def)

lemma valid_timeradd [timev]: "valid_tv a \<Longrightarrow> valid_tv b \<Longrightarrow> valid_tv (timeradd a b)"
  by (auto simp: timeradd_def valid_tv_def Let_def)

lemma ROUNDUP_bounds: "0 < g \<Longrightarrow> x \<le> ROUNDUP x g \<and> ROUNDUP x g < x + g"
proof -
  assume g: "0 < g"
  have "(x + g - 1) div g * g = x + g - 1 - (x + g - 1) mod g"
    by (simp add: minus_mod_eq_div_mult)
  moreover have "0 \<le> (x + g - 1) mod g" "(x + g - 1) mod g < g"
    using g by simp_all
  ultimately show ?thesis
    by (simp add: ROUNDUP_def)
qed

lemma ROUNDUP_mult: "0 < g \<Longrightarrow> ROUNDUP (k * g) g = k * g"
proof -
  assume g: "0 < g"
  have "(k * g + (g - 1)) div g = k + (g - 1) div g"
    using g by simp
  moreover have "(g - 1) div g = 0"
    using g by simp
  ultimately show ?thesis
    by (simp add: ROUNDUP_def algebra_simps)
qed

lemma ROUNDUP_1 [simp]: "ROUNDUP x 1 = x"
  by (simp add: ROUNDUP_def)

lemma ROUNDUP_pos: "0 < g \<Longrightarrow> 0 < x \<Longrightarrow> g \<le> ROUNDUP x g"
proof -
  assume gx: "0 < g" "0 < x"
  have "0 < (x + g - 1) div g"
    using gx by (simp add: pos_imp_zdiv_pos_iff)
  then show ?thesis
    using gx mult_right_mono [of 1 "(x + g - 1) div g" g] by (simp add: ROUNDUP_def)
qed

text \<open>Rounding up to the granularity of the interval timer.\<close>

lemma timerroundup_pos:
  assumes "valid_tv t" "0 < g"
  shows "0 < tv_sec (timerroundup t g) \<or> g \<le> tv_usec (timerroundup t g)"
proof (cases "timerisset t")
  case False
  with assms(2) ROUNDUP_pos [of g 1] show ?thesis
    by (auto simp: timerroundup_def timerisset_def Let_def)
next
  case True
  with assms ROUNDUP_pos [of g "tv_usec t"] show ?thesis
    by (cases "tv_sec t = 0") (auto simp: timerroundup_def timerisset_def valid_tv_def Let_def)
qed

lemma timerroundup_1:
  "valid_tv t \<Longrightarrow> usec (timerroundup t 1) = (if usec t = 0 then 1 else usec t) \<and> valid_tv (timerroundup t 1)"
  by (auto simp: timerroundup_def timerisset_def valid_tv_def usec_def Let_def)

lemma timerroundup_idem:
  assumes "valid_tv t" "0 < g"
  shows "timerroundup (timerroundup t g) g = timerroundup t g"
proof -
  have R: "ROUNDUP (ROUNDUP x g) g = ROUNDUP x g" for x
    using ROUNDUP_mult [OF assms(2)] by (simp add: ROUNDUP_def)
  have "timerisset (timerroundup t g)"
    using timerroundup_pos [OF assms] assms(2) by (auto simp: timerisset_def)
  moreover have "tv_sec (timerroundup t g) = 0 \<Longrightarrow>
      (timerroundup t g)\<lparr>tv_usec := ROUNDUP (tv_usec (timerroundup t g)) g\<rparr> = timerroundup t g"
    by (auto simp: timerroundup_def R Let_def)
  ultimately show ?thesis
    by (auto simp: timerroundup_def [of "timerroundup t g"] Let_def)
qed

lemma timerroundup_sec_nonneg: "valid_tv t \<Longrightarrow> 0 \<le> tv_sec (timerroundup t g)"
  by (auto simp: timerroundup_def valid_tv_def Let_def)

subsection \<open>Linked lists of events\<close>

fun linked :: "event list \<Rightarrow> nat option \<Rightarrow> nat list \<Rightarrow> bool" where
  "linked es e [] \<longleftrightarrow> e = None"
| "linked es e (q # qs) \<longleftrightarrow> e = Some q \<and> q < length es \<and> linked es (next_ev (es ! q)) qs"

text \<open>The times at which the events of a list are due, when its predecessor is due at \<open>t\<close>.\<close>

fun due :: "event list \<Rightarrow> int \<Rightarrow> nat list \<Rightarrow> (nat \<times> int) list" where
  "due es t [] = []"
| "due es t (q # qs) =
     (q, t + usec (it_value (es ! q))) # due es (t + usec (it_value (es ! q))) qs"

text \<open>The specification of arming: the new expiry is placed after those that are not later.\<close>

fun insert_due :: "nat \<times> int \<Rightarrow> (nat \<times> int) list \<Rightarrow> (nat \<times> int) list" where
  "insert_due x [] = [x]"
| "insert_due x (y # ys) = (if snd x < snd y then x # y # ys else y # insert_due x ys)"

lemma linked_frame:
  "length es' = length es \<Longrightarrow> \<forall>q \<in> set qs. next_ev (es' ! q) = next_ev (es ! q) \<Longrightarrow>
    linked es' e qs = linked es e qs"
  by (induction qs arbitrary: e) auto

lemma due_frame:
  "\<forall>q \<in> set qs. it_value (es' ! q) = it_value (es ! q) \<Longrightarrow> due es' t qs = due es t qs"
  by (induction qs arbitrary: t) auto

lemma due_append:
  "due es t (us @ vs) = due es t us @ due es (t + sum_list (map (\<lambda>q. usec (it_value (es ! q))) us)) vs"
  by (induction us arbitrary: t) (auto simp: algebra_simps)

lemma map_fst_due [simp]: "map fst (due es t qs) = qs"
  by (induction qs arbitrary: t) auto

lemma linked_bound: "linked es e qs \<Longrightarrow> set qs \<subseteq> {..<length es}"
  by (induction qs arbitrary: e) auto

lemma linked_length: "linked es e qs \<Longrightarrow> distinct qs \<Longrightarrow> length qs \<le> length es"
  using linked_bound [of es e qs] by (metis card_lessThan card_mono distinct_card finite_lessThan)

lemma linked_head: "linked es e qs \<Longrightarrow> e = (if qs = [] then None else Some (hd qs))"
  by (cases qs) auto

text \<open>A list segment: from \<open>e\<close> through the events of the list to \<open>e'\<close>.\<close>

fun seg :: "event list \<Rightarrow> nat option \<Rightarrow> nat list \<Rightarrow> nat option \<Rightarrow> bool" where
  "seg es e [] e' \<longleftrightarrow> e = e'"
| "seg es e (q # qs) e' \<longleftrightarrow> e = Some q \<and> q < length es \<and> seg es (next_ev (es ! q)) qs e'"

lemma linked_append: "linked es e (us @ vs) \<longleftrightarrow> (\<exists>m. seg es e us m \<and> linked es m vs)"
  by (induction us arbitrary: e) auto

lemma seg_frame:
  "length es' = length es \<Longrightarrow> \<forall>q \<in> set qs. next_ev (es' ! q) = next_ev (es ! q) \<Longrightarrow>
    seg es' e qs m = seg es e qs m"
  by (induction qs arbitrary: e) auto

lemma seg_snoc: "seg es e (us @ [p]) m \<longleftrightarrow> seg es e us (Some p) \<and> p < length es \<and> next_ev (es ! p) = m"
  by (induction us arbitrary: e) auto

text \<open>Only the \<open>it_value\<close> fields of two arrays differ.\<close>

definition same_links :: "event list \<Rightarrow> event list \<Rightarrow> bool" where
  "same_links es es' \<longleftrightarrow> map (it_value_update (\<lambda>_. tv 0 0)) es' = map (it_value_update (\<lambda>_. tv 0 0)) es"

lemma same_links_refl [simp]: "same_links es es"
  by (simp add: same_links_def)

lemma same_links_trans: "same_links a b \<Longrightarrow> same_links b c \<Longrightarrow> same_links a c"
  by (simp add: same_links_def)

lemma same_links_upd [simp]: "same_links es (es[p := (es ! p)\<lparr>it_value := v\<rparr>])"
  by (cases "p < length es") (auto simp: same_links_def list_eq_iff_nth_eq nth_list_update)

lemma same_linksD:
  assumes "same_links es es'"
  shows "length es' = length es"
    and "p < length es \<Longrightarrow> es' ! p = (es ! p)\<lparr>it_value := it_value (es' ! p)\<rparr>"
    and "p < length es \<Longrightarrow> next_ev (es' ! p) = next_ev (es ! p)"
proof -
  show len: "length es' = length es"
    using assms unfolding same_links_def by (metis length_map)
  show eq: "es' ! p = (es ! p)\<lparr>it_value := it_value (es' ! p)\<rparr>" if "p < length es" for p
  proof -
    have "(es' ! p)\<lparr>it_value := tv 0 0\<rparr> = (es ! p)\<lparr>it_value := tv 0 0\<rparr>"
      using assms that len unfolding same_links_def by (metis nth_map)
    then show ?thesis
      by (cases "es' ! p"; cases "es ! p") simp
  qed
  show "p < length es \<Longrightarrow> next_ev (es' ! p) = next_ev (es ! p)"
    using eq by (metis event.select_convs(6) event.surjective event.update_convs(2))
qed

lemma upd_simps [simp]:
  "events (upd p f st) = (events st)[p := f (ev st p)]"
  "event_queue (upd p f st) = event_queue st"
  "event_freelist (upd p f st) = event_freelist st"
  "g_granularity (upd p f st) = g_granularity st"
  "g_maxevents (upd p f st) = g_maxevents st"
  "itimer (upd p f st) = itimer st"
  "itimer_interval (upd p f st) = itimer_interval st"
  "block_count (upd p f st) = block_count st"
  by (simp_all add: upd_def)

lemma next_ev_upd_value [simp]: "next_ev (es[p := (es ! p)\<lparr>it_value := v\<rparr>] ! q) = next_ev (es ! q)"
  by (cases "p < length es") (simp_all add: nth_list_update list_update_beyond)

lemma load_pp_upd_value [simp]:
  "load_pp (upd p (\<lambda>x. x\<lparr>it_value := v x\<rparr>) st) pp = load_pp st pp"
  by (cases pp) simp_all

lemma due_upd_value:
  "p \<notin> set qs \<Longrightarrow> due (es[p := x]) t qs = due es t qs"
  by (rule due_frame) (metis nth_list_update_neq)

definition values_ok :: "event list \<Rightarrow> nat set \<Rightarrow> bool" where
  "values_ok es A \<longleftrightarrow> (\<forall>q \<in> A. valid_tv (it_value (es ! q)))"

text \<open>
  The march down the queue: it ends, changes only times, and the place it finds splits the list so
  that, with the new event linked in there, the expiries are those from before and the new one.
\<close>

lemma insert_walk_spec:
  assumes "linked (events st) (load_pp st pp) qs" "distinct qs" "e \<notin> set qs" "e < length (events st)"
    "values_ok (events st) (insert e (set qs))"
  shows "\<exists>us vs pp' es'. insert_walk e pp st = Some (pp', st\<lparr>events := es'\<rparr>) \<and> qs = us @ vs \<and>
    pp' = (if us = [] then pp else Next (last us)) \<and> same_links (events st) es' \<and>
    (\<forall>p. p \<notin> insert e (set qs) \<longrightarrow> es' ! p = ev st p) \<and> values_ok es' (insert e (set qs)) \<and>
    (us \<noteq> [] \<longrightarrow> it_value (es' ! hd us) = it_value (ev st (hd us))) \<and>
    (us = [] \<longrightarrow> it_value (es' ! e) = it_value (ev st e)) \<and>
    due es' t (us @ e # vs) = insert_due (e, t + usec (it_value (ev st e))) (due (events st) t qs)"
  using assms
proof (induction qs arbitrary: pp st t)
  case Nil
  then have "insert_walk e pp st = Some (pp, st\<lparr>events := events st\<rparr>)"
    by (simp add: insert_walk.simps [of e pp])
  with Nil show ?case
    by (intro exI [of _ "[]"] exI [of _ pp] exI [of _ "events st"]) simp
next
  case (Cons q qs)
  have q: "load_pp st pp = Some q" "q < length (events st)" "linked (events st) (next_ev (ev st q)) qs"
    "q \<noteq> e" "q \<notin> set qs"
    using Cons.prems by auto
  have ve: "valid_tv (it_value (ev st e))" and vq: "valid_tv (it_value (ev st q))"
    using Cons.prems(5) by (simp_all add: values_ok_def)
  show ?case
  proof (cases "timercmp_less (it_value (ev st e)) (it_value (ev st q))")
    case True
    then have lt: "usec (it_value (ev st e)) < usec (it_value (ev st q))"
      using ve vq by (simp add: timercmp_less_usec)
    let ?v = "timersub (it_value (ev st q)) (it_value (ev st e))"
    let ?es = "(events st)[q := (ev st q)\<lparr>it_value := ?v\<rparr>]"
    have w: "insert_walk e pp st = Some (pp, st\<lparr>events := ?es\<rparr>)"
      using q(1) True by (simp add: insert_walk.simps [of e pp] upd_def)
    have "due ?es t ([] @ e # q # qs) =
        insert_due (e, t + usec (it_value (ev st e))) (due (events st) t (q # qs))"
      using lt q by (simp add: due_upd_value usec_timersub)
    moreover have "values_ok ?es (insert e (set (q # qs)))"
      using Cons.prems(5) q ve vq lt
      by (auto simp: values_ok_def nth_list_update valid_timersub)
    ultimately show ?thesis
      using w q
      by (intro exI [of _ "[]"] exI [of _ "q # qs"] exI [of _ pp] exI [of _ ?es]) (simp add: nth_list_update)
  next
    case False
    then have ge: "usec (it_value (ev st q)) \<le> usec (it_value (ev st e))"
      using ve vq by (simp add: timercmp_less_usec)
    let ?v = "timersub (it_value (ev st e)) (it_value (ev st q))"
    let ?st = "upd e (\<lambda>x. x\<lparr>it_value := timersub (it_value x) (it_value (ev st q))\<rparr>) st"
    let ?es = "(events st)[e := (ev st e)\<lparr>it_value := ?v\<rparr>]"
    have es: "events ?st = ?es"
      by simp
    have w: "insert_walk e pp st = insert_walk e (Next q) ?st"
      using q(1) False by (simp add: insert_walk.simps [of e pp])
    have l: "linked (events ?st) (load_pp ?st (Next q)) qs"
      using q(3) by (simp add: linked_frame [of ?es "events st"])
    have v: "values_ok (events ?st) (insert e (set qs))"
      using Cons.prems(3-5) ve vq ge
      by (auto simp: values_ok_def nth_list_update valid_timersub)
    have d: "distinct qs" "e \<notin> set qs" "e < length (events ?st)"
      using Cons.prems by simp_all
    from Cons.IH [OF l d v, of "t + usec (it_value (ev st q))"] obtain us vs pp' es' where IH:
      "insert_walk e (Next q) ?st = Some (pp', ?st\<lparr>events := es'\<rparr>)" "qs = us @ vs"
      "pp' = (if us = [] then Next q else Next (last us))" "same_links (events ?st) es'"
      "\<forall>p. p \<notin> insert e (set qs) \<longrightarrow> es' ! p = ev ?st p" "values_ok es' (insert e (set qs))"
      "due es' (t + usec (it_value (ev st q))) (us @ e # vs) =
        insert_due (e, t + usec (it_value (ev st q)) + usec (it_value (ev ?st e)))
          (due (events ?st) (t + usec (it_value (ev st q))) qs)"
      by (elim exE conjE) (rule that)
    have eq: "es' ! q = ev st q"
      using IH(5) q(4,5) by simp
    have "?st\<lparr>events := es'\<rparr> = st\<lparr>events := es'\<rparr>"
      by (simp add: upd_def)
    moreover have "same_links (events st) es'"
      using IH(4) es same_links_upd same_links_trans by metis
    moreover have "due es' t ((q # us) @ e # vs) =
        insert_due (e, t + usec (it_value (ev st e))) (due (events st) t (q # qs))"
      using IH(7) eq ge Cons.prems(3,4) by (simp add: usec_timersub due_upd_value)
    moreover have "values_ok es' (insert e (set (q # qs)))"
      using IH(6) eq vq by (auto simp: values_ok_def)
    moreover have "\<forall>p. p \<notin> insert e (set (q # qs)) \<longrightarrow> es' ! p = ev st p"
      using IH(5) by simp
    ultimately show ?thesis
      using w IH(1-3) eq
      by (intro exI [of _ "q # us"] exI [of _ vs] exI [of _ pp'] exI [of _ es']) simp
  qed
qed


definition link_in :: "nat \<Rightarrow> nat list \<Rightarrow> nat list \<Rightarrow> event list \<Rightarrow> event list" where
  "link_in e us vs es =
     (let es = es[e := (es ! e)\<lparr>next_ev := (if vs = [] then None else Some (hd vs))\<rparr>]
      in if us = [] then es else es[last us := (es ! last us)\<lparr>next_ev := Some e\<rparr>])"

lemma link_in_simps [simp]:
  "length (link_in e us vs es) = length es"
  "it_value (link_in e us vs es ! p) = it_value (es ! p)"
  "it_interval (link_in e us vs es ! p) = it_interval (es ! p)"
  "func (link_in e us vs es ! p) = func (es ! p)"
  "arg (link_in e us vs es ! p) = arg (es ! p)"
  "flags (link_in e us vs es ! p) = flags (es ! p)"
proof -
  have *: "f (es[k := (es ! k)\<lparr>next_ev := v\<rparr>] ! p) = f (es ! p)"
    if "\<And>x v. f (x\<lparr>next_ev := v\<rparr>) = f x" for f :: "event \<Rightarrow> 'a" and es k v
    using that by (cases "k < length es") (simp_all add: nth_list_update list_update_beyond)
  show "length (link_in e us vs es) = length es"
    by (simp add: link_in_def Let_def)
  show "it_value (link_in e us vs es ! p) = it_value (es ! p)"
    "it_interval (link_in e us vs es ! p) = it_interval (es ! p)"
    "func (link_in e us vs es ! p) = func (es ! p)"
    "arg (link_in e us vs es ! p) = arg (es ! p)"
    "flags (link_in e us vs es ! p) = flags (es ! p)"
    by (simp_all add: link_in_def Let_def *)
qed

lemma link_in_last: "p \<noteq> e \<Longrightarrow> us = [] \<or> p \<noteq> last us \<Longrightarrow> link_in e us vs es ! p = es ! p"
  by (cases "us = []") (simp_all add: link_in_def Let_def)

lemma link_in_other: "p \<noteq> e \<Longrightarrow> p \<notin> set us \<Longrightarrow> link_in e us vs es ! p = es ! p"
  by (rule link_in_last) (use last_in_set in blast)+

lemma linked_link_in:
  assumes "linked es h (us @ vs)" "distinct (us @ vs)" "e \<notin> set (us @ vs)" "e < length es"
  shows "linked (link_in e us vs es) (if us = [] then Some e else h) (us @ e # vs)"
proof -
  obtain m where m: "seg es h us m" "linked es m vs"
    using assms(1) by (auto simp: linked_append)
  have mv: "m = (if vs = [] then None else Some (hd vs))"
    using m(2) by (rule linked_head)
  let ?es = "link_in e us vs es"
  have "next_ev (?es ! e) = m"
    using assms(3,4) mv last_in_set [of us] by (auto simp: link_in_def Let_def nth_list_update)
  moreover have "linked ?es m vs"
  proof -
    have "?es ! q = es ! q" if "q \<in> set vs" for q
      using that assms(2,3) by (intro link_in_other) auto
    with m(2) show ?thesis
      by (simp add: linked_frame [of ?es es])
  qed
  ultimately have tail: "linked ?es (Some e) (e # vs)"
    using assms(4) by simp
  show ?thesis
  proof (cases us rule: rev_cases)
    case Nil
    with tail show ?thesis by simp
  next
    case (snoc us0 p)
    have p: "p < length es" "seg es h us0 (Some p)"
      using m(1) snoc by (simp_all add: seg_snoc)
    have "?es ! q = es ! q" if "q \<in> set us0" for q
      using that assms(2,3) snoc by (intro link_in_last) auto
    then have "seg ?es h us0 (Some p)"
      using p(2) by (simp add: seg_frame [of ?es es])
    moreover have "next_ev (?es ! p) = Some e"
      using snoc p(1) by (simp add: link_in_def Let_def)
    ultimately have "seg ?es h us (Some e)"
      using snoc p(1) by (simp add: seg_snoc)
    with tail snoc show ?thesis
      by (auto simp only: linked_append) auto
  qed
qed

lemma link_event_spec:
  assumes "linked (events st) (event_queue st) qs" "distinct qs" "e \<notin> set qs" "e < length (events st)"
    "values_ok (events st) (insert e (set qs))"
  shows "\<exists>us vs es' h'. link_event e st = Some (st\<lparr>events := es', event_queue := h'\<rparr>) \<and> qs = us @ vs \<and>
    linked es' h' (us @ e # vs) \<and> length es' = length (events st) \<and>
    (\<forall>p. p \<notin> insert e (set qs) \<longrightarrow> es' ! p = ev st p) \<and> values_ok es' (insert e (set qs)) \<and>
    (\<forall>p < length es'. it_interval (es' ! p) = it_interval (ev st p) \<and> flags (es' ! p) = flags (ev st p)) \<and>
    (us \<noteq> [] \<longrightarrow> it_value (es' ! hd us) = it_value (ev st (hd us))) \<and>
    (us = [] \<longrightarrow> it_value (es' ! e) = it_value (ev st e)) \<and>
    due es' t (us @ e # vs) = insert_due (e, t + usec (it_value (ev st e))) (due (events st) t qs)"
proof -
  have "linked (events st) (load_pp st Queue) qs"
    using assms(1) by simp
  from insert_walk_spec [OF this assms(2-5), of t] obtain us vs pp' es' where w:
    "insert_walk e Queue st = Some (pp', st\<lparr>events := es'\<rparr>)" "qs = us @ vs"
    "pp' = (if us = [] then Queue else Next (last us))" "same_links (events st) es'"
    "\<forall>p. p \<notin> insert e (set qs) \<longrightarrow> es' ! p = ev st p" "values_ok es' (insert e (set qs))"
    "us \<noteq> [] \<longrightarrow> it_value (es' ! hd us) = it_value (ev st (hd us))"
    "us = [] \<longrightarrow> it_value (es' ! e) = it_value (ev st e)"
    "due es' t (us @ e # vs) = insert_due (e, t + usec (it_value (ev st e))) (due (events st) t qs)"
    by (elim exE conjE) (rule that)
  note links = same_linksD [OF w(4)]
  have l: "linked es' (event_queue st) (us @ vs)"
    using assms(1) w(2) links(3) linked_bound [OF assms(1)] linked_frame [OF links(1), of "us @ vs"]
    by (metis lessThan_iff subsetD)
  obtain m where m: "seg es' (event_queue st) us m" "linked es' m vs"
    using l by (auto simp: linked_append)
  have load: "load_pp (st\<lparr>events := es'\<rparr>) pp' = m"
    using w(3) m(1) by (cases us rule: rev_cases) (simp_all add: seg_snoc)
  have mv: "m = (if vs = [] then None else Some (hd vs))"
    using m(2) by (rule linked_head)
  let ?es = "link_in e us vs es'" and ?h = "if us = [] then Some e else event_queue st"
  have "link_event e st = Some (st\<lparr>events := ?es, event_queue := ?h\<rparr>)"
    using w(1,3) load mv by (simp add: link_event_def link_in_def Let_def upd_def)
  moreover have "linked ?es ?h (us @ e # vs)"
    using l assms(2-4) w(2) links(1) by (intro linked_link_in) auto
  moreover have "\<forall>p < length ?es. it_interval (?es ! p) = it_interval (ev st p) \<and> flags (?es ! p) = flags (ev st p)"
    using links by (metis link_in_simps(1,3,6) event.select_convs(1,5) event.surjective event.update_convs(2))
  moreover have "\<forall>p. p \<notin> insert e (set qs) \<longrightarrow> ?es ! p = ev st p"
    using w(2,5) by (auto simp: link_in_other)
  moreover have "values_ok ?es (insert e (set qs))"
    using w(6) by (simp add: values_ok_def)
  moreover have "due ?es t (us @ e # vs) = due es' t (us @ e # vs)"
    by (rule due_frame) simp
  ultimately show ?thesis
    using w(2,7-9) links(1)
    by (intro exI [of _ us] exI [of _ vs] exI [of _ ?es] exI [of _ ?h]) simp
qed

lemma check_walk_ok:
  "linked (events st) e qs \<Longrightarrow> i + int (length qs) \<le> g_maxevents st + 1 \<Longrightarrow> check_walk st e i = Some (Inr ())"
  by (induction qs arbitrary: e i) (auto simp: check_walk.simps)

lemma check_event_queue_ok:
  "linked (events st) (event_queue st) qs \<Longrightarrow> int (length qs) \<le> g_maxevents st \<Longrightarrow>
    check_event_queue st = Some (Inr ())"
  by (simp add: check_event_queue_def check_walk_ok)


subsection \<open>The invariant\<close>

text \<open>
  \<open>qs\<close> are the armed timers in queue order, \<open>fs\<close> the free ones.  \<open>queue_ok\<close> is what holds at every
  moment; \<open>timer_ok\<close> adds that the interval timer runs for the head of the queue, with no more left
  than the head was given.
\<close>

definition queue_ok :: "timer_state \<Rightarrow> nat list \<Rightarrow> nat list \<Rightarrow> bool" where
  "queue_ok st qs fs \<longleftrightarrow>
     linked (events st) (event_queue st) qs \<and> linked (events st) (event_freelist st) fs \<and>
     distinct (qs @ fs) \<and> values_ok (events st) (set qs) \<and> 0 < g_granularity st \<and>
     g_maxevents st = int (length (events st))"

definition timer_ok :: "timer_state \<Rightarrow> nat list \<Rightarrow> nat list \<Rightarrow> bool" where
  "timer_ok st qs fs \<longleftrightarrow>
     queue_ok st qs fs \<and> valid_tv (itimer st) \<and>
     (qs \<noteq> [] \<longrightarrow> timerisset (itimer st) \<and> usec (itimer st) \<le> usec (it_value (ev st (hd qs))))"

text \<open>The time from now at which each armed timer is due: the head when the interval timer expires.\<close>

definition due_now :: "timer_state \<Rightarrow> nat list \<Rightarrow> (nat \<times> int) list" where
  "due_now st qs =
     (if qs = [] then []
      else due (events st) (usec (itimer st) - usec (it_value (ev st (hd qs)))) qs)"

lemma nth_upd_frame:
  "(\<And>x. g (f x) = g x) \<Longrightarrow> g (es[p := f (es ! p)] ! q) = g (es ! q)"
  by (cases "p < length es") (simp_all add: nth_list_update list_update_beyond)

lemma linked_upd:
  "(\<And>x. next_ev (f x) = next_ev x) \<Longrightarrow> linked (es[p := f (es ! p)]) e qs = linked es e qs"
  by (rule linked_frame) (simp_all add: nth_upd_frame [of next_ev])

lemma linked_upd_same:
  "next_ev x = next_ev (es ! p) \<Longrightarrow> linked (es[p := x]) e qs = linked es e qs"
proof (rule linked_frame)
  assume "next_ev x = next_ev (es ! p)"
  then show "\<forall>q \<in> set qs. next_ev (es[p := x] ! q) = next_ev (es ! q)"
    by (cases "p < length es") (simp_all add: nth_list_update list_update_beyond)
qed simp

lemma due_upd: "(\<And>x. it_value (f x) = it_value x) \<Longrightarrow> due (es[p := f (es ! p)]) t qs = due es t qs"
  by (rule due_frame) (simp add: nth_upd_frame [of it_value])

lemma values_ok_upd:
  "(\<And>x. it_value (f x) = it_value x) \<Longrightarrow> values_ok (es[p := f (es ! p)]) A = values_ok es A"
  by (simp add: values_ok_def nth_upd_frame [of it_value])

lemma queue_ok_upd:
  assumes "\<And>x. next_ev (f x) = next_ev x" "\<And>x. it_value (f x) = it_value x"
  shows "queue_ok (upd p f st) qs fs = queue_ok st qs fs"
  using assms by (simp add: queue_ok_def linked_upd values_ok_upd)

lemma timer_ok_upd:
  assumes "\<And>x. next_ev (f x) = next_ev x" "\<And>x. it_value (f x) = it_value x"
  shows "timer_ok (upd p f st) qs fs = timer_ok st qs fs"
  using assms by (simp add: timer_ok_def queue_ok_upd nth_upd_frame [of it_value])

lemma due_now_upd: "(\<And>x. it_value (f x) = it_value x) \<Longrightarrow> due_now (upd p f st) qs = due_now st qs"
  by (simp add: due_now_def due_upd nth_upd_frame [of it_value])

lemma block_frame [simp]:
  "queue_ok (block_timer st) qs fs = queue_ok st qs fs" "queue_ok (unblock_timer st) qs fs = queue_ok st qs fs"
  "timer_ok (block_timer st) qs fs = timer_ok st qs fs" "timer_ok (unblock_timer st) qs fs = timer_ok st qs fs"
  "due_now (block_timer st) qs = due_now st qs" "due_now (unblock_timer st) qs = due_now st qs"
  "events (block_timer st) = events st" "event_queue (block_timer st) = event_queue st"
  "g_granularity (block_timer st) = g_granularity st" "itimer (block_timer st) = itimer st"
  "itimer (unblock_timer st) = itimer st"
  by (simp_all add: block_timer_def unblock_timer_def queue_ok_def timer_ok_def due_now_def)

lemma queue_ok_length: "queue_ok st qs fs \<Longrightarrow> int (length qs) \<le> g_maxevents st"
  using linked_length [of "events st" "event_queue st" qs] by (simp add: queue_ok_def)

text \<open>An event that is on neither list can take any time without disturbing them.\<close>

lemma queue_ok_other:
  assumes "queue_ok st qs fs" "p \<notin> set qs" "\<And>x. next_ev (f x) = next_ev x"
  shows "queue_ok (upd p f st) qs fs"
proof -
  have "values_ok ((events st)[p := f (ev st p)]) (set qs) = values_ok (events st) (set qs)"
    unfolding values_ok_def using assms(2) by (metis nth_list_update_neq)
  with assms show ?thesis
    by (simp add: queue_ok_def linked_upd)
qed

lemma link_event_ok:
  assumes "queue_ok st qs fs" "e \<notin> set (qs @ fs)" "e < length (events st)" "valid_tv (it_value (ev st e))"
  shows "\<exists>st' qs'. link_event e st = Some st' \<and> queue_ok st' qs' fs \<and> e \<in> set qs' \<and>
    itimer st' = itimer st \<and> g_granularity st' = g_granularity st \<and> block_count st' = block_count st \<and>
    it_value (ev st' (hd qs')) = it_value (ev st (hd qs')) \<and>
    (hd qs' = e \<or> qs \<noteq> [] \<and> hd qs' = hd qs) \<and>
    due (events st') t qs' = insert_due (e, t + usec (it_value (ev st e))) (due (events st) t qs)"
proof -
  have q: "linked (events st) (event_queue st) qs" "distinct qs" "e \<notin> set qs"
    and v: "values_ok (events st) (insert e (set qs))"
    using assms by (auto simp: queue_ok_def values_ok_def)
  from link_event_spec [OF q assms(3) v, of t] obtain us vs es' h' where l:
    "link_event e st = Some (st\<lparr>events := es', event_queue := h'\<rparr>)" "qs = us @ vs"
    "linked es' h' (us @ e # vs)" "length es' = length (events st)"
    "\<forall>p. p \<notin> insert e (set qs) \<longrightarrow> es' ! p = ev st p" "values_ok es' (insert e (set qs))"
    "us \<noteq> [] \<longrightarrow> it_value (es' ! hd us) = it_value (ev st (hd us))"
    "us = [] \<longrightarrow> it_value (es' ! e) = it_value (ev st e)"
    "due es' t (us @ e # vs) = insert_due (e, t + usec (it_value (ev st e))) (due (events st) t qs)"
    by (elim exE conjE) (rule that)
  let ?qs = "us @ e # vs" and ?st = "st\<lparr>events := es', event_queue := h'\<rparr>"
  have "linked es' (event_freelist st) fs"
    using assms(1,2) l(4,5) by (subst linked_frame [of _ "events st"]) (auto simp: queue_ok_def)
  then have "queue_ok ?st ?qs fs"
    using assms(1,2) l(2,3,4,6) by (auto simp: queue_ok_def insert_commute)
  moreover have "it_value (es' ! hd ?qs) = it_value (ev st (hd ?qs))"
    using l(7,8) by (cases us) auto
  moreover have "hd ?qs = e \<or> qs \<noteq> [] \<and> hd ?qs = hd qs"
    using l(2) by (cases us) auto
  ultimately show ?thesis
    using l(1,9) by (intro exI [of _ ?st] exI [of _ ?qs]) simp
qed

lemma queue_head: "queue_ok st qs fs \<Longrightarrow> event_queue st = (if qs = [] then None else Some (hd qs))"
  using linked_head [of "events st" "event_queue st" qs] by (simp add: queue_ok_def)

lemma reissue_same:
  assumes "it_value (ev st h) = timerroundup v (g_granularity st)" "valid_tv v" "0 < g_granularity st"
  shows "reissue h st = setitimer (tv 0 0) (it_value (ev st h)) st"
proof -
  have "upd h (\<lambda>x. x\<lparr>it_value := timerroundup (it_value x) (g_granularity st)\<rparr>) st = st"
    using timerroundup_idem [OF assms(2,3)] unfolding assms(1) [symmetric] by (simp add: upd_def)
  moreover have "timerisset (it_value (ev st h))"
    using timerroundup_pos [OF assms(2,3)] assms(1,3) by (auto simp: timerisset_def)
  ultimately show ?thesis
    by (simp add: reissue_def Let_def)
qed


subsection \<open>Arming a timer\<close>

lemma refresh_head_ok:
  assumes "timer_ok st qs fs"
  shows "queue_ok (refresh_head st) qs fs" "due (events (refresh_head st)) 0 qs = due_now st qs"
    "itimer (refresh_head st) = itimer st" "g_granularity (refresh_head st) = g_granularity st"
    "length (events (refresh_head st)) = length (events st)"
    "p \<notin> set qs \<Longrightarrow> ev (refresh_head st) p = ev st p"
    "qs \<noteq> [] \<Longrightarrow> it_value (ev (refresh_head st) (hd qs)) = itimer st"
proof -
  have q: "queue_ok st qs fs" "valid_tv (itimer st)"
    using assms by (simp_all add: timer_ok_def)
  show "itimer (refresh_head st) = itimer st" "g_granularity (refresh_head st) = g_granularity st"
    "length (events (refresh_head st)) = length (events st)"
    by (simp_all add: refresh_head_def split: option.splits)
  have all: "queue_ok (refresh_head st) qs fs \<and> due (events (refresh_head st)) 0 qs = due_now st qs \<and>
    (p \<notin> set qs \<longrightarrow> ev (refresh_head st) p = ev st p) \<and>
    (qs \<noteq> [] \<longrightarrow> it_value (ev (refresh_head st) (hd qs)) = itimer st)"
  proof (cases qs)
    case Nil
    with q queue_head [OF q(1)] show ?thesis
      by (simp add: refresh_head_def due_now_def)
  next
    case (Cons h rs)
    have h: "event_queue st = Some h" "h < length (events st)" "h \<notin> set rs" "valid_tv (it_value (ev st h))"
      using q(1) Cons by (auto simp: queue_ok_def values_ok_def)
    have "\<not> timercmp_less (it_value (ev st h)) (itimer st)" "timerisset (itimer st)"
      using assms Cons h(4) q(2) by (simp_all add: timer_ok_def timercmp_less_usec)
    then have r: "refresh_head st = upd h (\<lambda>e. e\<lparr>it_value := itimer st\<rparr>) st"
      using h(1) by (simp add: refresh_head_def)
    have "values_ok ((events st)[h := (ev st h)\<lparr>it_value := itimer st\<rparr>]) (set qs)"
      using q Cons h by (auto simp: queue_ok_def values_ok_def nth_list_update)
    then have "queue_ok (refresh_head st) qs fs"
      using q(1) by (simp add: r queue_ok_def linked_upd)
    then show ?thesis
      using r h Cons by (auto simp: due_now_def due_upd_value)
  qed
  then show "queue_ok (refresh_head st) qs fs" "due (events (refresh_head st)) 0 qs = due_now st qs"
    "p \<notin> set qs \<Longrightarrow> ev (refresh_head st) p = ev st p"
    "qs \<noteq> [] \<Longrightarrow> it_value (ev (refresh_head st) (hd qs)) = itimer st"
    by blast+
qed

lemma hd_other: "p \<notin> set qs \<Longrightarrow> qs \<noteq> [] \<Longrightarrow> ev (upd p f st) (hd qs) = ev st (hd qs)"
  using hd_in_set [of qs] by (metis nth_list_update_neq upd_simps(1))

lemma due_now_other: "p \<notin> set qs \<Longrightarrow> due_now (upd p f st) qs = due_now st qs"
  using hd_other [of p qs f st] by (auto simp: due_now_def due_upd_value)

lemma timer_ok_other:
  assumes "timer_ok st qs fs" "p \<notin> set qs" "\<And>x. next_ev (f x) = next_ev x"
  shows "timer_ok (upd p f st) qs fs"
  using assms queue_ok_other [OF _ assms(2), of st fs f] hd_other [OF assms(2), of f st]
  by (auto simp: timer_ok_def)

lemma timer_settime_spec:
  assumes ok: "timer_ok st qs fs" and e: "e \<notin> set (qs @ fs)" "e < length (events st)"
    and v: "v = TIMESPEC_TO_TIMEVAL val" "valid_tv v" "timerisset v" "valid_tv (timerroundup v (g_granularity st))"
  shows "\<exists>st' qs'. timer_settime e interval val st = Some (Inr st') \<and> timer_ok st' qs' fs \<and>
    due_now st' qs' = insert_due (e, usec (timerroundup v (g_granularity st))) (due_now st qs)"
proof -
  let ?g = "g_granularity st"
  define st1 where "st1 = upd e (\<lambda>x. x\<lparr>it_value := timerroundup (it_value x) ?g\<rparr>)
    (block_timer (upd e (\<lambda>x. x\<lparr>it_interval := TIMESPEC_TO_TIMEVAL interval, it_value := v\<rparr>) st))"
  have ok1: "timer_ok st1 qs fs" and now1: "due_now st1 qs = due_now st qs"
    using ok e(1) by (simp_all add: st1_def timer_ok_other due_now_other)
  have e1: "it_value (ev st1 e) = timerroundup v ?g" "e < length (events st1)" "g_granularity st1 = ?g"
    using e(2) by (simp_all add: st1_def)
  define st2 where "st2 = refresh_head st1"
  note r = refresh_head_ok [OF ok1, folded st2_def]
  have e2: "ev st2 e = ev st1 e" "e < length (events st2)"
    using r(5) r(6) [of e] e1(2) e(1) by auto
  have val2: "valid_tv (it_value (ev st2 e))"
    using e1(1) e2(1) v(4) by simp
  obtain st3 qs' where l: "link_event e st2 = Some st3" "queue_ok st3 qs' fs" "e \<in> set qs'"
    "itimer st3 = itimer st2" "g_granularity st3 = g_granularity st2"
    "it_value (ev st3 (hd qs')) = it_value (ev st2 (hd qs'))" "hd qs' = e \<or> qs \<noteq> [] \<and> hd qs' = hd qs"
    "due (events st3) 0 qs' = insert_due (e, 0 + usec (it_value (ev st2 e))) (due (events st2) 0 qs)"
    using link_event_ok [OF r(1) e(1) e2(2) val2, of 0] by (elim exE conjE) (rule that)
  have g: "0 < ?g" "g_granularity st3 = ?g"
    using ok l(5) r(4) e1(3) by (simp_all add: timer_ok_def queue_ok_def)
  have chk: "check_event_queue st3 = Some (Inr ())"
    using l(2) queue_ok_length by (auto simp: queue_ok_def intro: check_event_queue_ok)
  have q3: "event_queue st3 = Some (hd qs')" "qs' \<noteq> []"
    using queue_head [OF l(2)] l(3) by auto
  define st4 where "st4 = (if hd qs' = e then reissue e st3 else st3)"
  have unf: "timer_settime e interval val st = (if hd qs' = e \<and> \<not> asserts_ok e st4 then Some (Inl Assertion)
      else Some (Inr (unblock_timer (upd e (\<lambda>x. x\<lparr>flags := flags x AND NOT TFLAG_CANCELLED\<rparr>) st4))))"
    using l(1) chk q3 e(2) v(1,3)
    by (simp add: timer_settime_def st4_def st2_def st1_def Let_def)
  have due3: "due (events st3) 0 qs' = insert_due (e, usec (timerroundup v ?g)) (due_now st qs)"
    using l(8) e1(1) e2(1) r(2) now1 by simp
  have "timer_ok st4 qs' fs \<and> due_now st4 qs' = due (events st3) 0 qs' \<and> (hd qs' = e \<longrightarrow> asserts_ok e st4)"
  proof (cases "hd qs' = e")
    case True
    have v3: "it_value (ev st3 e) = timerroundup v ?g"
      using True l(6) e1(1) e2(1) by simp
    then have st4: "st4 = setitimer (tv 0 0) (timerroundup v ?g) st3"
      using True reissue_same [of st3 e v] v(2) g by (simp add: st4_def)
    have pos: "0 < tv_sec (timerroundup v ?g) \<or> ?g \<le> tv_usec (timerroundup v ?g)"
      using timerroundup_pos [OF v(2) g(1)] .
    then show ?thesis
      using True st4 l(2) v(4) v3 g
      by (auto simp: timer_ok_def queue_ok_def setitimer_def due_now_def asserts_ok_def timerisset_def)
  next
    case False
    then have h: "qs \<noteq> []" "hd qs' = hd qs" "it_value (ev st3 (hd qs')) = itimer st3"
      using l(4,6,7) r(3,7) by auto
    then show ?thesis
      using False l(2,4) ok1 r(3) by (auto simp: st4_def timer_ok_def due_now_def)
  qed
  then show ?thesis
    using unf due3 by (auto simp: timer_ok_upd due_now_upd)
qed


subsection \<open>Expiry\<close>

lemma due_shift: "due es (t + s) qs = map (\<lambda>(q, u). (q, u + s)) (due es t qs)"
proof (induction qs arbitrary: t)
  case (Cons q qs)
  show ?case
    using Cons [of "t + usec (it_value (es ! q))"] by (simp add: ac_simps)
qed simp

text \<open>With a granularity of one microsecond, rounding only lifts a time of zero.\<close>

lemma reissue_ok:
  assumes "queue_ok st (h # rs) fs" "g_granularity st = 1"
  shows "timer_ok (reissue h st) (h # rs) fs" "asserts_ok h (reissue h st)"
    "due_now (reissue h st) (h # rs) = due (events st) (if usec (it_value (ev st h)) = 0 then 1 else 0) (h # rs)"
    "flags (ev (reissue h st) p) = flags (ev st p)"
proof -
  have h: "h < length (events st)" "h \<notin> set rs" "valid_tv (it_value (ev st h))"
    using assms(1) by (auto simp: queue_ok_def values_ok_def)
  let ?v = "timerroundup (it_value (ev st h)) 1"
  let ?s = "if usec (it_value (ev st h)) = 0 then 1 else 0 :: int"
  have v: "usec ?v = usec (it_value (ev st h)) + ?s" "valid_tv ?v"
    using timerroundup_1 [OF h(3)] by auto
  have set: "timerisset ?v"
    using v usec_nonneg [OF h(3)] by (auto simp: timerisset_usec)
  then have r: "reissue h st = setitimer (tv 0 0) ?v (upd h (\<lambda>x. x\<lparr>it_value := ?v\<rparr>) st)"
    using assms(2) h(1) by (simp add: reissue_def upd_def Let_def)
  have "values_ok ((events st)[h := (ev st h)\<lparr>it_value := ?v\<rparr>]) (set (h # rs))"
    using assms(1) h v(2) by (auto simp: queue_ok_def values_ok_def nth_list_update)
  then have "queue_ok (reissue h st) (h # rs) fs"
    using assms(1) by (simp add: r setitimer_def queue_ok_def linked_upd)
  then show "timer_ok (reissue h st) (h # rs) fs"
    using v(2) set h(1) by (simp add: timer_ok_def) (simp add: r setitimer_def)
  show "asserts_ok h (reissue h st)"
    using timerroundup_pos [OF h(3), of 1] assms(2) h(1)
    by (auto simp: asserts_ok_def r setitimer_def timerisset_def)
  show "due_now (reissue h st) (h # rs) = due (events st) ?s (h # rs)"
    using v(1) h(1,2) by (simp add: due_now_def r setitimer_def due_upd_value add.commute)
  show "flags (ev (reissue h st) p) = flags (ev st p)"
    by (simp add: r setitimer_def nth_upd_frame [of flags])
qed

text \<open>Taking the head off the queue.\<close>

lemma pop_ok:
  assumes "queue_ok st (p # qs) fs"
  defines "st' \<equiv> upd p (\<lambda>x. x\<lparr>next_ev := None\<rparr>) (st\<lparr>event_queue := next_ev (ev st p)\<rparr>)"
  shows "queue_ok st' qs fs" "due (events st') t qs = due (events st) t qs"
    "p \<notin> set (qs @ fs)" "p < length (events st')" "g_granularity st' = g_granularity st"
proof -
  have p: "p \<notin> set (qs @ fs)" "p < length (events st)" "linked (events st) (next_ev (ev st p)) qs"
    using assms(1) by (auto simp: queue_ok_def)
  have fr: "linked (events st') e rs = linked (events st) e rs" if "p \<notin> set rs" for e rs
    using that by (intro linked_frame) (auto simp: st'_def intro!: arg_cong [of _ _ next_ev] nth_list_update_neq)
  have "values_ok (events st') (set qs)"
    using assms(1) by (simp add: st'_def queue_ok_def values_ok_def nth_upd_frame [of it_value])
  then show "queue_ok st' qs fs"
    using assms(1) p fr [of qs] fr [of fs] by (simp add: queue_ok_def) (simp add: st'_def)
  show "due (events st') t qs = due (events st) t qs"
    using p(1) by (simp add: st'_def due_upd_value)
  show "p \<notin> set (qs @ fs)" "p < length (events st')" "g_granularity st' = g_granularity st"
    using p by (simp_all add: st'_def)
qed

lemma alarm_round_spec:
  assumes "queue_ok st (p # qs) fs" "g_granularity st = 1" "func (ev st p) = Some f"
    "flags (ev st p) AND TFLAG_CANCELLED = 0" "valid_tv (it_interval (ev st p))"
    "\<And>s. callback f p (arg (ev st p)) s = s"
  shows "\<exists>st' qs'. alarm_round callback p st = Some (Inr st') \<and> queue_ok st' qs' fs \<and>
    g_granularity st' = 1 \<and> itimer st' = itimer st \<and>
    due (events st') 0 qs' =
      (if timerisset (it_interval (ev st p))
       then insert_due (p, usec (it_interval (ev st p))) (due (events st) 0 qs)
       else due (events st) 0 qs)"
proof -
  define st1 where "st1 = upd p (\<lambda>x. x\<lparr>next_ev := None\<rparr>) (st\<lparr>event_queue := next_ev (ev st p)\<rparr>)"
  note pop = pop_ok [OF assms(1), folded st1_def]
  have p: "func (ev st1 p) = Some f" "flags (ev st1 p) AND TFLAG_CANCELLED = 0"
    "it_interval (ev st1 p) = it_interval (ev st p)" "arg (ev st1 p) = arg (ev st p)"
    using assms(1,3,4) by (simp_all add: st1_def queue_ok_def)
  have chk: "queue_ok s rs fs \<Longrightarrow> check_event_queue s = Some (Inr ())" for s rs
    using queue_ok_length [of s rs fs] by (auto simp: queue_ok_def intro: check_event_queue_ok)
  have unf: "alarm_round callback p st =
      (case func (ev st1 p) of
         None \<Rightarrow> Some (Inl NullCall)
       | Some f \<Rightarrow>
           let st = callback f p (arg (ev st1 p)) st1;
               r = (if flags (ev st p) AND TFLAG_CANCELLED = 0 \<and> timerisset (it_interval (ev st p))
                    then link_event p
                           (upd p (\<lambda>x. x\<lparr>it_value := timerroundup (it_interval x) (g_granularity st)\<rparr>) st)
                    else Some st)
           in case r of
                None \<Rightarrow> None
              | Some st \<Rightarrow> andthen (check_event_queue st) (\<lambda>_. Some (Inr st)))"
    by (simp only: alarm_round_def Let_def st1_def)
  show ?thesis
  proof (cases "timerisset (it_interval (ev st p))")
    case False
    then have "alarm_round callback p st = Some (Inr st1)"
      using p assms(6) chk [OF pop(1)] by (simp add: unf Let_def)
    moreover have "itimer st1 = itimer st"
      by (simp add: st1_def)
    ultimately show ?thesis
      using False pop(1,2,5) assms(2) by auto
  next
    case True
    define st2 where "st2 = upd p (\<lambda>x. x\<lparr>it_value := timerroundup (it_interval x) 1\<rparr>) st1"
    have v: "it_value (ev st2 p) = timerroundup (it_interval (ev st p)) 1" "p < length (events st2)"
      using p(3) pop(4) by (simp_all add: st2_def)
    have q2: "queue_ok st2 qs fs"
      using pop(1,3) by (simp add: st2_def queue_ok_other)
    have r1: "usec (timerroundup (it_interval (ev st p)) 1) = usec (it_interval (ev st p))"
      "valid_tv (timerroundup (it_interval (ev st p)) 1)"
      using timerroundup_1 [OF assms(5)] True assms(5) by (auto simp: timerisset_usec)
    obtain st' qs' where l: "link_event p st2 = Some st'" "queue_ok st' qs' fs"
      "g_granularity st' = g_granularity st2" "itimer st' = itimer st2"
      "due (events st') 0 qs' = insert_due (p, 0 + usec (it_value (ev st2 p))) (due (events st2) 0 qs)"
      using link_event_ok [OF q2 pop(3) v(2), of 0] r1(2) v(1) by auto
    have "alarm_round callback p st = Some (Inr st')"
      using p assms(2,6) True l(1) chk [OF l(2)] pop(5)
      by (simp add: unf st2_def [symmetric] Let_def)
    moreover have "itimer st2 = itimer st"
      by (simp add: st2_def st1_def)
    moreover have "due (events st2) 0 qs = due (events st) 0 qs"
      using pop(2,3) by (simp add: st2_def due_upd_value)
    ultimately show ?thesis
      using True l(2-5) v(1) r1(1) pop(5) assms(2) by (auto simp: st2_def)
  qed
qed

lemma alarm_handler_spec:
  assumes "queue_ok st (p # qs) fs" "g_granularity st = 1" "func (ev st p) = Some f"
    "flags (ev st p) AND TFLAG_CANCELLED = 0" "valid_tv (it_interval (ev st p))" "valid_tv (itimer st)"
    "\<And>s. callback f p (arg (ev st p)) s = s"
  defines "D \<equiv> (if timerisset (it_interval (ev st p))
       then insert_due (p, usec (it_interval (ev st p))) (due (events st) 0 qs)
       else due (events st) 0 qs)"
  shows "\<exists>st' qs' s. alarm_handler callback st = Some (Inr st') \<and> timer_ok st' qs' fs \<and> s \<in> {0, 1} \<and>
    due_now st' qs' = map (\<lambda>(q, t). (q, t + s)) D"
proof -
  have b: "queue_ok (block_timer st) (p # qs) fs" "g_granularity (block_timer st) = 1"
    "ev (block_timer st) p = ev st p"
    using assms(1,2) by simp_all
  obtain st1 qs' where r: "alarm_round callback p (block_timer st) = Some (Inr st1)" "queue_ok st1 qs' fs"
    "g_granularity st1 = 1" "due (events st1) 0 qs' = D" "itimer st1 = itimer st"
    using alarm_round_spec [OF b(1,2), of f callback] assms(3-5,7) by (auto simp: D_def)
  have loop: "alarm_loop callback p (block_timer st) = Some (Inr st1)"
  proof (cases qs')
    case Nil
    then show ?thesis
      using r queue_head [OF r(2)] by (simp add: alarm_loop.simps [of callback p])
  next
    case (Cons h rs)
    have "valid_tv (it_value (ev st1 h))"
      using r(2) Cons by (simp add: queue_ok_def values_ok_def)
    then have "\<not> timercmp_less (it_value (ev st1 h)) (tv 0 0)"
      by (simp add: timercmp_less_usec not_less)
    then show ?thesis
      using r queue_head [OF r(2)] Cons by (simp add: alarm_loop.simps [of callback p])
  qed
  have q: "event_queue (block_timer st) = Some p"
    using queue_head [OF b(1)] by simp
  show ?thesis
  proof (cases qs')
    case Nil
    then have "alarm_handler callback st = Some (Inr (unblock_timer st1))"
      using loop q queue_head [OF r(2)] by (simp add: alarm_handler_def)
    moreover have "valid_tv (itimer st1)"
      using r(5) assms(6) by simp
    ultimately show ?thesis
      using r(2,4) Nil by (intro exI [of _ "unblock_timer st1"] exI [of _ "[]"] exI [of _ 0])
        (simp add: timer_ok_def due_now_def D_def)
  next
    case (Cons h rs)
    have "alarm_handler callback st = Some (Inr (unblock_timer (reissue h st1)))"
      using loop q queue_head [OF r(2)] Cons by (simp add: alarm_handler_def)
    moreover note ri = reissue_ok [OF r(2) [unfolded Cons] r(3)]
    ultimately show ?thesis
      using r(4) Cons due_shift [of "events st1" 0 1 "h # rs"]
      by (intro exI [of _ "unblock_timer (reissue h st1)"] exI [of _ "h # rs"]
          exI [of _ "if usec (it_value (ev st1 h)) = 0 then 1 else 0"]) (auto simp: ri)
  qed
qed


subsection \<open>Cancelling, creating and deleting\<close>

lemma cancel_walk_reach:
  "linked (events st) (load_pp st pp) (us @ e # vs) \<Longrightarrow> e \<notin> set us \<Longrightarrow>
    cancel_walk e pp st = Some (cancel_here e (if us = [] then pp else Next (last us)) st)"
proof (induction us arbitrary: pp)
  case Nil
  then show ?case by (simp add: cancel_walk.simps [of e pp])
next
  case (Cons q us)
  then show ?case
    using Cons.IH [of "Next q"] by (simp add: cancel_walk.simps [of e pp])
qed

lemma cancel_walk_absent:
  "linked (events st) (load_pp st pp) qs \<Longrightarrow> e \<notin> set qs \<Longrightarrow> cancel_walk e pp st = Some (Inr st)"
proof (induction qs arbitrary: pp)
  case Nil
  then show ?case by (simp add: cancel_walk.simps [of e pp])
next
  case (Cons q qs)
  then show ?case
    using Cons.IH [of "Next q"] by (simp add: cancel_walk.simps [of e pp])
qed

lemma next_of:
  assumes "linked es h (us @ e # vs)"
  shows "next_ev (es ! e) = (if vs = [] then None else Some (hd vs))" "e < length es" "linked es (next_ev (es ! e)) vs"
    "h = Some (hd (us @ [e]))"
  using assms linked_head [of es "next_ev (es ! e)" vs] by (cases us; auto simp: linked_append)+

text \<open>The head is cancelled and another timer follows: the follower is given the time that has
  passed in addition to its own, and the interval timer is restarted with the sum.\<close>

lemma cancel_here_head:
  assumes "timer_ok st (e # n # rs) fs" "g_granularity st = 1"
  shows "\<exists>st'. cancel_here e Queue st = Inr st' \<and> timer_ok st' (n # rs) fs \<and>
    (\<forall>p. flags (ev st' p) = flags (ev st p)) \<and> next_ev (ev st' e) = None \<and> length (events st') = length (events st) \<and>
    (let s = usec (it_value (ev st e)) - usec (itimer st)
     in due_now st' (n # rs) =
       due (events st) (if s + usec (it_value (ev st n)) = 0 then 1 else s) (n # rs))"
proof -
  have q: "queue_ok st (e # n # rs) fs" and ti: "valid_tv (itimer st)" "usec (itimer st) \<le> usec (it_value (ev st e))"
    using assms(1) by (auto simp: timer_ok_def)
  have l: "e < length (events st)" "n < length (events st)" "next_ev (ev st e) = Some n"
    "event_queue st = Some e" "linked (events st) (next_ev (ev st n)) rs" "e \<noteq> n" "e \<notin> set rs" "n \<notin> set rs"
    "valid_tv (it_value (ev st e))" "valid_tv (it_value (ev st n))"
    using q by (auto simp: queue_ok_def values_ok_def)
  let ?a = "timersub (it_value (ev st e)) (itimer st)"
  let ?v = "timeradd (it_value (ev st n)) ?a"
  define st1 where "st1 = upd n (\<lambda>x. x\<lparr>it_value := ?v\<rparr>) (upd e (\<lambda>x. x\<lparr>it_value := ?a\<rparr>) st)"
  define st2 where "st2 = upd e (\<lambda>x. x\<lparr>next_ev := None\<rparr>) (st1\<lparr>event_queue := next_ev (ev st1 e)\<rparr>)"
  have va: "valid_tv ?a" "usec ?a = usec (it_value (ev st e)) - usec (itimer st)"
    using ti l(9) by (simp_all add: valid_timersub usec_timersub)
  have vv: "valid_tv ?v" "usec ?v = usec (it_value (ev st n)) + usec ?a"
    using va l(10) by (simp_all add: valid_timeradd usec_timeradd)
  have v1: "it_value (ev st1 n) = ?v" "it_value (ev st1 e) = ?a" "next_ev (ev st1 e) = Some n"
    using l by (simp_all add: st1_def nth_list_update)
  have "values_ok (events st1) (set (e # n # rs))"
    using q l va(1) vv(1) by (auto simp: st1_def queue_ok_def values_ok_def nth_list_update)
  then have q1: "queue_ok st1 (e # n # rs) fs"
    using q l(6) by (simp add: queue_ok_def) (simp add: st1_def linked_upd_same)
  note q2 = pop_ok [OF q1, folded st2_def]
  have g2: "g_granularity st2 = 1"
    using q2(5) assms(2) by (simp add: st1_def)
  have c: "cancel_here e Queue st = Inr (reissue n st2)"
    using l v1 reissue_ok(2) [OF q2(1) g2]
    by (simp add: cancel_here_def st2_def st1_def upd_def nth_list_update Let_def)
  have d: "due (events st2) t (n # rs) = due (events st) (t + usec ?a) (n # rs)" for t
  proof -
    have "due (events st1) t (n # rs) = due (events st) (t + usec ?a) (n # rs)"
      using l vv(2) by (simp add: st1_def due_upd_value nth_list_update ac_simps)
    then show ?thesis
      using q2(2) [of t] by (simp only:)
  qed
  have vn: "it_value (ev st2 n) = ?v"
    using l(6) v1(1) by (simp add: st2_def)
  let ?s = "if usec ?v = 0 then 1 else 0 :: int"
  have "due_now (reissue n st2) (n # rs) = due (events st) (?s + usec ?a) (n # rs)"
    using reissue_ok(3) [OF q2(1) g2, unfolded vn] d [of ?s] by (simp only:)
  moreover have "?s + usec ?a = (if usec ?a + usec (it_value (ev st n)) = 0 then 1 else usec ?a)"
    using vv(2) va usec_nonneg [OF va(1)] usec_nonneg [OF l(10)] by auto
  moreover have "flags (ev (reissue n st2) p) = flags (ev st p)" for p
    using reissue_ok(4) [OF q2(1) g2]
    by (simp add: st2_def st1_def nth_upd_frame [of flags])
  moreover have "next_ev (ev (reissue n st2) e) = None" "length (events (reissue n st2)) = length (events st)"
    using l(1,6) by (simp_all add: reissue_def setitimer_def st2_def st1_def Let_def)
  ultimately show ?thesis
    using c reissue_ok(1) [OF q2(1) g2] va(2) by (simp add: Let_def)
qed


text \<open>The only timer is cancelled: the interval timer is switched off.\<close>

lemma cancel_here_last:
  assumes "timer_ok st [e] fs"
  shows "\<exists>st'. cancel_here e Queue st = Inr st' \<and> timer_ok st' [] fs \<and>
    (\<forall>p. flags (ev st' p) = flags (ev st p)) \<and> next_ev (ev st' e) = None \<and> length (events st') = length (events st)"
proof -
  have q: "queue_ok st [e] fs"
    using assms by (simp add: timer_ok_def)
  have l: "e < length (events st)" "next_ev (ev st e) = None" "event_queue st = Some e"
    using q by (auto simp: queue_ok_def)
  define st2 where "st2 = upd e (\<lambda>x. x\<lparr>next_ev := None\<rparr>) (st\<lparr>event_queue := next_ev (ev st e)\<rparr>)"
  note q2 = pop_ok [OF q, folded st2_def]
  have "cancel_here e Queue st = Inr (setitimer (tv 0 0) (tv 0 0) st2)"
    using l by (simp add: cancel_here_def st2_def Let_def)
  moreover have "timer_ok (setitimer (tv 0 0) (tv 0 0) st2) [] fs"
    using q2(1) by (simp add: timer_ok_def queue_ok_def setitimer_def)
  ultimately show ?thesis
    using l(1) by (auto simp: setitimer_def st2_def nth_upd_frame [of flags])
qed

text \<open>Another timer than the head is cancelled: its predecessor is linked to its successor, no
  time is changed, and the interval timer is restarted with the full time of the head.\<close>

lemma cancel_here_inner:
  assumes "timer_ok st (us @ e # vs) fs" "us \<noteq> []" "g_granularity st = 1"
  shows "\<exists>st'. cancel_here e (Next (last us)) st = Inr st' \<and> timer_ok st' (us @ vs) fs \<and>
    (\<forall>p. flags (ev st' p) = flags (ev st p)) \<and> next_ev (ev st' e) = None \<and> length (events st') = length (events st) \<and>
    due_now st' (us @ vs) = due (events st) (if usec (it_value (ev st (hd us))) = 0 then 1 else 0) (us @ vs)"
proof -
  have q: "queue_ok st (us @ e # vs) fs"
    using assms(1) by (simp add: timer_ok_def)
  then have l: "linked (events st) (event_queue st) (us @ e # vs)" and d: "distinct (us @ e # vs @ fs)"
    by (auto simp: queue_ok_def)
  obtain us0 p where us: "us = us0 @ [p]"
    using assms(2) by (cases us rule: rev_cases) auto
  obtain h us1 where h: "us = h # us1"
    using assms(2) by (cases us) auto
  let ?m = "next_ev (ev st e)"
  have eq: "event_queue st = Some h" "h \<noteq> e"
    using next_of(4) [OF l] h d by auto
  define st1 where "st1 = upd p (\<lambda>x. x\<lparr>next_ev := ?m\<rparr>) st"
  define st2 where "st2 = upd e (\<lambda>x. x\<lparr>next_ev := None\<rparr>) st1"
  have len: "length (events st2) = length (events st)"
    by (simp add: st2_def st1_def)
  have p: "p < length (events st)" "e < length (events st)" "p \<noteq> e" "p \<notin> set us0"
    using l d us by (auto simp: linked_append seg_snoc)
  have same: "ev st2 x = ev st x" if "x \<noteq> p" "x \<noteq> e" for x
    using that by (simp add: st2_def st1_def)
  have seg0: "seg (events st) (event_queue st) us0 (Some p)" and lv: "linked (events st) ?m vs"
    using l us by (auto simp: linked_append seg_snoc)
  have "ev st2 x = ev st x" if "x \<in> set us0" for x
    using that p(4) d us by (intro same) auto
  then have "seg (events st2) (event_queue st) us0 (Some p)"
    using seg0 len by (simp add: seg_frame [of "events st2" "events st"])
  moreover have "next_ev (ev st2 p) = ?m"
    using p by (simp add: st2_def st1_def)
  ultimately have seg1: "seg (events st2) (event_queue st) us ?m"
    using us p(1) len by (simp add: seg_snoc)
  have fr: "linked (events st2) x ys = linked (events st) x ys" if "p \<notin> set ys" "e \<notin> set ys" for x ys
  proof -
    have "ev st2 x = ev st x" if "x \<in> set ys" for x
      using that \<open>p \<notin> set ys\<close> \<open>e \<notin> set ys\<close> by (intro same) auto
    then show ?thesis
      using len by (simp add: linked_frame [of "events st2" "events st"])
  qed
  have "linked (events st2) ?m vs"
    using lv fr [of vs] d us by simp
  moreover have "event_queue st2 = event_queue st"
    by (simp add: st2_def st1_def)
  ultimately have "linked (events st2) (event_queue st2) (us @ vs)"
    using seg1 by (auto simp only: linked_append)
  moreover have "linked (events st2) (event_freelist st2) fs"
    using q fr [of fs] d us by (auto simp: queue_ok_def st2_def st1_def)
  moreover have val: "it_value (ev st2 x) = it_value (ev st x)" for x
    by (simp add: st2_def st1_def nth_upd_frame [of it_value])
  ultimately have q2: "queue_ok st2 (us @ vs) fs"
    using q d len val by (auto simp: queue_ok_def values_ok_def) (simp_all add: st2_def st1_def)
  have g2: "g_granularity st2 = 1"
    using assms(3) by (simp add: st2_def st1_def)
  note ri = reissue_ok [OF q2 [unfolded h append_Cons] g2]
  have c: "cancel_here e (Next (last us)) st = Inr (reissue h st2)"
  proof -
    have "cancel_here e (Next p) st =
        (case event_queue st2 of
           Some h \<Rightarrow> let st = reissue h st2 in if asserts_ok h st then Inr st else Inl Assertion
         | None \<Rightarrow> Inr (setitimer (tv 0 0) (tv 0 0) st2))"
      using eq by (simp add: cancel_here_def st2_def st1_def Let_def split: option.splits)
    then show ?thesis
      using eq(1) ri(2) us by (simp add: st2_def st1_def Let_def)
  qed
  moreover have "due_now (reissue h st2) (us @ vs) =
      due (events st) (if usec (it_value (ev st (hd us))) = 0 then 1 else 0) (us @ vs)"
    using ri(3) val h due_frame [of "h # us1 @ vs" "events st2" "events st"] by simp
  moreover have "flags (ev (reissue h st2) x) = flags (ev st x)" for x
    using ri(4) by (simp add: st2_def st1_def nth_upd_frame [of flags])
  moreover have "next_ev (ev (reissue h st2) e) = None" "length (events (reissue h st2)) = length (events st)"
    using p(2) eq(2) by (simp_all add: reissue_def setitimer_def st2_def st1_def Let_def)
  ultimately show ?thesis
    using ri(1) h by auto
qed


text \<open>
  What \<^verbatim>\<open>timer_cancel\<close> does to the times of the other timers.  \<open>cancel_base\<close> is the moment
  the remaining list is counted from: after the head was cancelled, the time that had passed since
  it was started; otherwise now, although part of the head's time has passed already.
\<close>

definition cancel_base :: "timer_state \<Rightarrow> nat list \<Rightarrow> nat \<Rightarrow> nat list \<Rightarrow> int" where
  "cancel_base st us e vs =
     (let b = (if us = [] then usec (it_value (ev st e)) - usec (itimer st) else 0)
      in if b + usec (it_value (ev st (hd (us @ vs)))) = 0 then 1 else b)"

lemma timer_cancel_spec:
  assumes "timer_ok st (us @ e # vs) fs" "g_granularity st = 1" "flags (ev st e) AND TFLAG_CANCELLED = 0"
  shows "\<exists>st'. timer_cancel e st = Some (Inr st') \<and> timer_ok st' (us @ vs) fs \<and>
    flags (ev st' e) = flags (ev st e) OR TFLAG_CANCELLED \<and> next_ev (ev st' e) = None \<and>
    length (events st') = length (events st) \<and>
    (us @ vs \<noteq> [] \<longrightarrow> due_now st' (us @ vs) = due (events st) (cancel_base st us e vs) (us @ vs))"
proof -
  let ?b = "block_timer st"
  have lk: "linked (events ?b) (load_pp ?b Queue) (us @ e # vs)"
    using assms(1) by (simp add: timer_ok_def queue_ok_def)
  then have "e < length (events st)"
    using next_of(2) by auto
  moreover have "e \<notin> set us"
    using assms(1) by (simp add: timer_ok_def queue_ok_def)
  ultimately have ok: "timer_ok ?b (us @ e # vs) fs" "g_granularity ?b = 1" "e \<notin> set us" "e < length (events st)"
    using assms(1,2) by simp_all
  have "\<exists>st'. cancel_here e (if us = [] then Queue else Next (last us)) ?b = Inr st' \<and>
      timer_ok st' (us @ vs) fs \<and> flags (ev st' e) = flags (ev ?b e) \<and> next_ev (ev st' e) = None \<and>
      length (events st') = length (events ?b) \<and>
      (us @ vs \<noteq> [] \<longrightarrow> due_now st' (us @ vs) = due (events st) (cancel_base st us e vs) (us @ vs))"
  proof (cases "us = []")
    case True
    show ?thesis
    proof (cases vs)
      case Nil
      with True ok(1) cancel_here_last [of ?b e fs] show ?thesis by auto
    next
      case (Cons n rs)
      with True ok(1,2) cancel_here_head [of ?b e n rs fs] show ?thesis
        by (auto simp: cancel_base_def Let_def)
    qed
  next
    case False
    with ok(1,2) cancel_here_inner [of ?b us e vs fs] show ?thesis
      by (auto simp: cancel_base_def Let_def)
  qed
  then obtain st' where s: "cancel_here e (if us = [] then Queue else Next (last us)) ?b = Inr st'"
    "timer_ok st' (us @ vs) fs" "flags (ev st' e) = flags (ev st e)" "next_ev (ev st' e) = None"
    "length (events st') = length (events st)"
    "us @ vs \<noteq> [] \<longrightarrow> due_now st' (us @ vs) = due (events st) (cancel_base st us e vs) (us @ vs)"
    by auto
  let ?st = "unblock_timer (upd e (\<lambda>x. x\<lparr>flags := flags x OR TFLAG_CANCELLED\<rparr>) st')"
  have "timer_cancel e st = Some (Inr ?st)"
    using cancel_walk_reach [OF lk ok(3)] s(1) assms(3) by (simp add: timer_cancel_def)
  moreover have "flags (ev ?st e) = flags (ev st e) OR TFLAG_CANCELLED" "next_ev (ev ?st e) = None"
    "length (events ?st) = length (events st)"
    using s(3,4,5) ok(4) by (simp_all add: unblock_timer_def)
  ultimately show ?thesis
    using s(2,6) by (intro exI [of _ ?st]) (simp add: timer_ok_upd due_now_upd)
qed

lemma timer_create_spec:
  assumes "timer_ok st qs (p # fs)"
  shows "\<exists>st'. timer_create True None st = Some (Inr (p, st')) \<and> timer_ok st' qs fs \<and>
    due_now st' qs = due_now st qs \<and> p \<notin> set (qs @ fs) \<and> p < length (events st') \<and>
    flags (ev st' p) = TFLAG_NONE"
proof -
  define st1 where "st1 = upd p (\<lambda>e. e\<lparr>flags := TFLAG_NONE\<rparr>) st"
  define st2 where "st2 = upd p (\<lambda>e. e\<lparr>next_ev := None\<rparr>) (st1\<lparr>event_freelist := next_ev (ev st1 p)\<rparr>)"
  have q: "queue_ok st qs (p # fs)"
    using assms by (simp add: timer_ok_def)
  then have p: "event_freelist st = Some p" "p < length (events st)" "p \<notin> set (qs @ fs)"
    "linked (events st) (next_ev (ev st p)) fs"
    by (auto simp: queue_ok_def)
  have val: "it_value (ev st2 x) = it_value (ev st x)" for x
    using p(2) by (cases "x = p") (simp_all add: st2_def st1_def)
  have same: "ev st2 x = ev st x" if "x \<noteq> p" for x
    using that by (simp add: st2_def st1_def)
  have fr: "linked (events st2) e ys = linked (events st) e ys" if "p \<notin> set ys" for e ys
  proof (rule linked_frame)
    show "\<forall>q \<in> set ys. next_ev (ev st2 q) = next_ev (ev st q)"
      using that same by metis
  qed (simp add: st2_def st1_def)
  have "event_freelist st2 = next_ev (ev st p)" "event_queue st2 = event_queue st" "length (events st2) = length (events st)"
    "g_granularity st2 = g_granularity st" "g_maxevents st2 = g_maxevents st" "itimer st2 = itimer st"
    using p(2) by (simp_all add: st2_def st1_def)
  note f2 = this
  then have q2: "queue_ok st2 qs fs"
    using q p(3,4) fr [of qs] fr [of fs] val by (simp add: queue_ok_def values_ok_def)
  then have chk: "check_event_queue st2 = Some (Inr ())"
    using queue_ok_length [OF q2] by (auto simp: queue_ok_def intro: check_event_queue_ok)
  have "timer_create True None st = Some (Inr (p, st2))"
    using p(1) chk by (simp add: timer_create_def st1_def [symmetric] st2_def [symmetric] Let_def)
  moreover have "timer_ok st2 qs fs"
    using q2 assms val f2(6) by (simp add: timer_ok_def)
  moreover have "due_now st2 qs = due_now st qs"
    using val f2(6) due_frame [of qs "events st2" "events st"] by (simp add: due_now_def)
  moreover have "flags (ev st2 p) = TFLAG_NONE"
    using p(2) by (simp add: st2_def st1_def)
  ultimately show ?thesis
    using p(2,3) f2(3) by auto
qed

lemma timer_delete_spec:
  assumes "timer_ok st (us @ e # vs) fs" "g_granularity st = 1"
    "flags (ev st e) AND TFLAG_CANCELLED = 0" "flags (ev st e) AND TFLAG_DELETED = 0"
  shows "\<exists>st'. timer_delete e st = Some (Inr (0, st')) \<and> timer_ok st' (us @ vs) (e # fs)"
proof -
  obtain st1 where c: "timer_cancel e st = Some (Inr st1)" "timer_ok st1 (us @ vs) fs"
    "length (events st1) = length (events st)"
    using timer_cancel_spec [OF assms(1-3)] by auto
  have e: "e < length (events st)" "e \<notin> set (us @ vs @ fs)"
    using assms(1) next_of(2) [of "events st" "event_queue st" us e vs]
    by (auto simp: timer_ok_def queue_ok_def)
  define st2 where "st2 = upd e (\<lambda>x. x\<lparr>next_ev := event_freelist st1\<rparr>)
    (upd e (\<lambda>x. x\<lparr>flags := flags x OR TFLAG_DELETED\<rparr>) st1)"
  let ?st = "st2\<lparr>event_freelist := Some e\<rparr>"
  have same: "ev st2 x = ev st1 x" if "x \<noteq> e" for x
    using that by (simp add: st2_def)
  have fr: "linked (events st2) h ys = linked (events st1) h ys" if "e \<notin> set ys" for h ys
  proof (rule linked_frame)
    show "\<forall>q \<in> set ys. next_ev (ev st2 q) = next_ev (ev st1 q)"
      using that same by metis
  qed (simp add: st2_def)
  have val: "it_value (ev st2 x) = it_value (ev st1 x)" for x
    using e(1) c(3) by (cases "x = e") (simp_all add: st2_def)
  have f2: "event_queue st2 = event_queue st1" "length (events st2) = length (events st1)"
    "g_granularity st2 = g_granularity st1" "g_maxevents st2 = g_maxevents st1" "itimer st2 = itimer st1"
    "next_ev (ev st2 e) = event_freelist st1"
    using e(1) c(3) by (simp_all add: st2_def)
  have "queue_ok ?st (us @ vs) (e # fs)"
    using c(2,3) e fr [of "us @ vs"] fr [of fs] f2 val by (auto simp: timer_ok_def queue_ok_def values_ok_def)
  then have "timer_ok ?st (us @ vs) (e # fs)"
    using c(2) f2(5) val by (auto simp: timer_ok_def)
  moreover have "timer_delete e st = Some (Inr (0, ?st))"
    using c(1) assms(4) by (simp add: timer_delete_def st2_def Let_def)
  ultimately show ?thesis by blast
qed


subsection \<open>The fresh module\<close>

lemma linked_upto:
  assumes "length es = n" "\<forall>i < n. next_ev (es ! i) = (if i < n - 1 then Some (i + 1) else None)"
  shows "k < n \<Longrightarrow> linked es (Some k) [k..<n]"
proof (induction "n - k" arbitrary: k)
  case (Suc m)
  show ?case
  proof (cases "k + 1 < n")
    case True
    with Suc(1) [of "k + 1"] Suc(2,3) assms show ?thesis
      by (simp add: upt_conv_Cons)
  next
    case False
    with Suc(3) assms show ?thesis
      by (simp add: upt_conv_Cons)
  qed
qed simp

lemma init_event_queue_spec:
  assumes "0 < n" "int n \<le> (2 ^ 64 - 1) div 64" "event_queue st = None" "0 \<le> r"
  shows "\<exists>st'. init_event_queue True r (int n) st = (0, st') \<and> timer_ok st' [] [0..<n]"
proof -
  let ?es = "map (\<lambda>i. event0\<lparr>next_ev := (if i < n - 1 then Some (i + 1) else None)\<rparr>) [0..<n]"
  have "linked ?es (Some 0) [0..<n]"
    using assms(1) by (intro linked_upto) simp_all
  with assms show ?thesis
    by (simp add: init_event_queue_def timer_ok_def queue_ok_def setitimer_def values_ok_def Let_def)
qed

subsection \<open>Properties\<close>

text \<open>C11: \<^verbatim>\<open>timer_settime\<close> on a timer that is not armed always returns, keeps both lists well
  formed, and arms exactly that timer: measured from now, every timer that was armed is due when it
  was due before, and the new one, after rounding up to the granularity, is due at its own time and
  stands after those that are due no later.  This holds at every moment of the head's countdown.\<close>

theorem timer_settime_correct:
  assumes "timer_ok st qs fs" "e \<notin> set (qs @ fs)" "e < length (events st)"
    "v = TIMESPEC_TO_TIMEVAL val" "valid_tv v" "timerisset v" "valid_tv (timerroundup v (g_granularity st))"
  shows "\<exists>st' qs'. timer_settime e interval val st = Some (Inr st') \<and> timer_ok st' qs' fs \<and>
    due_now st' qs' = insert_due (e, usec (timerroundup v (g_granularity st))) (due_now st qs)"
  using timer_settime_spec [OF assms] .

text \<open>A state with two armed timers: the first, recurring, has 1.5 of its 2 seconds left, the second
  follows it by 3 seconds; timer 2 is created and not armed, timer 3 is free.\<close>

definition sample_state :: timer_state where
  "sample_state =
     \<lparr>events = [event0\<lparr>it_value := tv 2 0, it_interval := tv 4 0, func := Some 7, next_ev := Some 1\<rparr>,
                event0\<lparr>it_value := tv 3 0\<rparr>, event0, event0],
      event_queue = Some 0, event_freelist = Some 3, g_granularity = 1, g_maxevents = 4,
      block_count = 0, itimer = tv 1 500000, itimer_interval = tv 0 0\<rparr>"

lemma sample_timer_ok: "timer_ok sample_state [0, 1] [3]"
  by (simp add: timer_ok_def queue_ok_def sample_state_def event0_def values_ok_def valid_tv_def
      timerisset_def)

theorem timer_settime_correct_witness:
  "\<exists>st' qs'. timer_settime 2 \<lparr>ts_sec = 0, ts_nsec = 0\<rparr> \<lparr>ts_sec = 2, ts_nsec = 0\<rparr> sample_state = Some (Inr st') \<and>
    timer_ok st' qs' [3] \<and>
    due_now st' qs' = insert_due (2, usec (timerroundup (tv 2 0) (g_granularity sample_state)))
      (due_now sample_state [0, 1])"
  by (rule timer_settime_correct [OF sample_timer_ok])
    (simp_all add: TIMESPEC_TO_TIMEVAL_def valid_tv_def timerisset_def timerroundup_def sample_state_def)

text \<open>C25: the alarm handler, with the granularity of one microsecond and a callback that leaves the
  timers alone, ends after one round, takes the expired timer off the queue and puts a recurring one
  back in at its interval; every other timer keeps its time, up to the one microsecond by which a
  time of zero is lifted so that the interval timer does not stop.\<close>

theorem alarm_handler_correct:
  assumes "queue_ok st (p # qs) fs" "g_granularity st = 1" "func (ev st p) = Some f"
    "flags (ev st p) AND TFLAG_CANCELLED = 0" "valid_tv (it_interval (ev st p))" "valid_tv (itimer st)"
    "\<And>s. callback f p (arg (ev st p)) s = s"
  shows "\<exists>st' qs' s. alarm_handler callback st = Some (Inr st') \<and> timer_ok st' qs' fs \<and> s \<in> {0, 1} \<and>
    due_now st' qs' = map (\<lambda>(q, t). (q, t + s))
      (if timerisset (it_interval (ev st p))
       then insert_due (p, usec (it_interval (ev st p))) (due (events st) 0 qs)
       else due (events st) 0 qs)"
  using alarm_handler_spec [where callback = callback, OF assms(1-6)] assms(7) by blast

theorem alarm_handler_correct_witness:
  "\<exists>st' qs' s. alarm_handler (\<lambda>f p a s. s) sample_state = Some (Inr st') \<and> timer_ok st' qs' [3] \<and> s \<in> {0, 1} \<and>
    due_now st' qs' = map (\<lambda>(q, t). (q, t + s))
      (if timerisset (it_interval (ev sample_state 0))
       then insert_due (0, usec (it_interval (ev sample_state 0))) (due (events sample_state) 0 [1])
       else due (events sample_state) 0 [1])"
  by (rule alarm_handler_correct [of _ _ _ _ 7])
    (use sample_timer_ok in \<open>simp_all add: timer_ok_def sample_state_def event0_def valid_tv_def\<close>)

text \<open>\<^verbatim>\<open>timer_cancel\<close> takes an armed timer off the queue and leaves the lists well formed,
  but it does not keep the times of the others.  When the head is cancelled, what is added to its
  successor is the time that has passed, not the time that was left; when another timer is
  cancelled, the times after it move forward by its own, and the head starts over with its full
  time.  The theorem gives the new times exactly.\<close>

theorem timer_cancel_times:
  assumes "timer_ok st (us @ e # vs) fs" "us @ vs \<noteq> []" "g_granularity st = 1"
    "flags (ev st e) AND TFLAG_CANCELLED = 0"
  shows "\<exists>st'. timer_cancel e st = Some (Inr st') \<and> timer_ok st' (us @ vs) fs \<and>
    due_now st' (us @ vs) = due (events st) (cancel_base st us e vs) (us @ vs)"
  using timer_cancel_spec [OF assms(1,3,4)] assms(2) by blast

theorem timer_cancel_times_witness:
  "(\<exists>st'. timer_cancel 0 sample_state = Some (Inr st') \<and> timer_ok st' ([] @ [1]) [3] \<and>
    due_now st' ([] @ [1]) = due (events sample_state) (cancel_base sample_state [] 0 [1]) ([] @ [1])) \<and>
   due_now sample_state [0, 1] = [(0, 1500000), (1, 4500000)] \<and>
   due (events sample_state) (cancel_base sample_state [] 0 [1]) ([] @ [1]) = [(1, 3500000)]"
proof -
  have "\<exists>st'. timer_cancel 0 sample_state = Some (Inr st') \<and> timer_ok st' ([] @ [1]) [3] \<and>
    due_now st' ([] @ [1]) = due (events sample_state) (cancel_base sample_state [] 0 [1]) ([] @ [1])"
    by (rule timer_cancel_times)
      (use sample_timer_ok in \<open>simp_all add: sample_state_def event0_def\<close>)
  then show ?thesis
    by (simp add: due_now_def cancel_base_def sample_state_def event0_def)
qed

text \<open>Creating and deleting a timer keep the lists well formed and disjoint: a timer that
  \<^verbatim>\<open>timer_create\<close> hands out is on neither list and no armed timer's time changes; an armed
  timer that \<^verbatim>\<open>timer_delete\<close> is given ends at the head of the free list.  With no free timer
  left, \<^verbatim>\<open>timer_create\<close> stops at its assertion.\<close>

theorem timer_create_delete:
  assumes "timer_ok st qs (p # fs)" "timer_ok st2 (us @ e # vs) fs2" "g_granularity st2 = 1"
    "flags (ev st2 e) AND TFLAG_CANCELLED = 0" "flags (ev st2 e) AND TFLAG_DELETED = 0"
    "event_freelist st3 = None"
  shows "(\<exists>st'. timer_create True None st = Some (Inr (p, st')) \<and> timer_ok st' qs fs \<and>
      due_now st' qs = due_now st qs \<and> p \<notin> set (qs @ fs)) \<and>
    (\<exists>st'. timer_delete e st2 = Some (Inr (0, st')) \<and> timer_ok st' (us @ vs) (e # fs2)) \<and>
    timer_create True None st3 = Some (Inl Assertion)"
  using timer_create_spec [OF assms(1)] timer_delete_spec [OF assms(2-5)] assms(6)
  by (auto simp: timer_create_def)

theorem timer_create_delete_witness:
  "(\<exists>st'. timer_create True None sample_state = Some (Inr (3, st')) \<and> timer_ok st' [0, 1] [] \<and>
      due_now st' [0, 1] = due_now sample_state [0, 1] \<and> 3 \<notin> set ([0, 1] @ [] :: nat list)) \<and>
    (\<exists>st'. timer_delete 1 sample_state = Some (Inr (0, st')) \<and> timer_ok st' ([0] @ []) [1, 3]) \<and>
    timer_create True None (sample_state\<lparr>event_freelist := None\<rparr>) = Some (Inl Assertion)"
  by (rule timer_create_delete)
    (use sample_timer_ok in \<open>simp_all add: sample_state_def event0_def\<close>)

text \<open>A module initialised for \<open>n\<close> timers starts with an empty queue and all \<open>n\<close> timers, each
  once, on the free list.\<close>

theorem init_event_queue_correct:
  assumes "0 < n" "int n \<le> (2 ^ 64 - 1) div 64" "event_queue st = None" "0 \<le> r"
  shows "\<exists>st'. init_event_queue True r (int n) st = (0, st') \<and> timer_ok st' [] [0..<n]"
  using init_event_queue_spec [OF assms] .

theorem init_event_queue_correct_witness:
  "\<exists>st'. init_event_queue True 1 (int 8) (sample_state\<lparr>event_queue := None\<rparr>) = (0, st') \<and>
    timer_ok st' [] [0..<8]"
  by (rule init_event_queue_correct) simp_all

end
