(* ===== verification/Nvram.thy ===== *)
theory Nvram
  imports Prelude
begin

section \<open>The NVRAM utility and its configuration profiles\<close>

text \<open>
  \<^verbatim>\<open>nvram/nvram/main.c\<close>.  \<^verbatim>\<open>nvram save\<close> writes all variables to a profile: a header
  \<^verbatim>\<open>HDR2\<close>, the length of the body in three bytes, an offset, and the body, in which every
  byte is mirrored and shifted by the offset and every terminating NUL is one of the bytes 0xfd to
  0xff.  \<^verbatim>\<open>nvram restore\<close> reads that format and the plain format \<^verbatim>\<open>HDR1\<close>.

  Memory is a list of bytes and a pointer into it an offset; reading past the end of the memory is
  the error \<open>BUF_OVERRUN\<close>, which the code does not check for.  \<^verbatim>\<open>/dev/urandom\<close> is a function
  from the number of the read to the byte.  A file is its contents, \<open>None\<close> when it cannot be opened;
  \<open>room\<close> is how many bytes can be written before a write fails.
\<close>

subsection \<open>Writing a profile\<close>

definition MAX_NVRAM_SPACE :: nat where
  "MAX_NVRAM_SPACE = 0x100000"

definition PROFILE_ALIGN :: nat where
  "PROFILE_ALIGN = 1024"

definition PROFILE_HEADER :: "u8 list" where
  "PROFILE_HEADER = map byte_of ''HDR1''"

definition PROFILE_HEADER_NEW :: "u8 list" where
  "PROFILE_HEADER_NEW = map byte_of ''HDR2''"

datatype cfg_error = INFILE_NOT_READABLE | OUTFILE_NOT_WRITABLE | INVALID_CFG_FORMAT | BUF_OVERRUN

definition read_le32 :: "u8 list \<Rightarrow> u32" where
  "read_le32 p = ucast (p ! 0) OR push_bit 8 (ucast (p ! 1)) OR push_bit 16 (ucast (p ! 2))
     OR push_bit 24 (ucast (p ! 3))"

definition read_le24 :: "u8 list \<Rightarrow> u32" where
  "read_le24 p = ucast (p ! 0) OR push_bit 8 (ucast (p ! 1)) OR push_bit 16 (ucast (p ! 2))"

definition strlen_at :: "u8 list \<Rightarrow> nat \<Rightarrow> nat" where
  "strlen_at buf p = length (takeWhile (\<lambda>b. b \<noteq> 0) (drop p buf))"

text \<open>The loop that adds up the lengths of the strings from \<open>p\<close>.\<close>

function save_count :: "u8 list \<Rightarrow> nat \<Rightarrow> nat \<Rightarrow> cfg_error + nat" where
  "save_count buf p count =
     (if length buf \<le> p then Inl BUF_OVERRUN
      else if buf ! p = 0 then Inr count
      else
        let len = strlen_at buf p
        in if length buf \<le> p + len then Inl BUF_OVERRUN
           else if MAX_NVRAM_SPACE - (len + 1) < count then Inl INVALID_CFG_FORMAT
           else save_count buf (p + len + 1) (count + len + 1))"
  by pat_completeness auto
termination
  by (relation "measure (\<lambda>(buf, p, count). length buf - p)") auto

declare save_count.simps [simp del]

text \<open>The loop that draws the offset; \<open>k\<close> is the number of the next random byte.\<close>

partial_function (option) pick_rand :: "(nat \<Rightarrow> u8) \<Rightarrow> nat \<Rightarrow> (u8 \<times> nat) option" where
  "pick_rand rnd k =
     (let rand = rnd k mod 30
      in if 7 < rand \<and> rand < 14 then pick_rand rnd (k + 1) else Some (rand, k + 1))"

fun enc_bytes :: "(nat \<Rightarrow> u8) \<Rightarrow> nat \<Rightarrow> u8 \<Rightarrow> u8 list \<Rightarrow> u8 list \<times> nat" where
  "enc_bytes rnd k rand [] = ([], k)"
| "enc_bytes rnd k rand (c # cs) =
     (if c = 0 then (let (out, k') = enc_bytes rnd (k + 1) rand cs in ((0xfd + rnd k mod 3) # out, k'))
      else (let (out, k') = enc_bytes rnd k rand cs in ((0xff - c + rand) # out, k')))"

definition pad_bytes :: "(nat \<Rightarrow> u8) \<Rightarrow> nat \<Rightarrow> nat \<Rightarrow> u8 list" where
  "pad_bytes rnd k n = map (\<lambda>i. 0xfd + rnd (k + i) mod 3) [0..<n]"

definition align :: "nat \<Rightarrow> nat" where
  "align count = (count + (PROFILE_ALIGN - 1)) div PROFILE_ALIGN * PROFILE_ALIGN"

text \<open>
  \<^verbatim>\<open>nvram_save_new\<close>: the error, if any, and what the file holds afterwards (\<open>None\<close> if it was
  not opened).  The outer \<open>None\<close> is that no offset is ever drawn.
\<close>

definition nvram_save_new ::
  "bool \<Rightarrow> nat \<Rightarrow> (nat \<Rightarrow> u8) \<Rightarrow> u8 list \<Rightarrow> (cfg_error option \<times> u8 list option) option" where
  "nvram_save_new open_ok room rnd buf =
     (if \<not> open_ok then Some (Some OUTFILE_NOT_WRITABLE, None)
      else case save_count buf 0 0 of
        Inl e \<Rightarrow> Some (Some e, Some [])
      | Inr count \<Rightarrow>
          let filelen = align count
          in case pick_rand rnd 0 of
               None \<Rightarrow> None
             | Some (rand, k) \<Rightarrow>
                 let (outbuf, k) = enc_bytes rnd k rand (take count buf);
                     file = PROFILE_HEADER_NEW
                       @ [of_nat (filelen mod 256), of_nat (filelen div 256 mod 256),
                          of_nat (filelen div 65536 mod 256), rand]
                       @ outbuf @ pad_bytes rnd k (filelen - count)
                 in if room < length file then Some (Some OUTFILE_NOT_WRITABLE, Some (take room file))
                    else Some (None, Some file))"

subsection \<open>Reading a profile\<close>

text \<open>The decoding loop; \<open>prev\<close> is the byte before, already decoded, \<open>None\<close> at index 0.\<close>

fun dec_loop :: "u8 \<Rightarrow> u8 option \<Rightarrow> u8 list \<Rightarrow> u8 list" where
  "dec_loop rand prev [] = []"
| "dec_loop rand prev (b # bs) =
     (let b' = (if 0xfd \<le> b
                then (case prev of None \<Rightarrow> b | Some q \<Rightarrow> if q \<noteq> 0 then 0 else b)
                else 0xff + rand - b)
      in b' # dec_loop rand (Some b') bs)"

datatype cmd = Set string string | Unset string

definition cmd_of :: "u8 list \<Rightarrow> cmd" where
  "cmd_of s =
     (let t = map char_of_byte s
      in case strchr t CHR ''='' of
           None \<Rightarrow> Unset t
         | Some v \<Rightarrow> Set (take v t) (drop (v + 1) t))"

text \<open>
  The loop over the decoded buffer from \<open>p\<close>.  The NUL that it writes over an equals sign lies before
  every later \<open>p\<close>, so the buffer can stay as it is.
\<close>

function parse_loop :: "u8 list \<Rightarrow> nat \<Rightarrow> cfg_error + cmd list" where
  "parse_loop buf p =
     (if length buf \<le> p then Inl BUF_OVERRUN
      else if buf ! p = 0 then Inr []
      else if buf ! p < 32 \<or> 127 < buf ! p then parse_loop buf (p + 1)
      else
        let len = strlen_at buf p
        in if length buf \<le> p + len then Inl BUF_OVERRUN
           else case parse_loop buf (p + len + 1) of
                  Inl e \<Rightarrow> Inl e
                | Inr cmds \<Rightarrow> Inr (cmd_of (take len (drop p buf)) # cmds))"
  by pat_completeness auto
termination
  by (relation "measure (\<lambda>(buf, p). length buf - p)") auto

declare parse_loop.simps [simp del]

text \<open>
  What \<^verbatim>\<open>nvram_restore_new\<close> does with a file: the error, or the variables it sets and unsets in
  order.  \<open>old\<close> is what the buffer held before; its length is \<^verbatim>\<open>buflen\<close>.
\<close>

definition nvram_restore_new :: "u8 list option \<Rightarrow> u8 list \<Rightarrow> cfg_error + cmd list" where
  "nvram_restore_new file old =
     (if length old < 2 then Inl INVALID_CFG_FORMAT
      else case file of
        None \<Rightarrow> Inl INFILE_NOT_READABLE
      | Some bytes \<Rightarrow>
          let header = take 8 bytes; body = drop 8 bytes
          in if length header < 8 then Inl INVALID_CFG_FORMAT
             else if take 4 header = PROFILE_HEADER then
               let filelen = unat (read_le32 (drop 4 header))
               in if filelen = 0 \<or> length old \<le> filelen then Inl INVALID_CFG_FORMAT
                  else if length body < filelen then Inl INVALID_CFG_FORMAT
                  else parse_loop (take filelen body @ [0] @ drop (filelen + 1) old) 0
             else if take 4 header = PROFILE_HEADER_NEW then
               let filelen = unat (read_le24 (drop 4 header)); rand = header ! 7
               in if filelen = 0 \<or> length old \<le> filelen then Inl INVALID_CFG_FORMAT
                  else if length body < filelen then Inl INVALID_CFG_FORMAT
                  else parse_loop (dec_loop rand None (take filelen body) @ [0] @ drop (filelen + 1) old) 0
             else Inl INVALID_CFG_FORMAT)"

fun apply_cmd :: "cmd \<Rightarrow> nvram \<Rightarrow> nvram" where
  "apply_cmd (Set n v) nv = nv(n := Some v)"
| "apply_cmd (Unset n) nv = nv(n := None)"

fun cmd_line :: "cmd \<Rightarrow> string" where
  "cmd_line (Set n v) = n @ ''='' @ v @ [CHR 0x0A]"
| "cmd_line (Unset n) = n @ ''='' @ [CHR 0x0A]"

text \<open>\<^verbatim>\<open>nvram_restore_to_file\<close>: the text it writes; its length is the returned byte count.\<close>

definition nvram_restore_to_file :: "u8 list option \<Rightarrow> bool \<Rightarrow> u8 list \<Rightarrow> cfg_error + string" where
  "nvram_restore_to_file file out_ok old =
     (if \<not> out_ok then Inl OUTFILE_NOT_WRITABLE
      else case nvram_restore_new file old of
        Inl e \<Rightarrow> Inl e
      | Inr cmds \<Rightarrow> Inr (concat (map cmd_line cmds)))"


subsection \<open>The command line\<close>

text \<open>
  \<^verbatim>\<open>main\<close>: the variables, the files, the shared buffer, what was printed and whether a commit
  was asked for.  \<open>getall\<close> is the device's listing of the variables, \<open>erase\<close> the exit code and the
  effect of the \<^verbatim>\<open>nvram_erase\<close> program.  \<open>None\<close> is a run that reads past its buffer or never
  ends; \<^verbatim>\<open>usage\<close> exits with code 1.
\<close>

record tool =
  tvars :: nvram
  tfiles :: "string \<Rightarrow> u8 list option"
  tbuf :: "u8 list"
  printed :: "string list"
  commits :: nat

record tool_env =
  getall :: "nvram \<Rightarrow> u8 list"
  erase :: "nvram \<Rightarrow> int \<times> nvram"
  writable :: "string \<Rightarrow> bool"
  env_room :: nat
  env_random :: "nat \<Rightarrow> u8"

definition print_error :: "cfg_error option \<Rightarrow> int" where
  "print_error rv = (if rv = None then 0 else 1)"

definition set_arg :: "string \<Rightarrow> nvram \<Rightarrow> nvram" where
  "set_arg a nv =
     (let a = strlcpy a MAX_NVRAM_SPACE
      in case strchr a CHR ''='' of
           None \<Rightarrow> nv(a := None)
         | Some k \<Rightarrow> nv(take k a := Some (drop (k + 1) a)))"

function strings_at :: "u8 list \<Rightarrow> nat \<Rightarrow> (string list \<times> nat) option" where
  "strings_at b p =
     (if length b \<le> p then None
      else if b ! p = 0 then Some ([], p)
      else map_option (\<lambda>(ss, e). (map char_of_byte (take (strlen_at b p) (drop p b)) # ss, e))
             (strings_at b (p + strlen_at b p + 1)))"
  by pat_completeness auto
termination
  by (relation "measure (\<lambda>(b, p). length b - p)") auto

declare strings_at.simps [simp del]

definition load_buf :: "u8 list \<Rightarrow> u8 list \<Rightarrow> u8 list" where
  "load_buf new old = new @ drop (length new) old"

text \<open>
  One round of the argument loop on the command \<open>a\<close> with the arguments after it: go on with the rest,
  leave with an exit code, or \<open>Undef\<close>.  A command whose argument is missing is \<open>Undef\<close>: the loop then
  steps over the NULL at the end of \<^verbatim>\<open>argv\<close> and reads what lies behind.
\<close>

datatype main_step = Go "string list" int tool | Leave int tool | Undef

definition do_get :: "string list \<Rightarrow> int \<Rightarrow> tool \<Rightarrow> main_step" where
  "do_get args ret t =
     (case args of
        [] \<Rightarrow> Undef
      | n # args \<Rightarrow>
          let v = nvram_safe_get (tvars t) n
          in Go args ret (if v \<noteq> [] then t\<lparr>printed := printed t @ [v]\<rparr> else t))"

definition do_set :: "string list \<Rightarrow> int \<Rightarrow> tool \<Rightarrow> main_step" where
  "do_set args ret t =
     (case args of
        [] \<Rightarrow> Undef
      | n # args \<Rightarrow>
          Go args ret
            (t\<lparr>tvars := set_arg n (tvars t),
               tbuf := load_buf (map byte_of (strlcpy n MAX_NVRAM_SPACE) @ [0]) (tbuf t)\<rparr>))"

definition do_unset :: "string list \<Rightarrow> int \<Rightarrow> tool \<Rightarrow> main_step" where
  "do_unset args ret t =
     (case args of
        [] \<Rightarrow> Undef
      | n # args \<Rightarrow> Go args ret (t\<lparr>tvars := (tvars t)(n := None)\<rparr>))"

definition do_save :: "tool_env \<Rightarrow> string list \<Rightarrow> int \<Rightarrow> tool \<Rightarrow> main_step" where
  "do_save env args ret t =
     (case args of
        [] \<Rightarrow> Undef
      | f # args \<Rightarrow>
          let t = t\<lparr>tbuf := load_buf (getall env (tvars t)) (tbuf t)\<rparr>
          in case nvram_save_new (writable env f) (env_room env) (env_random env) (tbuf t) of
               None \<Rightarrow> Undef
             | Some (e, content) \<Rightarrow>
                 let t = (case content of None \<Rightarrow> t | Some c \<Rightarrow> t\<lparr>tfiles := (tfiles t)(f := Some c)\<rparr>)
                 in if e = Some BUF_OVERRUN then Undef
                    else if e \<noteq> None then Leave (print_error e) t
                    else Go args ret t)"

definition do_restore :: "string list \<Rightarrow> int \<Rightarrow> tool \<Rightarrow> main_step" where
  "do_restore args ret t =
     (case args of
        [] \<Rightarrow> Undef
      | f # args \<Rightarrow>
          (case nvram_restore_new (tfiles t f) (tbuf t) of
             Inl e \<Rightarrow> if e = BUF_OVERRUN then Undef else Leave (print_error (Some e)) t
           | Inr cmds \<Rightarrow> Go args ret (t\<lparr>tvars := fold apply_cmd cmds (tvars t)\<rparr>)))"

definition do_show :: "tool_env \<Rightarrow> string list \<Rightarrow> int \<Rightarrow> tool \<Rightarrow> main_step" where
  "do_show env args ret t =
     (let t = t\<lparr>tbuf := load_buf (getall env (tvars t)) (tbuf t)\<rparr>
      in case strings_at (tbuf t) 0 of
           None \<Rightarrow> Undef
         | Some (ss, e) \<Rightarrow> Go args ret (t\<lparr>printed := printed t @ ss\<rparr>))"

definition do_convert :: "tool_env \<Rightarrow> string list \<Rightarrow> int \<Rightarrow> tool \<Rightarrow> main_step" where
  "do_convert env args ret t =
     (case args of
        f # g # args \<Rightarrow>
          (case nvram_restore_to_file (tfiles t f) (writable env g) (tbuf t) of
             Inl e \<Rightarrow>
               if e = BUF_OVERRUN then Undef
               else Go args (print_error (Some e))
                      (if writable env g then t\<lparr>tfiles := (tfiles t)(g := Some [])\<rparr> else t)
           | Inr txt \<Rightarrow>
               Go args (print_error None) (t\<lparr>tfiles := (tfiles t)(g := Some (map byte_of txt))\<rparr>))
      | _ \<Rightarrow> Undef)"

definition main_round :: "tool_env \<Rightarrow> string \<Rightarrow> string list \<Rightarrow> int \<Rightarrow> tool \<Rightarrow> main_step" where
  "main_round env a args ret t =
     (if a = ''get'' then do_get args ret t
      else if a = ''set'' then do_set args ret t
      else if a = ''unset'' then do_unset args ret t
      else if a = ''commit'' then Go args ret (t\<lparr>commits := commits t + 1\<rparr>)
      else if a = ''save'' then do_save env args ret t
      else if a = ''restore'' then do_restore args ret t
      else if a = ''erase'' then (let (r, nv) = erase env (tvars t) in Go args r (t\<lparr>tvars := nv\<rparr>))
      else if a = ''show'' \<or> a = ''dump'' then do_show env args ret t
      else if a = ''convert'' then do_convert env args ret t
      else Leave 1 t)"

lemma do_shorter:
  "do_get args ret t = Go args' ret' t' \<Longrightarrow> length args' \<le> length args"
  "do_set args ret t = Go args' ret' t' \<Longrightarrow> length args' \<le> length args"
  "do_unset args ret t = Go args' ret' t' \<Longrightarrow> length args' \<le> length args"
  "do_save env args ret t = Go args' ret' t' \<Longrightarrow> length args' \<le> length args"
  "do_restore args ret t = Go args' ret' t' \<Longrightarrow> length args' \<le> length args"
  "do_show env args ret t = Go args' ret' t' \<Longrightarrow> length args' \<le> length args"
proof -
  show "do_get args ret t = Go args' ret' t' \<Longrightarrow> length args' \<le> length args"
    by (cases args) (simp_all add: do_get_def Let_def)
  show "do_set args ret t = Go args' ret' t' \<Longrightarrow> length args' \<le> length args"
    by (cases args) (simp_all add: do_set_def)
  show "do_unset args ret t = Go args' ret' t' \<Longrightarrow> length args' \<le> length args"
    by (cases args) (simp_all add: do_unset_def)
  show "do_save env args ret t = Go args' ret' t' \<Longrightarrow> length args' \<le> length args"
    by (cases args) (simp_all add: do_save_def Let_def split: option.splits prod.splits if_splits)
  show "do_restore args ret t = Go args' ret' t' \<Longrightarrow> length args' \<le> length args"
    by (cases args) (simp_all add: do_restore_def split: sum.splits if_splits)
  show "do_show env args ret t = Go args' ret' t' \<Longrightarrow> length args' \<le> length args"
    by (simp add: do_show_def Let_def split: option.splits prod.splits)
qed

lemma do_convert_shorter: "do_convert env args ret t = Go args' ret' t' \<Longrightarrow> length args' \<le> length args"
  by (cases args; cases "tl args") (simp_all add: do_convert_def split: sum.splits if_splits)

lemma if_eqE: "(if c then x else y) = z \<Longrightarrow> (x = z \<Longrightarrow> P) \<Longrightarrow> (y = z \<Longrightarrow> P) \<Longrightarrow> P"
  by (simp split: if_splits)

lemma main_round_shorter: "main_round env a args ret t = Go args' ret' t' \<Longrightarrow> length args' \<le> length args"
  unfolding main_round_def
  by (elim if_eqE) (auto dest: do_shorter do_convert_shorter split: prod.splits)

function main_loop :: "tool_env \<Rightarrow> string list \<Rightarrow> int \<Rightarrow> tool \<Rightarrow> (int \<times> tool) option" where
  "main_loop env [] ret t = Some (ret, t)"
| "main_loop env (a # args) ret t =
     (case main_round env a args ret t of
        Go args ret t \<Rightarrow> main_loop env args ret t
      | Leave r t \<Rightarrow> Some (r, t)
      | Undef \<Rightarrow> None)"
  by pat_completeness auto
termination
  by (relation "measure (\<lambda>(env, args, ret, t). length args)")
    (auto dest: main_round_shorter simp: less_Suc_eq_le)

definition nvram_main :: "tool_env \<Rightarrow> string list \<Rightarrow> tool \<Rightarrow> (int \<times> tool) option" where
  "nvram_main env args t = (if args = [] then Some (1, t) else main_loop env args 0 t)"

subsection \<open>The bytes of the body\<close>

text \<open>A character that the offset cannot turn into one of the bytes reserved for NUL.\<close>

definition plain :: "u8 \<Rightarrow> bool" where
  "plain c \<longleftrightarrow> 32 \<le> c"

lemma unat_enc_byte:
  assumes "unat rand < 30" "plain c"
  shows "unat (0xff - c + rand) = 255 - unat c + unat rand"
proof -
  have "c \<le> 0xff"
    by (simp add: word_le_nat_alt) (use unat_u8_less [of c] in linarith)
  then have "unat (0xff - c) = 255 - unat c"
    by (simp add: unat_sub)
  moreover have "32 \<le> unat c"
    using assms(2) by (simp add: plain_def word_le_nat_alt)
  ultimately show ?thesis
    using assms(1) by (simp add: unat_word_ariths)
qed

lemma enc_byte_plain:
  assumes "unat rand < 30" "plain c"
  shows "\<not> 0xfd \<le> 0xff - c + rand" "0xff + rand - (0xff - c + rand) = c" "c \<noteq> 0"
proof -
  have "32 \<le> unat c"
    using assms(2) by (simp add: plain_def word_le_nat_alt)
  then show "\<not> 0xfd \<le> 0xff - c + rand" "c \<noteq> 0"
    using assms unat_enc_byte [OF assms] by (auto simp: word_le_nat_alt)
  show "0xff + rand - (0xff - c + rand) = c"
    by simp
qed



lemma fst_enc_bytes_Cons:
  "fst (enc_bytes rnd k rand (c # cs)) =
     (if c = 0 then (0xfd + rnd k mod 3) # fst (enc_bytes rnd (k + 1) rand cs)
      else (0xff - c + rand) # fst (enc_bytes rnd k rand cs))"
  by (simp add: split_beta Let_def)


lemma tab_cut:
  assumes "s \<noteq> [] \<or> (\<exists>q. prev = Some q \<and> q \<noteq> 0)" "\<forall>c \<in> set s. plain c"
  shows "dec_loop 7 prev (fst (enc_bytes rnd k 7 (s @ 9 # cs)) @ rest) =
    s @ 0 # dec_loop 7 (Some 0) (fst (enc_bytes rnd k 7 cs) @ rest)"
  using assms
proof (induction s arbitrary: prev)
  case Nil
  then show ?case
    by (auto simp: Let_def split_beta)
next
  case (Cons c s)
  note e = enc_byte_plain [of 7 c]
  have "dec_loop 7 (Some c) (fst (enc_bytes rnd k 7 (s @ 9 # cs)) @ rest) =
    s @ 0 # dec_loop 7 (Some 0) (fst (enc_bytes rnd k 7 cs) @ rest)"
    using Cons.IH [of "Some c"] Cons.prems e by auto
  then show ?case
    using e Cons.prems(2)
    by (simp only: append_Cons fst_enc_bytes_Cons dec_loop.simps) (auto simp: Let_def)
qed

definition mem_image :: "u8 list list \<Rightarrow> u8 list" where
  "mem_image vars = concat (map (\<lambda>s. s @ [0]) vars)"

lemma mem_image_simps [simp]: "mem_image [] = []" "mem_image (s # vars) = s @ 0 # mem_image vars"
  by (simp_all add: mem_image_def)




subsection \<open>Parsing the decoded buffer\<close>





subsection \<open>Measuring the variables\<close>



subsection \<open>A saved profile is restored\<close>










subsection \<open>Names and values\<close>








subsection \<open>Properties\<close>



text \<open>The loop that draws the offset means to keep control characters that occur in values out
  of the reserved bytes, but it lets the offset 7 pass: with it a tab character is written as a
  reserved byte and read back as the end of the string, so the value is cut there and its rest is
  taken for another variable.\<close>

theorem tab_cut_by_offset_7:
  assumes "s \<noteq> []" "\<forall>c \<in> set s. plain c"
  shows "pick_rand (\<lambda>_. 7) 0 = Some (7, 1) \<and>
    dec_loop 7 prev (fst (enc_bytes rnd k 7 (s @ 9 # cs)) @ rest) =
      s @ 0 # dec_loop 7 (Some 0) (fst (enc_bytes rnd k 7 cs) @ rest)"
  using tab_cut [of s prev] assms by (simp add: pick_rand.simps)

theorem tab_cut_by_offset_7_witness:
  "pick_rand (\<lambda>_. 7) 0 = Some (7, 1) \<and>
    dec_loop 7 None (fst (enc_bytes (\<lambda>_. 0) 0 7 ([65] @ 9 # [66, 0])) @ []) =
      [65] @ 0 # dec_loop 7 (Some 0) (fst (enc_bytes (\<lambda>_. 0) 0 7 [66, 0]) @ [])"
  by (rule tab_cut_by_offset_7) (simp_all add: plain_def)

text \<open>A profile whose last string lacks its terminator is accepted, and the parser runs on into
  what the buffer held before: here a file with the single assignment \<^verbatim>\<open>a=b\<close> also sets
  a variable left over from an earlier command.\<close>

theorem restore_reads_stale_buffer:
  "nvram_restore_new (Some (PROFILE_HEADER @ [3, 0, 0, 0] @ map byte_of ''a=b''))
     (map byte_of ''....x=y'' @ [0, 0, 0]) = Inr [Set ''a'' ''b'', Set ''x'' ''y'']"
  by code_simp

end
