(* ===== verification/Wan.thy ===== *)
theory Wan
  imports Prelude Strings Base64
begin

section \<open>WAN units, connection state and files kept in NVRAM\<close>

text \<open>
  The part of \<^verbatim>\<open>libshared/shared/misc.c\<close> that turns NVRAM variables and the state of the
  system into decisions: names of the WAN units, the protocol of a unit, whether it is up, its
  interfaces and DNS servers, and files kept as base64 text in a variable.  The functions take the
  store; what they read from the system (files, interface flags, process names) is the record
  \<open>sys\<close>.  Key buffers are large enough for every key the callers build, so a key is the string
  itself.  The maximum number of WAN units is the default of the build configuration.
\<close>

subsection \<open>Names of NVRAM variables\<close>

definition MWAN_MAX :: int where
  "MWAN_MAX = 4"

definition nvram_get_int :: "nvram \<Rightarrow> string \<Rightarrow> int" where
  "nvram_get_int nv key = atoi (nvram_safe_get nv key)"

definition get_prefix_nvram_key :: "string \<Rightarrow> string \<Rightarrow> string" where
  "get_prefix_nvram_key pre suf = pre @ ''_'' @ suf"

definition prefix_nvram_get :: "nvram \<Rightarrow> string \<Rightarrow> string \<Rightarrow> string" where
  "prefix_nvram_get nv pre suf = nvram_safe_get nv (get_prefix_nvram_key pre suf)"

definition prefix_nvram_set :: "nvram \<Rightarrow> string \<Rightarrow> string \<Rightarrow> string \<Rightarrow> nvram" where
  "prefix_nvram_set nv pre suf val = nv(get_prefix_nvram_key pre suf := Some val)"

definition prefix_nvram_unset :: "nvram \<Rightarrow> string \<Rightarrow> string \<Rightarrow> nvram" where
  "prefix_nvram_unset nv pre suf = nv(get_prefix_nvram_key pre suf := None)"

definition prefix_nvram_match :: "nvram \<Rightarrow> string \<Rightarrow> string \<Rightarrow> string \<Rightarrow> bool" where
  "prefix_nvram_match nv pre suf val = nvram_match nv (get_prefix_nvram_key pre suf) val"

definition prefix_nvram_get_int :: "nvram \<Rightarrow> string \<Rightarrow> string \<Rightarrow> int" where
  "prefix_nvram_get_int nv pre suf = nvram_get_int nv (get_prefix_nvram_key pre suf)"

definition get_bridge_suffix :: "nat \<Rightarrow> string" where
  "get_bridge_suffix bridge = (if bridge = 0 then [] else show_nat bridge)"

definition get_bridge_prefix :: "nat \<Rightarrow> string" where
  "get_bridge_prefix bridge = (if bridge = 0 then ''lan'' else ''lan'' @ show_nat bridge)"

definition get_bridge_nvram_key :: "nat \<Rightarrow> string \<Rightarrow> string" where
  "get_bridge_nvram_key bridge suf = get_prefix_nvram_key (get_bridge_prefix bridge) suf"

definition bridge_nvram_get :: "nvram \<Rightarrow> nat \<Rightarrow> string \<Rightarrow> string" where
  "bridge_nvram_get nv bridge suf = nvram_safe_get nv (get_bridge_nvram_key bridge suf)"

definition get_wan_prefix :: "int \<Rightarrow> string" where
  "get_wan_prefix unit = (if 1 < unit \<and> unit \<le> MWAN_MAX then ''wan'' @ show_int unit else ''wan'')"

definition get_wan_nvram_key :: "int \<Rightarrow> string \<Rightarrow> string" where
  "get_wan_nvram_key unit suf = get_prefix_nvram_key (get_wan_prefix unit) suf"

definition wan_nvram_get :: "nvram \<Rightarrow> int \<Rightarrow> string \<Rightarrow> string" where
  "wan_nvram_get nv unit suf = nvram_safe_get nv (get_wan_nvram_key unit suf)"

definition get_wan_unit :: "string \<Rightarrow> int" where
  "get_wan_unit pre =
     (case find (\<lambda>i. pre = get_wan_prefix i) [1..MWAN_MAX] of None \<Rightarrow> 1 | Some i \<Rightarrow> i)"

definition get_wan_unit_with_value :: "nvram \<Rightarrow> string \<Rightarrow> string \<Rightarrow> int" where
  "get_wan_unit_with_value nv suf val =
     (let mwan_num = nvram_get_int nv ''mwan_num'';
          mwan_num = (if mwan_num < 1 \<or> MWAN_MAX < mwan_num then 1 else mwan_num)
      in case find (\<lambda>u. nvram_match nv (strlcat (get_wan_prefix u) suf 64) val) [1..mwan_num] of
           None \<Rightarrow> - 1
         | Some u \<Rightarrow> u)"

definition wl_nvname :: "string \<Rightarrow> int \<Rightarrow> int \<Rightarrow> string" where
  "wl_nvname name unit subunit =
     (let pre = (if unit < 0 then strlcpy ''wl_'' 14
                 else if 0 < subunit then strlcpy (''wl'' @ show_int unit @ ''.'' @ show_int subunit @ ''_'') 14
                 else strlcpy (''wl'' @ show_int unit @ ''_'') 14)
      in strlcat pre name 128)"

definition wl_client :: "nvram \<Rightarrow> int \<Rightarrow> int \<Rightarrow> bool" where
  "wl_client nv unit subunit =
     (let mode = nvram_safe_get nv (wl_nvname ''mode'' unit subunit) in mode = ''sta'' \<or> mode = ''wet'')"

subsection \<open>Protocols\<close>

datatype wan_proto = WP_DISABLED | WP_STATIC | WP_DHCP | WP_L2TP | WP_PPPOE | WP_PPTP | WP_PPP3G | WP_LTE

definition get_wanx_proto :: "nvram \<Rightarrow> string \<Rightarrow> wan_proto" where
  "get_wanx_proto nv pre =
     (case map_of [(''static'', WP_STATIC), (''dhcp'', WP_DHCP), (''l2tp'', WP_L2TP), (''pppoe'', WP_PPPOE),
                   (''pptp'', WP_PPTP), (''ppp3g'', WP_PPP3G), (''lte'', WP_LTE)]
           (prefix_nvram_get nv pre ''proto'') of
        None \<Rightarrow> WP_DISABLED
      | Some p \<Rightarrow> p)"

definition get_wan_proto :: "nvram \<Rightarrow> wan_proto" where
  "get_wan_proto nv = get_wanx_proto nv ''wan''"

text \<open>The units in use: the first ones up to a disabled one.\<close>

definition mwan_configured_num :: "nvram \<Rightarrow> int" where
  "mwan_configured_num nv = (let c = nvram_get_int nv ''mwan_num'' in if c < 1 \<or> MWAN_MAX < c then 1 else c)"

definition mwan_active_num :: "nvram \<Rightarrow> int" where
  "mwan_active_num nv =
     (let n = mwan_configured_num nv
      in case find (\<lambda>i. get_wanx_proto nv (get_wan_prefix i) = WP_DISABLED) [1..n] of None \<Rightarrow> n | Some i \<Rightarrow> i - 1)"

datatype ipv6_service = IPV6_DISABLED | IPV6_NATIVE | IPV6_NATIVE_DHCP | IPV6_ANYCAST_6TO4 | IPV6_6IN4
  | IPV6_MANUAL | IPV6_6RD | IPV6_6RD_DHCP

definition get_ipv6_service :: "nvram \<Rightarrow> ipv6_service" where
  "get_ipv6_service nv =
     (case map_of [(''native'', IPV6_NATIVE), (''native-pd'', IPV6_NATIVE_DHCP), (''6to4'', IPV6_ANYCAST_6TO4),
                   (''sit'', IPV6_6IN4), (''other'', IPV6_MANUAL), (''6rd'', IPV6_6RD), (''6rd-pd'', IPV6_6RD_DHCP)]
           (nvram_safe_get nv ''ipv6_service'') of
        None \<Rightarrow> IPV6_DISABLED
      | Some p \<Rightarrow> p)"

definition using_dhcpc :: "nvram \<Rightarrow> string \<Rightarrow> int" where
  "using_dhcpc nv pre =
     (let p = get_wanx_proto nv pre
      in if p = WP_DHCP \<or> p = WP_LTE then 1
         else if p = WP_L2TP \<or> p = WP_PPTP \<or> p = WP_PPPOE then prefix_nvram_get_int nv pre ''pptp_dhcp''
         else 0)"

subsection \<open>Lists of interfaces\<close>

definition append_ifnames :: "string \<Rightarrow> nat \<Rightarrow> string \<Rightarrow> bool \<Rightarrow> int \<times> string" where
  "append_ifnames dst sz src add_space =
     (if sz = 0 then (- 1, dst)
      else if sz \<le> length dst then (- 1, dst)
      else
        let avail = sz - length dst - 1
        in if avail < length src \<or> add_space \<and> length src = avail then (- 1, dst)
           else
             let dst = strlcat dst src sz
             in (0, if add_space then strlcat dst '' '' sz else dst))"

subsection \<open>The state of a connection\<close>

text \<open>
  What the functions read from the system: the text of a file, the name of a process, whether a
  socket can be opened, the flags of an interface (up, running) if the query succeeds, the time
  stamp that a connection script left, and the uptime.
\<close>

record sys =
  file_text :: "string \<Rightarrow> string option"
  psname :: "int \<Rightarrow> string"
  socket_ok :: bool
  if_flags :: "string \<Rightarrow> (bool \<times> bool) option"
  wan_time :: "string \<Rightarrow> int option"
  sys_uptime :: int

definition check_wanup_time :: "sys \<Rightarrow> string \<Rightarrow> int" where
  "check_wanup_time s pre =
     (case wan_time s (''/var/lib/misc/'' @ pre @ ''_time'') of
        None \<Rightarrow> 0
      | Some t \<Rightarrow> if sys_uptime s - t < 0 then 0 else sys_uptime s - t)"

text \<open>\<^verbatim>\<open>f_read_string\<close> into a buffer of 64 bytes.\<close>

definition read64 :: "sys \<Rightarrow> string \<Rightarrow> string option" where
  "read64 s path = (case file_text s path of None \<Rightarrow> None | Some t \<Rightarrow> if t = [] then None else Some (strlcpy t 64))"

definition wan_phy_link :: "nvram \<Rightarrow> sys \<Rightarrow> string \<Rightarrow> int" where
  "wan_phy_link nv s pre =
     (if prefix_nvram_get nv pre ''sta'' \<noteq> [] then - 1
      else
        let ifname = prefix_nvram_get nv pre ''ifname''
        in if ifname = [] \<or> ifname = ''none'' \<or> 16 \<le> length ifname then - 1
           else if \<not> socket_ok s then - 1
           else case if_flags s (strlcpy ifname 16) of
                  None \<Rightarrow> - 1
                | Some (up, running) \<Rightarrow> if \<not> up then - 1 else if running then 1 else 0)"

text \<open>A PPP link is up if the daemon that its link file names is the one that runs.\<close>

definition ppp_up :: "sys \<Rightarrow> wan_proto \<Rightarrow> string \<Rightarrow> bool" where
  "ppp_up s proto pre =
     (case read64 s (''/tmp/ppp/'' @ pre @ ''_link'') of
        None \<Rightarrow> False
      | Some name \<Rightarrow>
          (case read64 s (strlcpy (''/var/run/'' @ name @ ''.pid'') 64) of
             None \<Rightarrow> False
           | Some pid \<Rightarrow>
               psname s (atoi pid) = (if proto = WP_L2TP then ''pppd'' else strlcpy (''pppd'' @ pre) 16)))"

definition is_ppp :: "wan_proto \<Rightarrow> bool" where
  "is_ppp proto \<longleftrightarrow> proto = WP_PPTP \<or> proto = WP_L2TP \<or> proto = WP_PPPOE \<or> proto = WP_PPP3G"

text \<open>
  The flags of a query that failed are whatever the structure held before; \<open>garbage\<close> stands for them.
  \<open>fscanf\<close> with \<^verbatim>\<open>%d\<close> leaves its variable alone when there is no number.
\<close>

definition scan_d :: "string \<Rightarrow> int option" where
  "scan_d t =
     (let u = dropWhile isspace t;
          v = (if hd0 u = CHR ''-'' \<or> hd0 u = CHR ''+'' then tl u else u)
      in if isdigit (hd0 v) then Some (atoi t) else None)"

definition link_up :: "nvram \<Rightarrow> sys \<Rightarrow> bool \<times> bool \<Rightarrow> wan_proto \<Rightarrow> string \<Rightarrow> bool" where
  "link_up nv s garbage proto pre =
     (if \<not> socket_ok s then True
      else
        let q = if_flags s (strlcpy (prefix_nvram_get nv pre ''iface'') 16);
            flags = (case q of None \<Rightarrow> garbage | Some f \<Rightarrow> f);
            up = q \<noteq> None \<and> fst flags \<and> snd flags
        in up \<and> \<not> ((proto = WP_STATIC \<or> proto = WP_DHCP) \<and> wan_phy_link nv s pre = 0))"

definition check_wanup :: "nvram \<Rightarrow> sys \<Rightarrow> bool \<times> bool \<Rightarrow> string \<Rightarrow> int" where
  "check_wanup nv s garbage pre =
     (let proto = get_wanx_proto nv pre
      in if proto = WP_DISABLED then 0
         else
           let up = (if is_ppp proto then ppp_up s proto pre
                     else \<not> prefix_nvram_match nv pre ''ipaddr'' ''0.0.0.0'');
               up = up \<and> link_up nv s garbage proto pre
           in if \<not> up then 0
              else if nvram_get_int nv ''mwan_cktime'' = 0 \<or> prefix_nvram_get_int nv pre ''ck_pause'' \<noteq> 0 then 1
              else case file_text s (''/var/lib/misc/'' @ pre @ ''_state'') of
                     None \<Rightarrow> 1
                   | Some t \<Rightarrow> (case scan_d t of None \<Rightarrow> 1 | Some v \<Rightarrow> v))"

text \<open>The link file of a dead PPP connection, which \<^verbatim>\<open>check_wanup\<close> removes.\<close>

definition check_wanup_unlinks :: "nvram \<Rightarrow> sys \<Rightarrow> string \<Rightarrow> string option" where
  "check_wanup_unlinks nv s pre =
     (let proto = get_wanx_proto nv pre; f = ''/tmp/ppp/'' @ pre @ ''_link''
      in if is_ppp proto \<and> read64 s f \<noteq> None \<and> \<not> ppp_up s proto pre then Some f else None)"

subsection \<open>Interfaces of a unit\<close>

definition get_wanfaces :: "nvram \<Rightarrow> string \<Rightarrow> (string \<times> string) list" where
  "get_wanfaces nv pre =
     (let proto = get_wanx_proto nv pre;
          entry = (\<lambda>ip iface. (strlcpy iface 16, strlcpy ip 17));
          ppp = (let iface = prefix_nvram_get nv pre ''iface'' in if iface = [] then ''ppp+'' else iface)
      in if proto = WP_PPTP \<or> proto = WP_L2TP \<or> proto = WP_PPPOE \<and> using_dhcpc nv pre \<noteq> 0 then
           let ip = prefix_nvram_get nv pre ''ipaddr'';
               iface = (if ip = [] \<or> ip = ''0.0.0.0'' then [] else prefix_nvram_get nv pre ''ifname'')
           in [entry (prefix_nvram_get nv pre ''ppp_get_ip'') ppp, entry ip iface]
         else
           let ip = (if proto = WP_DISABLED then ''0.0.0.0'' else prefix_nvram_get nv pre ''ipaddr'');
               iface = (if proto = WP_PPPOE \<or> proto = WP_PPP3G then ppp else prefix_nvram_get nv pre ''ifname'')
           in [entry ip iface])"

definition get_wanface :: "nvram \<Rightarrow> string \<Rightarrow> string" where
  "get_wanface nv pre = fst (get_wanfaces nv pre ! 0)"

definition get_wan6face :: "nvram \<Rightarrow> string" where
  "get_wan6face nv =
     (case get_ipv6_service nv of
        IPV6_NATIVE \<Rightarrow> get_wanface nv ''wan''
      | IPV6_NATIVE_DHCP \<Rightarrow> get_wanface nv ''wan''
      | IPV6_ANYCAST_6TO4 \<Rightarrow> ''v6to4''
      | IPV6_6IN4 \<Rightarrow> ''v6in4''
      | IPV6_6RD \<Rightarrow> ''6rd''
      | IPV6_6RD_DHCP \<Rightarrow> ''6rd-pd''
      | _ \<Rightarrow> nvram_safe_get nv ''ipv6_ifname'')"

definition get_wanip :: "nvram \<Rightarrow> sys \<Rightarrow> bool \<times> bool \<Rightarrow> string \<Rightarrow> string" where
  "get_wanip nv s garbage pre =
     (if check_wanup nv s garbage pre = 0 then ''0.0.0.0'' else snd (get_wanfaces nv pre ! 0))"

subsection \<open>DNS servers\<close>

text \<open>
  \<^verbatim>\<open>inet_pton\<close> for IPv4: four decimal numbers of at most three digits without leading zeros,
  each at most 255, with dots between them.
\<close>

fun pton_loop :: "nat \<Rightarrow> string \<Rightarrow> u32 \<Rightarrow> u32 option" where
  "pton_loop n s acc =
     (let ds = takeWhile isdigit (take 3 s); j = length ds; v = digits_value ds
      in if j = 0 \<or> (1 < j \<and> hd0 s = CHR ''0'') \<or> 255 < v then None
         else
           let acc = push_bit 8 acc OR of_nat v; c = hd0 (drop j s)
           in case n of
                0 \<Rightarrow> if c = NUL then Some acc else None
              | Suc m \<Rightarrow> if c = CHR ''.'' then pton_loop m (drop (j + 1) s) acc else None)"

declare pton_loop.simps [simp del]

definition inet_pton :: "string \<Rightarrow> u32 option" where
  "inet_pton s = pton_loop 3 s 0"

text \<open>The seven conversions \<^verbatim>\<open>%21s\<close>.\<close>

fun scan_words :: "nat \<Rightarrow> string \<Rightarrow> string list" where
  "scan_words 0 s = []"
| "scan_words (Suc n) s =
     (let s = dropWhile isspace s; w = takeWhile (\<lambda>c. \<not> isspace c) (take 21 s)
      in if w = [] then [] else w # scan_words n (drop (length w) s))"

definition dns_server :: "string \<Rightarrow> (u32 \<times> nat) option" where
  "dns_server d =
     (case strchr d CHR '':'' of
        None \<Rightarrow> map_option (\<lambda>a. (a, 53)) (inet_pton d)
      | Some k \<Rightarrow>
          let j = atoi (drop (k + 1) d)
          in if j < 1 \<or> 0xFFFF < j then None else map_option (\<lambda>a. (a, nat j)) (inet_pton (take k d)))"

fun dns_loop :: "string list \<Rightarrow> (u32 \<times> nat) list \<Rightarrow> (u32 \<times> nat) list" where
  "dns_loop [] dns = dns"
| "dns_loop (d # ds) dns =
     (case dns_server d of
        None \<Rightarrow> dns_loop ds dns
      | Some e \<Rightarrow>
          if e \<in> set dns then dns_loop ds dns
          else if length dns + 1 = 6 then dns @ [e]
          else dns_loop ds (dns @ [e]))"

definition dns_text :: "nvram \<Rightarrow> string \<Rightarrow> string" where
  "dns_text nv pre =
     (let received = prefix_nvram_get nv pre ''get_dns''
      in if prefix_nvram_get_int nv pre ''dns_auto'' \<noteq> 0 then strlcpy ('' '' @ received) 512
         else
           let s = strlcpy (prefix_nvram_get nv pre ''dns'') 512
           in if prefix_nvram_get_int nv pre ''addget'' = 0
                 \<or> (nvram_get_int nv ''dnscrypt_proxy'' \<noteq> 0 \<and> nvram_get_int nv ''dnscrypt_priority'' = 2)
                 \<or> (nvram_get_int nv ''stubby_proxy'' \<noteq> 0 \<and> nvram_get_int nv ''stubby_priority'' = 2)
              then s else strlcat s ('' '' @ received) 512)"

definition get_dns :: "nvram \<Rightarrow> string \<Rightarrow> (u32 \<times> nat) list" where
  "get_dns nv pre = dns_loop (scan_words 7 (dns_text nv pre)) []"

subsection \<open>Files in NVRAM\<close>

text \<open>The file's contents on success of both the memory allocation and the write.\<close>

definition nvram_get_file :: "nvram \<Rightarrow> string \<Rightarrow> int \<Rightarrow> u8 list option" where
  "nvram_get_file nv key lim =
     (if lim < 0 then None
      else
        let p = nvram_safe_get nv key; n = int (length p)
        in if lim < n \<or> INT_MAX < n then None
           else if base64_decoded_len n = 0 \<and> n \<noteq> 0 then None
           else
             let b = base64_decode p
             in if 0 < length b \<and> length b \<le> unat (base64_decoded_len n) then Some b else None)"

definition nvram_set_file :: "nvram \<Rightarrow> string \<Rightarrow> u8 list option \<Rightarrow> int \<Rightarrow> bool \<times> nvram" where
  "nvram_set_file nv key content lim =
     (if lim < 0 then (False, nv)
      else case content of
        None \<Rightarrow> (False, nv)
      | Some bytes \<Rightarrow>
          let n = int (length bytes)
          in if lim < n then (False, nv)
             else if base64_encoded_len n = 0 \<and> n \<noteq> 0 then (False, nv)
             else
               let out = base64_encode bytes
               in if length out \<le> unat (base64_encoded_len n) then (True, nv(key := Some out)) else (False, nv))"

definition nvram_contains_word :: "nvram \<Rightarrow> string \<Rightarrow> string \<Rightarrow> bool" where
  "nvram_contains_word nv key word = (find_word (nvram_safe_get nv key) word \<noteq> None)"

definition nvram_is_empty :: "nvram \<Rightarrow> string \<Rightarrow> bool" where
  "nvram_is_empty nv key = (case nv key of None \<Rightarrow> True | Some p \<Rightarrow> p = [])"


subsection \<open>Units\<close>

lemma get_wan_prefix_values:
  "get_wan_prefix 1 = ''wan''" "get_wan_prefix 2 = ''wan2''" "get_wan_prefix 3 = ''wan3''" "get_wan_prefix 4 = ''wan4''"
  by code_simp+

lemma upto_MWAN_MAX: "[1..MWAN_MAX] = [1, 2, 3, 4]"
  by code_simp

lemma get_wan_unit_prefix:
  assumes "1 \<le> u" "u \<le> MWAN_MAX"
  shows "get_wan_unit (get_wan_prefix u) = u"
proof -
  have "u \<in> set [1..MWAN_MAX]"
    using assms by simp
  then have "u = 1 \<or> u = 2 \<or> u = 3 \<or> u = 4"
    by (simp add: upto_MWAN_MAX)
  then show ?thesis
    by (auto simp: get_wan_unit_def upto_MWAN_MAX get_wan_prefix_values)
qed

lemma find_upto_Some:
  "find P [a..b] = Some u \<longleftrightarrow> a \<le> u \<and> u \<le> b \<and> P u \<and> (\<forall>v. a \<le> v \<and> v < u \<longrightarrow> \<not> P v)"
proof (induction "nat (b - a + 1)" arbitrary: a)
  case 0
  then have "[a..b] = []" by simp
  with 0 show ?case by auto
next
  case (Suc n)
  then have c: "[a..b] = a # [a + 1..b]"
    by (simp add: upto_rec1)
  show ?case
  proof (cases "P a")
    case True
    with c Suc show ?thesis by (auto simp: order.order_iff_strict)
  next
    case False
    have "nat (b - (a + 1) + 1) = n"
      using Suc(2) by simp
    then have "find P [a + 1..b] = Some u \<longleftrightarrow>
        a + 1 \<le> u \<and> u \<le> b \<and> P u \<and> (\<forall>v. a + 1 \<le> v \<and> v < u \<longrightarrow> \<not> P v)"
      using Suc(1) [of "a + 1"] by simp
    moreover have "(\<forall>v. a \<le> v \<and> v < u \<longrightarrow> \<not> P v) \<longleftrightarrow> (\<forall>v. a + 1 \<le> v \<and> v < u \<longrightarrow> \<not> P v)"
      using False by (metis add1_zle_eq order_le_less)
    moreover have "P u \<Longrightarrow> a \<le> u \<longleftrightarrow> a + 1 \<le> u"
      using False by (metis add1_zle_eq order_le_less order_less_imp_le)
    ultimately show ?thesis
      using c False by auto
  qed
qed

text \<open>A configured unit whose variable has the value.\<close>

definition wan_count :: "nvram \<Rightarrow> int" where
  "wan_count nv =
     (let n = nvram_get_int nv ''mwan_num'' in if n < 1 \<or> MWAN_MAX < n then 1 else n)"

definition unit_has :: "nvram \<Rightarrow> string \<Rightarrow> string \<Rightarrow> int \<Rightarrow> bool" where
  "unit_has nv suf val u \<longleftrightarrow>
     1 \<le> u \<and> u \<le> wan_count nv \<and> nv (strlcat (get_wan_prefix u) suf 64) = Some val"

lemma unit_with_value_cases:
  "(\<nexists>u. unit_has nv suf val u) \<and> get_wan_unit_with_value nv suf val = - 1 \<or>
   unit_has nv suf val (get_wan_unit_with_value nv suf val) \<and>
   (\<forall>v. unit_has nv suf val v \<longrightarrow> get_wan_unit_with_value nv suf val \<le> v)"
proof -
  let ?P = "\<lambda>u. nvram_match nv (strlcat (get_wan_prefix u) suf 64) val"
  have m: "?P u \<longleftrightarrow> nv (strlcat (get_wan_prefix u) suf 64) = Some val" for u
    by (auto simp: nvram_match_def split: option.splits)
  have w: "get_wan_unit_with_value nv suf val = (case find ?P [1..wan_count nv] of None \<Rightarrow> - 1 | Some u \<Rightarrow> u)"
    by (simp only: get_wan_unit_with_value_def wan_count_def Let_def)
  have h: "unit_has nv suf val u \<longleftrightarrow> 1 \<le> u \<and> u \<le> wan_count nv \<and> ?P u" for u
    by (simp only: unit_has_def m)
  show ?thesis
  proof (cases "find ?P [1..wan_count nv]")
    case None
    then have "get_wan_unit_with_value nv suf val = - 1"
      by (simp only: w option.case)
    moreover have "\<not> unit_has nv suf val u" for u
      using None by (auto simp: h find_None_iff simp del: not_Some_eq)
    ultimately show ?thesis by blast
  next
    case (Some u)
    then have g: "get_wan_unit_with_value nv suf val = u"
      by (simp only: w option.case)
    have u: "1 \<le> u" "u \<le> wan_count nv" "?P u" "\<forall>v. 1 \<le> v \<and> v < u \<longrightarrow> \<not> ?P v"
      using Some [unfolded find_upto_Some] by blast+
    have "u \<le> v" if "unit_has nv suf val v" for v
      using u(4) that unfolding h by (meson not_less)
    with u(1-3) show ?thesis
      unfolding g h by blast
  qed
qed

subsection \<open>DNS servers\<close>

lemma dns_server_port: "dns_server d = Some (a, p) \<Longrightarrow> 1 \<le> p \<and> p \<le> 0xFFFF"
  by (auto simp: dns_server_def Let_def split: option.splits if_splits)

lemma foldl_add_new_prefix: "\<exists>new. foldl add_new xs ns = xs @ new"
proof (induction ns arbitrary: xs)
  case (Cons n ns)
  then obtain new where "foldl add_new (add_new xs n) ns = add_new xs n @ new"
    by blast
  moreover have "\<exists>e. add_new xs n = xs @ e"
    by (simp add: add_new_def)
  ultimately show ?case
    by auto
qed simp

lemma dns_loop_spec:
  "length dns < 6 \<Longrightarrow> dns_loop ds dns = take 6 (foldl add_new dns (List.map_filter dns_server ds))"
proof (induction ds arbitrary: dns)
  case Nil
  then show ?case by (simp add: List.map_filter_def)
next
  case (Cons d ds)
  show ?case
  proof (cases "dns_server d")
    case None
    with Cons show ?thesis by (simp add: map_filter_simps)
  next
    case (Some e)
    obtain new where new: "foldl add_new (dns @ [e]) (List.map_filter dns_server ds) = (dns @ [e]) @ new"
      using foldl_add_new_prefix by blast
    have m: "foldl add_new dns (List.map_filter dns_server (d # ds)) =
        foldl add_new (add_new dns e) (List.map_filter dns_server ds)"
      using Some by (simp add: map_filter_simps)
    have new_if: "add_new dns e = (if e \<in> set dns then dns else dns @ [e])"
      by (simp add: add_new_def)
    consider "e \<in> set dns" | "e \<notin> set dns" "length dns = 5" | "e \<notin> set dns" "length dns < 5"
      using Cons.prems by linarith
    then show ?thesis
    proof cases
      case 1
      with Some Cons show ?thesis unfolding m by (simp add: new_if)
    next
      case 2
      with Some new show ?thesis unfolding m by (simp add: new_if)
    next
      case 3
      with Some Cons.IH [of "dns @ [e]"] show ?thesis unfolding m by (simp add: new_if)
    qed
  qed
qed

subsection \<open>Files\<close>

lemma encode_not_Nil: "base64_encode bs = [] \<longleftrightarrow> bs = []"
  using length_base64_encode [of bs] by (cases bs) auto

lemma nvram_file_roundtrip_lemma:
  assumes "bytes \<noteq> []" "int (length bytes) \<le> lim" "int (length bytes) \<le> INT_MAX - 2"
    "int (length (base64_encode bytes)) \<le> lim'" "int (length (base64_encode bytes)) \<le> INT_MAX - 3"
  shows "\<exists>nv'. nvram_set_file nv key (Some bytes) lim = (True, nv') \<and> nvram_get_file nv' key lim' = Some bytes \<and>
    (\<forall>k. k \<noteq> key \<longrightarrow> nv' k = nv k)"
proof -
  let ?out = "base64_encode bytes"
  have e: "unat (base64_encoded_len (int (length bytes))) = length ?out"
    using assms(3) by (simp add: base64_encoded_len_eq length_base64_encode)
  moreover have "?out \<noteq> []"
    using assms(1) by (simp add: encode_not_Nil)
  ultimately have "base64_encoded_len (int (length bytes)) \<noteq> 0"
    by auto
  then have s: "nvram_set_file nv key (Some bytes) lim = (True, nv(key := Some ?out))"
    using assms(2) e by (simp add: nvram_set_file_def Let_def)
  have d: "base64_decode ?out = bytes"
    using b64.dec_enc [of bytes] by simp
  have "length bytes \<le> unat (base64_decoded_len (int (length ?out)))"
    using d length_b64_loop [of 0 ?out 0] assms(5) by (simp add: base64_decoded_len_eq base64_decode_def)
  moreover from this have "base64_decoded_len (int (length ?out)) \<noteq> 0"
    using assms(1) by auto
  ultimately have "nvram_get_file (nv(key := Some ?out)) key lim' = Some bytes"
    using assms(1,4,5) d by (auto simp: nvram_get_file_def nvram_safe_get_def INT_MAX_def Let_def)
  with s show ?thesis by auto
qed

subsection \<open>Properties\<close>

text \<open>\<^verbatim>\<open>get_wan_unit_with_value\<close> answers with the smallest configured unit whose variable
  has the given value, and with \<open>-1\<close> exactly when no configured unit has it; an unset or absurd
  number of units counts as one unit.\<close>

theorem get_wan_unit_with_value_correct:
  "get_wan_unit_with_value nv suf val =
    (if \<exists>u. unit_has nv suf val u then LEAST u. unit_has nv suf val u else - 1)"
  using unit_with_value_cases [of nv suf val] by (auto intro: Least_equality [symmetric])

text \<open>The number that \<^verbatim>\<open>get_wan_unit\<close> reads from the prefix of a unit is the unit.\<close>

theorem wan_unit_roundtrip:
  assumes "1 \<le> u" "u \<le> MWAN_MAX"
  shows "get_wan_unit (get_wan_prefix u) = u"
  using get_wan_unit_prefix [OF assms] .

theorem wan_unit_roundtrip_witness: "get_wan_unit (get_wan_prefix 3) = 3"
  by (rule wan_unit_roundtrip) (simp_all add: MWAN_MAX_def)

text \<open>C28: \<^verbatim>\<open>get_dns\<close> returns, of the first seven words of the configured text, the servers
  that are well formed, each once and in the order of the text, at most the six its table holds; every
  port is one a server can have.\<close>

theorem get_dns_correct:
  "get_dns nv pre = take 6 (rev (remdups (rev (List.map_filter dns_server (scan_words 7 (dns_text nv pre)))))) \<and>
    distinct (get_dns nv pre) \<and> length (get_dns nv pre) \<le> 6 \<and> snd ` set (get_dns nv pre) \<subseteq> {1..0xFFFF}"
proof -
  let ?l = "List.map_filter dns_server (scan_words 7 (dns_text nv pre))"
  have eq: "get_dns nv pre = take 6 (rev (remdups (rev ?l)))"
    by (simp add: get_dns_def dns_loop_spec foldl_add_new)
  have "set (get_dns nv pre) \<subseteq> set ?l"
    using set_take_subset [of 6 "rev (remdups (rev ?l))"] by (simp add: eq)
  moreover have "1 \<le> p \<and> p \<le> 0xFFFF" if "(a, p) \<in> set ?l" for a p
    using that dns_server_port by (auto simp: List.map_filter_def)
  ultimately have "snd ` set (get_dns nv pre) \<subseteq> {1..0xFFFF}"
    by (auto simp del: One_nat_def)
  then show ?thesis
    by (simp add: eq)
qed

text \<open>A non-empty file stored in a variable with \<^verbatim>\<open>nvram_set_file\<close> is what
  \<^verbatim>\<open>nvram_get_file\<close> writes back, and no other variable changes.\<close>

theorem nvram_file_roundtrip:
  assumes "bytes \<noteq> []" "int (length bytes) \<le> lim" "int (length bytes) \<le> INT_MAX - 2"
    "int (length (base64_encode bytes)) \<le> lim'" "int (length (base64_encode bytes)) \<le> INT_MAX - 3"
  shows "\<exists>nv'. nvram_set_file nv key (Some bytes) lim = (True, nv') \<and> nvram_get_file nv' key lim' = Some bytes \<and>
    {k. nv' k \<noteq> nv k} \<subseteq> {key}"
  using nvram_file_roundtrip_lemma [OF assms, of nv key] by blast

theorem nvram_file_roundtrip_witness:
  "\<exists>nv'. nvram_set_file Map.empty ''key'' (Some [1, 2, 3]) 8192 = (True, nv') \<and>
    nvram_get_file nv' ''key'' 8192 = Some [1, 2, 3] \<and> {k. nv' k \<noteq> (Map.empty :: nvram) k} \<subseteq> {''key''}"
  by (rule nvram_file_roundtrip) (simp_all add: INT_MAX_def)

end
