(* ===== verification/History.thy ===== *)
theory History
  imports Prelude "HOL-Library.Multiset"
begin

section \<open>Traffic histories\<close>

text \<open>
  The bandwidth monitors \<^verbatim>\<open>rstats\<close> (per interface) and \<^verbatim>\<open>cstats\<close> (per address) keep their
  daily and monthly totals in arrays that are used as rings: a tail index names the newest entry, an
  entry with time stamp 0 is unused.  Both programs have the same \<^verbatim>\<open>data_t\<close> and the same
  \<^verbatim>\<open>bump\<close>.  The model keeps the array and the index; an index outside the array, which a damaged
  file can bring in, makes an access undefined, and the operation then returns \<open>None\<close>.

  The specification is a sliding window of entries, oldest first.  The locale \<open>window_store\<close> states
  what one call of \<^verbatim>\<open>bump\<close> promises about the window and derives what a whole sequence of calls leaves
  in it; it is interpreted for every ring of the two programs.
\<close>

subsection \<open>Entries\<close>

type_synonym counters = "u64 \<times> u64"

record data_t =
  xtime :: u32
  counter :: counters

definition add_counters :: "counters \<Rightarrow> counters \<Rightarrow> counters" where
  "add_counters a b = (fst a + fst b, snd a + snd b)"

definition no_data :: data_t where
  "no_data = \<lparr>xtime = 0, counter = (0, 0)\<rparr>"

subsection \<open>Adding traffic\<close>

fun bump_search :: "data_t list \<Rightarrow> u32 \<Rightarrow> nat \<Rightarrow> nat option" where
  "bump_search data xnow 0 = None"
| "bump_search data xnow (Suc i) = (if xtime (data ! i) = xnow then Some i else bump_search data xnow i)"

definition add_at :: "data_t list \<Rightarrow> nat \<Rightarrow> counters \<Rightarrow> data_t list" where
  "add_at data t c = data[t := (data ! t)\<lparr>counter := add_counters (counter (data ! t)) c\<rparr>]"

definition bump :: "data_t list \<Rightarrow> int \<Rightarrow> u32 \<Rightarrow> counters \<Rightarrow> (data_t list \<times> int) option" where
  "bump data tail xnow c =
     (if tail < 0 \<or> int (length data) \<le> tail then None
      else if xtime (data ! nat tail) = xnow then Some (add_at data (nat tail) c, tail)
      else case bump_search data xnow (length data) of
             Some i \<Rightarrow> Some (add_at data i c, tail)
           | None \<Rightarrow>
               let t = (nat tail + 1) mod length data
               in Some (add_at (data[t := \<lparr>xtime = xnow, counter = (0, 0)\<rparr>]) t c, int t))"

subsection \<open>Printing\<close>

text \<open>
  One step around a ring of \<open>n\<close> entries.  The remainder of a negative number is negative in C, and the
  access that follows is then outside the array.
\<close>

definition ring_next :: "int \<Rightarrow> nat \<Rightarrow> nat option" where
  "ring_next p n =
     (let q = (if p + 1 < 0 then - ((- (p + 1)) mod int n) else (p + 1) mod int n)
      in if q < 0 then None else Some (nat q))"

text \<open>The entries that the printing loop reaches, from the one after the tail.\<close>

fun ring_read :: "'a list \<Rightarrow> nat \<Rightarrow> int \<Rightarrow> 'a list option" where
  "ring_read data 0 p = Some []"
| "ring_read data (Suc k) p =
     (case ring_next p (length data) of
        None \<Rightarrow> None
      | Some q \<Rightarrow> map_option ((#) (data ! q)) (ring_read data k (int q)))"

definition used :: "data_t list \<Rightarrow> data_t list" where
  "used data = filter (\<lambda>d. xtime d \<noteq> 0) data"

subsection \<open>The window\<close>

definition window :: "'a list \<Rightarrow> nat \<Rightarrow> 'a list" where
  "window data t = drop (t + 1) data @ take (t + 1) data"

definition record_traffic :: "u32 \<Rightarrow> counters \<Rightarrow> data_t list \<Rightarrow> data_t list" where
  "record_traffic x c w =
     (if x \<in> xtime ` set w
      then map (\<lambda>d. if xtime d = x then d\<lparr>counter := add_counters (counter d) c\<rparr> else d) w
      else tl w @ [\<lparr>xtime = x, counter = c\<rparr>])"

text \<open>No time stamp of a used entry occurs twice.\<close>

definition keys_ok :: "data_t list \<Rightarrow> bool" where
  "keys_ok w \<longleftrightarrow> distinct (map xtime (used w))"

definition ring_ok :: "nat \<Rightarrow> data_t list \<times> int \<Rightarrow> bool" where
  "ring_ok cap r \<longleftrightarrow> length (fst r) = cap \<and> 0 \<le> snd r \<and> snd r < int cap \<and> keys_ok (fst r)"

definition ring_view :: "data_t list \<times> int \<Rightarrow> data_t list" where
  "ring_view r = window (fst r) (nat (snd r))"

definition bump_pair :: "u32 \<Rightarrow> counters \<Rightarrow> data_t list \<times> int \<Rightarrow> (data_t list \<times> int) option" where
  "bump_pair x c r = bump (fst r) (snd r) x c"

lemma add_counters_0 [simp]: "add_counters (0, 0) c = c" "add_counters c (0, 0) = c"
  by (simp_all add: add_counters_def)

lemma add_counters_assoc: "add_counters (add_counters a b) c = add_counters a (add_counters b c)"
  by (simp add: add_counters_def add.assoc)

lemma length_add_at [simp]: "length (add_at data t c) = length data"
  by (simp add: add_at_def)

lemma length_window [simp]: "length (window data t) = length data"
  by (simp add: window_def)

lemma set_window [simp]: "set (window data t) = set data"
  unfolding window_def by (metis append_take_drop_id set_append sup_commute)

lemma bump_search_Some:
  "bump_search data x n = Some i \<Longrightarrow> i < n \<and> xtime (data ! i) = x"
  by (induction n) (auto split: if_splits)

lemma bump_search_None:
  "bump_search data x n = None \<Longrightarrow> i < n \<Longrightarrow> xtime (data ! i) \<noteq> x"
  by (induction n) (auto split: if_splits simp: less_Suc_eq)

lemma distinct_filter_nth:
  "distinct (filter P ys) \<Longrightarrow> i < length ys \<Longrightarrow> j < length ys \<Longrightarrow> P (ys ! i) \<Longrightarrow> ys ! i = ys ! j \<Longrightarrow> i = j"
proof (induction ys arbitrary: i j)
  case (Cons y ys)
  then show ?case
    by (cases i; cases j) (auto split: if_splits)
qed simp

lemma keys_ok_xtimes: "keys_ok w \<longleftrightarrow> distinct (filter (\<lambda>x. x \<noteq> 0) (map xtime w))"
  by (simp add: keys_ok_def used_def filter_map o_def)

lemma keys_ok_nth:
  "keys_ok data \<Longrightarrow> i < length data \<Longrightarrow> j < length data \<Longrightarrow> xtime (data ! i) \<noteq> 0 \<Longrightarrow>
    xtime (data ! i) = xtime (data ! j) \<Longrightarrow> i = j"
  using distinct_filter_nth [of "\<lambda>x. x \<noteq> 0" "map xtime data" i j] by (simp add: keys_ok_xtimes)

lemma keys_ok_window [simp]: "keys_ok (window data t) \<longleftrightarrow> keys_ok data"
proof -
  have "mset (map xtime (used (window data t))) = mset (map xtime (used (take (t + 1) data @ drop (t + 1) data)))"
    by (simp add: used_def window_def add.commute del: append_take_drop_id)
  then show ?thesis
    unfolding keys_ok_def append_take_drop_id by (rule mset_eq_imp_distinct_iff)
qed

lemma window_map: "window (map f data) t = map f (window data t)"
  by (simp add: window_def drop_map take_map)

lemma add_at_map:
  assumes "keys_ok data" "i < length data" "xtime (data ! i) = x" "x \<noteq> 0"
  shows "add_at data i c = map (\<lambda>d. if xtime d = x then d\<lparr>counter := add_counters (counter d) c\<rparr> else d) data"
proof (rule nth_equalityI)
  fix j
  assume "j < length (add_at data i c)"
  then have j: "j < length data" by simp
  show "add_at data i c ! j = map (\<lambda>d. if xtime d = x then d\<lparr>counter := add_counters (counter d) c\<rparr> else d) data ! j"
  proof (cases "j = i")
    case True
    with assms j show ?thesis by (simp add: add_at_def)
  next
    case False
    with assms j have "xtime (data ! j) \<noteq> x"
      using keys_ok_nth [of data i j] by metis
    with False j show ?thesis by (simp add: add_at_def)
  qed
qed simp

lemma xtime_map_counter: "map xtime (map (\<lambda>d. if P d then d\<lparr>counter := f d\<rparr> else d) w) = map xtime w"
  by simp

lemma keys_ok_record:
  assumes "keys_ok w" "x \<noteq> 0"
  shows "keys_ok (record_traffic x c w)"
proof (cases "x \<in> xtime ` set w")
  case True
  then have "map xtime (record_traffic x c w) = map xtime w"
    by (simp add: record_traffic_def)
  with assms show ?thesis
    by (simp add: keys_ok_xtimes)
next
  case False
  have "distinct (filter (\<lambda>x. x \<noteq> 0) (map xtime (tl w)))"
    using assms(1) by (cases w) (auto simp: keys_ok_xtimes split: if_splits)
  moreover have "x \<notin> set (map xtime (tl w))"
    using False by (cases w) auto
  ultimately show ?thesis
    using False assms(2) by (simp add: keys_ok_xtimes record_traffic_def)
qed

lemma window_replace:
  assumes "t < length data"
  shows "window (data[(t + 1) mod length data := d]) ((t + 1) mod length data) = tl (window data t) @ [d]"
proof (cases "t + 1 < length data")
  case True
  then have "drop (Suc t) data = data ! Suc t # drop (Suc (Suc t)) data"
    by (simp add: Cons_nth_drop_Suc)
  moreover have "take (Suc (Suc t)) (data[Suc t := d]) = take (Suc t) data @ [d]"
    using True by (simp add: take_Suc_conv_app_nth take_update_swap list_update_append)
  ultimately show ?thesis
    using True by (simp add: window_def)
next
  case False
  with assms have "t + 1 = length data" by simp
  with assms show ?thesis
    by (cases data) (simp_all add: window_def)
qed

lemma bump_window:
  assumes ok: "ring_ok cap (data, tail)" and x: "x \<noteq> 0"
  shows "\<exists>data' tail'. bump data tail x c = Some (data', tail') \<and> ring_ok cap (data', tail') \<and>
    ring_view (data', tail') = record_traffic x c (ring_view (data, tail))"
proof -
  define t where "t = nat tail"
  have t: "0 \<le> tail" "tail = int t" "t < length data" "length data = cap" "keys_ok data"
    using ok by (auto simp: ring_ok_def t_def)
  have hit: ?thesis
    if "bump data tail x c = Some (add_at data i c, tail)" "i < length data" "xtime (data ! i) = x" for i
  proof -
    have m: "add_at data i c = map (\<lambda>d. if xtime d = x then d\<lparr>counter := add_counters (counter d) c\<rparr> else d) data"
      using add_at_map [OF t(5) that(2,3) x] .
    have "x \<in> xtime ` set (window data t)"
      using that(2,3) by auto
    then have v: "ring_view (add_at data i c, tail) = record_traffic x c (ring_view (data, tail))"
      by (simp add: ring_view_def m window_map record_traffic_def t_def)
    moreover have "keys_ok (add_at data i c)"
      using v keys_ok_record [OF _ x, of "window data t" c] t(5)
      by (metis fst_conv keys_ok_window ring_view_def snd_conv t_def)
    ultimately show ?thesis
      using that(1) t by (auto simp: ring_ok_def)
  qed
  consider "xtime (data ! t) = x"
    | i where "xtime (data ! t) \<noteq> x" "bump_search data x (length data) = Some i"
    | "xtime (data ! t) \<noteq> x" "bump_search data x (length data) = None"
    by fastforce
  then show ?thesis
  proof cases
    case 1
    with t show ?thesis by (intro hit [of t]) (simp_all add: bump_def)
  next
    case 2
    with t bump_search_Some [OF 2(2)] show ?thesis by (intro hit [of i]) (simp_all add: bump_def)
  next
    case 3
    let ?t = "(t + 1) mod length data" and ?d = "\<lparr>xtime = x, counter = c\<rparr>"
    have l: "?t < length data"
      using t(3) by (intro mod_less_divisor) auto
    then have b: "bump data tail x c = Some (data[?t := ?d], int ?t)"
      using 3 t by (simp add: bump_def Let_def add_at_def)
    have "x \<notin> xtime ` set data"
      using bump_search_None [OF 3(2)] by (fastforce simp: in_set_conv_nth)
    then have v: "ring_view (data[?t := ?d], int ?t) = record_traffic x c (ring_view (data, tail))"
      using window_replace [OF t(3), of ?d] by (simp add: ring_view_def record_traffic_def t_def [symmetric])
    then have "keys_ok (window (data[?t := ?d]) ?t)"
      using keys_ok_record [OF _ x, of "window data t" c] t(2,5) by (simp add: ring_view_def)
    with l t have "ring_ok cap (data[?t := ?d], int ?t)"
      by (simp add: ring_ok_def del: Suc_eq_plus1)
    with b v show ?thesis by blast
  qed
qed

subsection \<open>Sequences of updates\<close>

text \<open>
  The totals of a sequence of (time stamp, traffic) pairs, one entry for each time stamp in the order of
  first appearance.  While time does not run backwards, the window holds the newest of them, after
  unused entries if there are not enough.
\<close>

definition total_of :: "(u32 \<times> counters) list \<Rightarrow> u32 \<Rightarrow> counters" where
  "total_of evs x = foldl add_counters (0, 0) (map snd (filter (\<lambda>e. fst e = x) evs))"

definition totals :: "(u32 \<times> counters) list \<Rightarrow> data_t list" where
  "totals evs = map (\<lambda>x. \<lparr>xtime = x, counter = total_of evs x\<rparr>) (rev (remdups (rev (map fst evs))))"

definition last_n :: "nat \<Rightarrow> 'a list \<Rightarrow> 'a list" where
  "last_n n xs = drop (length xs - n) xs"

lemma length_last_n [simp]: "length (last_n n xs) = min n (length xs)"
  by (auto simp: last_n_def)

lemma last_n_snoc: "0 < n \<Longrightarrow> n \<le> length xs \<Longrightarrow> last_n n (xs @ [x]) = tl (last_n n xs) @ [x]"
  by (simp add: last_n_def Suc_diff_le tl_drop drop_Suc)

lemma set_last_n: "set (last_n n xs) \<subseteq> set xs"
  by (simp add: last_n_def set_drop_subset)

lemma last_n_map: "last_n n (map f xs) = map f (last_n n xs)"
  by (simp add: last_n_def drop_map)

lemma total_of_snoc:
  "total_of (evs @ [(x, c)]) y = (if y = x then add_counters (total_of evs x) c else total_of evs y)"
  by (simp add: total_of_def)

lemma total_of_new: "x \<notin> fst ` set evs \<Longrightarrow> total_of evs x = (0, 0)"
proof -
  assume "x \<notin> fst ` set evs"
  then have "filter (\<lambda>e. fst e = x) evs = []"
    by (auto simp: filter_empty_conv)
  then show ?thesis by (simp add: total_of_def)
qed

lemma xtime_totals: "xtime ` set (totals evs) = fst ` set evs"
  by (simp add: totals_def image_image)

lemma totals_new: "x \<notin> fst ` set evs \<Longrightarrow> totals (evs @ [(x, c)]) = totals evs @ [\<lparr>xtime = x, counter = c\<rparr>]"
  by (auto simp: totals_def total_of_snoc total_of_new)

lemma totals_old:
  "x \<in> fst ` set evs \<Longrightarrow>
    totals (evs @ [(x, c)]) = map (\<lambda>d. if xtime d = x then d\<lparr>counter := add_counters (counter d) c\<rparr> else d) (totals evs)"
  by (auto simp: totals_def total_of_snoc)

lemma last_of_sorted: "sorted ys \<Longrightarrow> x \<in> set ys \<Longrightarrow> \<forall>y \<in> set ys. y \<le> x \<Longrightarrow> last ys = x"
  by (induction ys rule: rev_induct) (auto simp: sorted_append intro: antisym)

lemma last_first_occurrence:
  assumes "sorted (xs @ [x])" "x \<in> set xs"
  shows "last (rev (remdups (rev xs))) = x"
proof -
  have "sorted (rev (remdups (rev xs)))"
    using assms(1)
  proof (induction xs rule: rev_induct)
    case (snoc y xs)
    then show ?case by (auto simp: sorted_append)
  qed simp
  moreover have "x \<in> set (rev (remdups (rev xs)))" "\<forall>y \<in> set (rev (remdups (rev xs))). y \<le> x"
    using assms by (auto simp: sorted_append)
  ultimately show ?thesis
    by (rule last_of_sorted)
qed

lemma record_last_n:
  assumes "0 < n" "sorted (map fst evs @ [x])" "x \<noteq> 0"
  shows "record_traffic x c (last_n n (replicate n no_data @ totals evs)) =
    last_n n (replicate n no_data @ totals (evs @ [(x, c)]))" (is "record_traffic x c ?w = _")
proof (cases "x \<in> fst ` set evs")
  case True
  let ?f = "\<lambda>d. if xtime d = x then d\<lparr>counter := add_counters (counter d) c\<rparr> else d"
  have ne: "totals evs \<noteq> []"
    using True by (auto simp: totals_def)
  then have "last ?w = last (totals evs)"
    using assms(1) by (subst last_n_def) (simp add: last_drop del: drop_append)
  moreover have "xtime (last (totals evs)) = x"
    using last_first_occurrence [OF assms(2)] True ne by (auto simp: totals_def last_map)
  moreover have "?w \<noteq> []"
    using assms(1) by (simp flip: length_greater_0_conv)
  ultimately have "x \<in> xtime ` set ?w"
    by (metis image_eqI last_in_set)
  then have "record_traffic x c ?w = map ?f ?w"
    by (simp add: record_traffic_def)
  also have "\<dots> = last_n n (map ?f (replicate n no_data @ totals evs))"
    by (simp only: last_n_map)
  also have "map ?f (replicate n no_data @ totals evs) = replicate n no_data @ totals (evs @ [(x, c)])"
    using totals_old [OF True] assms(3) by (simp add: no_data_def)
  finally show ?thesis .
next
  case False
  have "x \<notin> xtime ` set ?w"
    using set_last_n [of n "replicate n no_data @ totals evs"] False assms(3) xtime_totals [of evs]
    by (fastforce simp: no_data_def)
  then have "record_traffic x c ?w = tl ?w @ [\<lparr>xtime = x, counter = c\<rparr>]"
    by (simp add: record_traffic_def)
  also have "\<dots> = last_n n ((replicate n no_data @ totals evs) @ [\<lparr>xtime = x, counter = c\<rparr>])"
    using assms(1) by (subst last_n_snoc) simp_all
  finally show ?thesis
    by (simp add: totals_new [OF False])
qed

text \<open>A fold over a partial update.\<close>

fun fold_put :: "('k \<Rightarrow> 'c \<Rightarrow> 's \<Rightarrow> 's option) \<Rightarrow> ('k \<times> 'c) list \<Rightarrow> 's \<Rightarrow> 's option" where
  "fold_put put [] s = Some s"
| "fold_put put ((x, c) # evs) s = (case put x c s of None \<Rightarrow> None | Some s' \<Rightarrow> fold_put put evs s')"

lemma fold_put_snoc:
  "fold_put put (evs @ [(x, c)]) s = (case fold_put put evs s of None \<Rightarrow> None | Some s' \<Rightarrow> put x c s')"
  by (induction evs arbitrary: s) (auto split: option.splits)

locale window_store =
  fixes inv :: "'s \<Rightarrow> bool" and view :: "'s \<Rightarrow> data_t list"
    and put :: "u32 \<Rightarrow> counters \<Rightarrow> 's \<Rightarrow> 's option" and cap :: nat
  assumes cap_pos: "0 < cap"
    and view_length: "inv s \<Longrightarrow> length (view s) = cap"
    and put_view: "inv s \<Longrightarrow> x \<noteq> 0 \<Longrightarrow>
      \<exists>s'. put x c s = Some s' \<and> inv s' \<and> view s' = record_traffic x c (view s)"
begin

lemma puts_view:
  assumes "inv s" "view s = replicate cap no_data"
  shows "sorted (map fst evs) \<Longrightarrow> 0 \<notin> fst ` set evs \<Longrightarrow>
    \<exists>s'. fold_put put evs s = Some s' \<and> inv s' \<and> view s' = last_n cap (replicate cap no_data @ totals evs)"
proof (induction evs rule: rev_induct)
  case Nil
  with assms show ?case by (simp add: totals_def last_n_def)
next
  case (snoc e evs)
  obtain x c where e: "e = (x, c)" by (rule prod.exhaust)
  from snoc obtain s1 where s1: "fold_put put evs s = Some s1" "inv s1"
      "view s1 = last_n cap (replicate cap no_data @ totals evs)"
    by (auto simp: sorted_append)
  have x: "x \<noteq> 0" "sorted (map fst evs @ [x])"
    using snoc.prems e by auto
  obtain s2 where "put x c s1 = Some s2" "inv s2" "view s2 = record_traffic x c (view s1)"
    using put_view [OF s1(2) x(1)] by blast
  with s1 record_last_n [OF cap_pos x(2,1)] show ?case
    by (simp add: e fold_put_snoc)
qed

text \<open>While the time stamps fit, no traffic is lost: the used entries are exactly the totals.\<close>

lemma puts_used:
  assumes "inv s" "view s = replicate cap no_data" "sorted (map fst evs)" "0 \<notin> fst ` set evs"
    "card (fst ` set evs) \<le> cap"
  shows "\<exists>s'. fold_put put evs s = Some s' \<and> used (view s') = totals evs"
proof -
  have l: "length (totals evs) = card (fst ` set evs)"
    by (simp add: totals_def length_remdups_card_conv)
  have u: "used (totals evs) = totals evs"
    using assms(4) xtime_totals [of evs] by (auto simp: used_def filter_id_conv)
  have "last_n cap (replicate cap no_data @ totals evs) = replicate (cap - length (totals evs)) no_data @ totals evs"
    using assms(5) l by (simp add: last_n_def)
  then show ?thesis
    using puts_view [OF assms(1-4)] u by (auto simp: used_def no_data_def)
qed

end

subsection \<open>What is printed\<close>

lemma window_rotate: "t < length data \<Longrightarrow> window data t = rotate (t + 1) data"
proof -
  assume t: "t < length data"
  show ?thesis
  proof (cases "t + 1 = length data")
    case True
    then show ?thesis by (simp add: window_def del: rotate_Suc flip: True)
  next
    case False
    with t have "(t + 1) mod length data = t + 1" by simp
    then show ?thesis by (simp add: window_def rotate_drop_take)
  qed
qed

lemma ring_next_nat: "0 < n \<Longrightarrow> ring_next (int t) n = Some ((t + 1) mod n)"
proof -
  assume "0 < n"
  have "(int t + 1) mod int n = int ((t + 1) mod n)"
    by (simp add: zmod_int add.commute)
  then show ?thesis
    by (simp add: ring_next_def Let_def)
qed

lemma ring_read_nth:
  "data \<noteq> [] \<Longrightarrow> ring_read data k (int t) = Some (map (\<lambda>i. data ! ((t + 1 + i) mod length data)) [0..<k])"
proof (induction k arbitrary: t)
  case (Suc k)
  let ?n = "length data"
  have "((t + 1) mod ?n + 1 + i) mod ?n = (t + 1 + Suc i) mod ?n" for i
    using mod_add_left_eq [of "t + 1" ?n "1 + i"] by (simp only: add.assoc) simp
  moreover have "[0..<Suc k] = 0 # map Suc [0..<k]"
    by (simp add: upt_conv_Cons map_Suc_upt del: upt_Suc)
  moreover have "ring_next (int t) ?n = Some ((t + 1) mod ?n)"
    using Suc.prems by (simp add: ring_next_nat)
  ultimately show ?case
    using Suc.IH [OF Suc.prems, of "(t + 1) mod ?n"]
    by (simp only: ring_read.simps option.case) (simp add: o_def)
qed simp

lemma ring_read_window: "t < length data \<Longrightarrow> ring_read data (length data) (int t) = Some (window data t)"
proof -
  assume t: "t < length data"
  then have "window data t = map (\<lambda>i. data ! ((t + 1 + i) mod length data)) [0..<length data]"
    by (intro nth_equalityI) (simp_all add: window_rotate nth_rotate del: rotate_Suc)
  moreover have "data \<noteq> []"
    using t by auto
  ultimately show ?thesis
    using ring_read_nth [of data "length data" t] by simp
qed

end
