(* ===== verification/Records.thy ===== *)
theory Records
  imports Prelude
begin

section \<open>Separated records\<close>

text \<open>
  Configuration variables hold tables as text: records separated by one character, fields by another.
  The programs take them apart with \<^verbatim>\<open>strsep\<close> on a copy, one call for each field, so that empty fields
  count.  \<open>split_on\<close> gives all the fields that repeated calls return; \<open>vstrsep\<close> is the
  function of \<^verbatim>\<open>shutils.c\<close> that fills \<open>n\<close> variables and returns how many it filled; \<open>joined\<close> is what the
  printing loops write.
\<close>

fun split_on :: "char \<Rightarrow> string \<Rightarrow> string list" where
  "split_on c [] = [[]]"
| "split_on c (d # s) =
     (if d = c then [] # split_on c s
      else case split_on c s of [] \<Rightarrow> [[d]] | w # ws \<Rightarrow> (d # w) # ws)"

definition vstrsep :: "string \<Rightarrow> char \<Rightarrow> nat \<Rightarrow> string list" where
  "vstrsep buf sep n = take n (split_on sep buf)"

fun joined :: "string \<Rightarrow> string list \<Rightarrow> string" where
  "joined sep [] = []"
| "joined sep [w] = w"
| "joined sep (w # ws) = w @ sep @ joined sep ws"

named_theorems records \<open>facts about separated records\<close>

lemma split_on_not_Nil [simp]: "split_on c s \<noteq> []"
  by (cases s) (auto split: list.splits)

lemma split_on_other: "d \<noteq> c \<Longrightarrow> split_on c (d # s) = (d # hd (split_on c s)) # tl (split_on c s)"
  by (simp split: list.splits)

lemma split_on_single [simp]: "c \<notin> set s \<Longrightarrow> split_on c s = [s]"
  by (induction s) auto

lemma split_on_append: "c \<notin> set w \<Longrightarrow> split_on c (w @ c # s) = w # split_on c s"
  by (induction w) auto

lemma split_on_elem: "w \<in> set (split_on c s) \<Longrightarrow> c \<notin> set w"
  by (induction s arbitrary: w) (auto split: if_splits list.splits)

lemma split_on_set: "w \<in> set (split_on c s) \<Longrightarrow> set w \<subseteq> set s"
proof (induction s arbitrary: w)
  case Nil
  then show ?case by simp
next
  case (Cons d s)
  then show ?case
    by (cases "split_on c s") (fastforce split: if_splits)+
qed

lemma joined_Cons [records]: "ws \<noteq> [] \<Longrightarrow> joined sep (w # ws) = w @ sep @ joined sep ws"
  by (cases ws) auto

lemma joined_split_on [simp]: "joined [c] (split_on c s) = s"
proof (induction s)
  case Nil
  then show ?case by simp
next
  case (Cons d s)
  obtain w ws where s: "split_on c s = w # ws"
    using split_on_not_Nil neq_Nil_conv by metis
  with Cons show ?case
    by (cases ws) auto
qed

lemma split_on_joined [records]:
  "ws \<noteq> [] \<Longrightarrow> \<forall>w \<in> set ws. c \<notin> set w \<Longrightarrow> split_on c (joined [c] ws) = ws"
  by (induction "[c]" ws rule: joined.induct) (auto simp: split_on_append)

lemma joined_prepend: "joined sep ((d # w) # ws) = d # joined sep (w # ws)"
  by (cases ws) auto

text \<open>
  Tables with \<^verbatim>\<open>>\<close> between records and \<^verbatim>\<open><\<close> between the fields of a record.
\<close>

definition recs :: "string \<Rightarrow> string list list" where
  "recs s = map (split_on (CHR ''<'')) (split_on (CHR ''>'') s)"

definition print_recs :: "string list list \<Rightarrow> string" where
  "print_recs rs = joined ''>'' (map (joined ''<'') rs)"

lemma print_recs_recs [simp]: "print_recs (recs s) = s"
  by (simp add: print_recs_def recs_def o_def)

lemma recs_not_Nil [simp]: "recs s \<noteq> []" "r \<in> set (recs s) \<Longrightarrow> r \<noteq> []"
  by (auto simp: recs_def)

lemma recs_cases: obtains f fs rs where "recs s = (f # fs) # rs"
  using recs_not_Nil(1) [of s] recs_not_Nil(2) [of "hd (recs s)" s] by (metis list.exhaust list.sel(1) list.set_intros(1))

lemma recs_Nil [records]: "recs [] = [[[]]]"
  by (simp add: recs_def)

lemma recs_gt [records]: "recs (CHR ''>'' # s) = [[]] # recs s"
  by (simp add: recs_def)

lemma recs_lt [records]: "recs (CHR ''<'' # s) = ([] # hd (recs s)) # tl (recs s)"
  by (simp add: recs_def split_on_other hd_map map_tl del: split_on.simps(2)) simp

lemma recs_other [records]:
  "c \<noteq> CHR ''<'' \<Longrightarrow> c \<noteq> CHR ''>'' \<Longrightarrow>
    recs (c # s) = ((c # hd (hd (recs s))) # tl (hd (recs s))) # tl (recs s)"
  by (simp add: recs_def split_on_other hd_map map_tl del: split_on.simps(2))

lemma print_recs_simps [records]:
  "rs \<noteq> [] \<Longrightarrow> print_recs (r # rs) = joined ''<'' r @ CHR ''>'' # print_recs rs"
  "print_recs [r] = joined ''<'' r"
  by (simp_all add: print_recs_def joined_Cons)

lemma print_recs_prepend: "print_recs (((c # f) # fs) # rs) = c # print_recs ((f # fs) # rs)"
  by (cases rs) (simp_all add: print_recs_def joined_prepend)

lemma recs_print_recs:
  assumes "rs \<noteq> []" "\<forall>r \<in> set rs. r \<noteq> [] \<and> (\<forall>f \<in> set r. CHR ''<'' \<notin> set f \<and> CHR ''>'' \<notin> set f)"
  shows "recs (print_recs rs) = rs"
proof -
  have "c \<notin> set (joined ''<'' r)" if "\<forall>f \<in> set r. c \<notin> set f" "c = CHR ''>''" for r c
    using that by (induction "''<''" r rule: joined.induct) auto
  then have "split_on (CHR ''>'') (print_recs rs) = map (joined ''<'') rs"
    unfolding print_recs_def using assms by (intro split_on_joined) auto
  moreover have "map (split_on (CHR ''<'')) (map (joined ''<'') rs) = rs"
    using assms(2) split_on_joined by (simp add: o_def map_idI)
  ultimately show ?thesis
    by (simp add: recs_def)
qed

text \<open>Searching for the separator and splitting.\<close>

lemma strchr_first: "c \<notin> set w \<Longrightarrow> strchr (w @ c # q) c = Some (length w)"
  by (simp add: strchr_def takeWhile_upto)

lemma strchr_cases:
  assumes "c \<noteq> NUL"
  obtains "c \<notin> set s" "strchr s c = None" "split_on c s = [s]"
  | w q where "s = w @ c # q" "c \<notin> set w" "strchr s c = Some (length w)" "split_on c s = w # split_on c q"
proof (cases "c \<in> set s")
  case True
  then obtain w q where "s = w @ c # q" "c \<notin> set w"
    by (rule split_list_first [THEN exE]) blast
  then show thesis
    using that(2) by (simp add: strchr_first split_on_append)
next
  case False
  then show thesis
    using that(1) assms by (simp add: strchr_None)
qed

lemma joined_append [records]: "xs \<noteq> [] \<Longrightarrow> ys \<noteq> [] \<Longrightarrow> joined sep (xs @ ys) = joined sep xs @ sep @ joined sep ys"
proof (induction sep xs rule: joined.induct)
  case (1 sep)
  then show ?case by simp
next
  case (2 sep w)
  then show ?case by (simp add: joined_Cons)
next
  case (3 sep w v vs)
  then show ?case by simp
qed

lemma set_joined: "set (joined sep ws) \<subseteq> set sep \<union> (\<Union>w \<in> set ws. set w)"
  by (induction sep ws rule: joined.induct) auto

lemma joined_length_mono:
  "list_all2 (\<lambda>a b. length a \<le> length b) xs ys \<Longrightarrow> length (joined sep xs) \<le> length (joined sep ys)"
proof (induction xs ys rule: list_all2_induct)
  case Nil
  then show ?case by simp
next
  case (Cons x xs y ys)
  then show ?case
    by (cases xs; cases ys) (auto simp: joined_Cons)
qed

subsection \<open>Local time\<close>

text \<open>The fields of \<^verbatim>\<open>struct tm\<close> that schedules use.\<close>

record ltime =
  lt_min :: nat
  lt_hour :: nat
  lt_mday :: nat
  lt_mon :: nat
  lt_wday :: nat

text \<open>The conversion \<^verbatim>\<open>%d\<close> of \<^verbatim>\<open>sscanf\<close>: a number and the rest of the text.\<close>

definition scan_num :: "string \<Rightarrow> (int \<times> string) option" where
  "scan_num s =
     (let s = dropWhile isspace s; r = (if hd0 s = CHR ''-'' \<or> hd0 s = CHR ''+'' then tl s else s)
      in if isdigit (hd0 r) then Some (atoi s, dropWhile isdigit r) else None)"

text \<open>\<^verbatim>\<open>%2hhx\<close>: a hexadecimal number of at most two characters, sign or prefix included.\<close>

definition scan_hh :: "string \<Rightarrow> string option" where
  "scan_hh s =
     (let s = dropWhile isspace s
      in if hd0 s = CHR ''+'' \<or> hd0 s = CHR ''-'' then (if isxdigit (hd0 (tl s)) then Some (drop 2 s) else None)
         else if isxdigit (hd0 s) then
           Some (if isxdigit (hd0 (tl s)) \<or> (hd0 s = CHR ''0'' \<and> (hd0 (tl s) = CHR ''x'' \<or> hd0 (tl s) = CHR ''X'')) then drop 2 s else tl s)
         else None)"

fun scan_mac :: "nat \<Rightarrow> string \<Rightarrow> bool" where
  "scan_mac 0 s = True"
| "scan_mac (Suc n) s =
     (case scan_hh s of None \<Rightarrow> False | Some r \<Rightarrow> n = 0 \<or> (hd0 r = CHR '':'' \<and> scan_mac n (tl r)))"

end
