(* ===== verification/Rstats.thy ===== *)
theory Rstats
  imports History Wan Records
begin

section \<open>The bandwidth monitor: sampling\<close>

text \<open>
  The sampling half of \<^verbatim>\<open>rstats/rstats.c\<close>: once a minute \<^verbatim>\<open>calc\<close> reads the byte counters of
  every interface from \<^verbatim>\<open>/proc/net/dev\<close>, turns them into traffic since the last sample, writes that
  into the interface's ring of the last 24 hours, adds it to the daily and monthly history when the
  interface is the primary one of a WAN unit, and then ages the table of interfaces.  \<open>speeds\<close> holds the
  first \<^verbatim>\<open>speed_count\<close> entries of the array \<^verbatim>\<open>speed\<close>; \<open>speed_rtd\<close> is the whole second array, which is
  not moved together with the first.  \<^verbatim>\<open>unsigned long\<close> has 64 bits on the platforms of the firmware.
\<close>

subsection \<open>Data\<close>

definition SHOUR :: int where "SHOUR = 3600"
definition INTERVAL :: int where "INTERVAL = 60"
definition MAX_NSPEED :: nat where "MAX_NSPEED = 1440"
definition MAX_NDAILY :: nat where "MAX_NDAILY = 62"
definition MAX_NMONTHLY :: nat where "MAX_NMONTHLY = 121"
definition MAX_SPEED_IF :: nat where "MAX_SPEED_IF = 64"
definition MAX_ROLLOVER :: u64 where "MAX_ROLLOVER = 3750 * 1048576"
definition CURRENT_ID :: u32 where "CURRENT_ID = 0x31305352"

record history_t =
  hist_id :: u32
  daily :: "data_t list"
  dailyp :: int
  monthly :: "data_t list"
  monthlyp :: int

record speed_t =
  ifname :: string
  utime :: int
  speed :: "counters list"
  last_c :: counters
  tail :: int
  sync :: int

record speed_runtime_t =
  wan_unit :: int
  from_ifaceX :: bool

record rstats =
  history :: history_t
  speeds :: "speed_t list"
  speed_rtd :: "speed_runtime_t list"
  uptime :: int
  restarted :: bool

text \<open>What the program reads from its surroundings during one call.\<close>

record tm =
  tm_year :: nat
  tm_mon :: nat
  tm_mday :: nat
  tm_yday :: int

record world =
  w_nvram :: nvram
  w_sys :: sys
  w_flags :: "bool \<times> bool"
  w_now :: int
  w_localtime :: "int \<Rightarrow> tm"

definition get_stime :: "nvram \<Rightarrow> string \<Rightarrow> int" where
  "get_stime nv key =
     (let t = nvram_get_int nv key; t = (if t < 1 then 1 else if 8760 < t then 8760 else t) in t * SHOUR)"

definition clear_history :: history_t where
  "clear_history =
     \<lparr>hist_id = CURRENT_ID, daily = replicate MAX_NDAILY no_data, dailyp = 0,
      monthly = replicate MAX_NMONTHLY no_data, monthlyp = 0\<rparr>"

subsection \<open>Reading a line of counters\<close>

text \<open>The conversion \<^verbatim>\<open>%llu\<close> of \<^verbatim>\<open>sscanf\<close>, with \<^verbatim>\<open>strtoull\<close>'s treatment of signs and of large values.\<close>

definition scan_llu :: "string \<Rightarrow> (u64 \<times> string) option" where
  "scan_llu s =
     (let s = dropWhile isspace s; neg = hd0 s = CHR ''-'';
          s = (if neg \<or> hd0 s = CHR ''+'' then tl s else s);
          ds = takeWhile isdigit s; n = digits_value ds
      in if ds = [] then None
         else Some (if n < 2 ^ 64 then (if neg then - of_nat n else of_nat n) else - 1, drop (length ds) s))"

fun skip_u :: "nat \<Rightarrow> string \<Rightarrow> string option" where
  "skip_u 0 s = Some s"
| "skip_u (Suc n) s = (case scan_llu s of None \<Rightarrow> None | Some (_, r) \<Rightarrow> skip_u n r)"

definition scan_counters :: "string \<Rightarrow> counters option" where
  "scan_counters s =
     (case scan_llu s of
        None \<Rightarrow> None
      | Some (rx, r) \<Rightarrow>
          (case skip_u 7 r of
             None \<Rightarrow> None
           | Some r \<Rightarrow> (case scan_llu r of None \<Rightarrow> None | Some (tx, _) \<Rightarrow> Some (rx, tx))))"

definition after_last_space :: "string \<Rightarrow> string" where
  "after_last_space s = rev (takeWhile (\<lambda>c. c \<noteq> CHR '' '') (rev s))"

text \<open>The name and the rest of a line.\<close>

definition split_dev_line :: "string \<Rightarrow> (string \<times> string) option" where
  "split_dev_line buf =
     (case strchr buf CHR '':'' of
        None \<Rightarrow> None
      | Some k \<Rightarrow> Some (after_last_space (take k buf), drop (k + 1) buf))"

definition parse_dev_line :: "string \<Rightarrow> string \<Rightarrow> (string \<times> counters) option" where
  "parse_dev_line exclude buf =
     (case split_dev_line buf of
        None \<Rightarrow> None
      | Some (name, rest) \<Rightarrow>
          if name = ''lo'' \<or> find_word exclude name \<noteq> None then None
          else map_option (Pair name) (scan_counters rest))"

subsection \<open>One interface\<close>

fun find_speed :: "speed_t list \<Rightarrow> string \<Rightarrow> nat option" where
  "find_speed [] name = None"
| "find_speed (sp # sps) name = (if ifname sp = name then Some 0 else map_option Suc (find_speed sps name))"

definition new_speed :: "string \<Rightarrow> int \<Rightarrow> speed_t" where
  "new_speed name up =
     \<lparr>ifname = strlcpy name 12, utime = up, speed = replicate MAX_NSPEED (0, 0), last_c = (0, 0), tail = 0, sync = 1\<rparr>"

definition lookup_speed :: "speed_t list \<Rightarrow> string \<Rightarrow> int \<Rightarrow> (nat \<times> speed_t list) option" where
  "lookup_speed sps name up =
     (case find_speed sps name of
        Some i \<Rightarrow> Some (i, sps)
      | None \<Rightarrow> if MAX_SPEED_IF \<le> length sps then None else Some (length sps, sps @ [new_speed name up]))"

definition find_wan_unit :: "nvram \<Rightarrow> string \<Rightarrow> speed_runtime_t \<Rightarrow> speed_runtime_t" where
  "find_wan_unit nv name rtd =
     (if wan_unit rtd = 0 then
        let u = get_wan_unit_with_value nv ''_iface'' name
        in if u < 0 then
             let u = get_wan_unit_with_value nv ''_ifnameX'' name
             in rtd\<lparr>wan_unit := u, from_ifaceX := 0 < u\<rparr>
           else rtd\<lparr>wan_unit := u\<rparr>
      else rtd)"

text \<open>
  Traffic between two readings of a counter.  A counter that went backwards has wrapped around or was
  reset; large differences and differences right after the connection came up count as a reset.
\<close>

definition counter_diff :: "bool \<Rightarrow> u64 \<Rightarrow> u64 \<Rightarrow> u64" where
  "counter_diff fresh c sc =
     (if c < sc then
        let diff = (0xFFFFFFFFFFFFFFFF - sc + 1) + c
        in if MAX_ROLLOVER < diff then 0 else if fresh then 0 else diff
      else c - sc)"

definition wan_fresh :: "world \<Rightarrow> string \<Rightarrow> bool" where
  "wan_fresh w pre \<longleftrightarrow>
     check_wanup (w_nvram w) (w_sys w) (w_flags w) pre \<noteq> 0 \<and> check_wanup_time (w_sys w) pre < INTERVAL + 10"

fun push_speed :: "nat \<Rightarrow> counters \<Rightarrow> counters list \<Rightarrow> int \<Rightarrow> (counters list \<times> int) option" where
  "push_speed 0 v ring t = Some (ring, t)"
| "push_speed (Suc j) v ring t =
     (case ring_next t MAX_NSPEED of None \<Rightarrow> None | Some q \<Rightarrow> push_speed j v (ring[q := v]) (int q))"

text \<open>
  The entry after the sample and, unless the sample came too early, the traffic to account for.  The
  outer option is \<open>None\<close> when the ring index was outside the ring.
\<close>

definition sample :: "bool \<Rightarrow> bool \<Rightarrow> int \<Rightarrow> counters \<Rightarrow> speed_t \<Rightarrow> (speed_t \<times> counters option) option" where
  "sample fresh restart up cnt sp =
     (if sync sp \<noteq> 0 then Some (sp\<lparr>sync := - 1, last_c := cnt\<rparr>, Some (0, 0))
      else
        let sp = sp\<lparr>sync := - 1\<rparr>;
            sp = (if restart then sp\<lparr>last_c := cnt\<rparr> else sp);
            tick = up - utime sp;
            n = tick div INTERVAL
        in if tick < INTERVAL then Some (sp, None)
           else
             let d = (counter_diff fresh (fst cnt) (fst (last_c sp)), counter_diff fresh (snd cnt) (snd (last_c sp)));
                 v = (fst d div of_int n, snd d div of_int n)
             in case push_speed (nat n) v (speed sp) (tail sp) of
                  None \<Rightarrow> None
                | Some (ring, t) \<Rightarrow>
                    Some (sp\<lparr>utime := utime sp + n * INTERVAL, last_c := cnt, speed := ring, tail := t\<rparr>, Some d))"

subsection \<open>The history\<close>

definition day_key :: "tm \<Rightarrow> u32" where
  "day_key t = push_bit 16 (of_nat (tm_year t)) OR push_bit 8 (of_nat (tm_mon t)) OR of_nat (tm_mday t)"

definition month_key :: "tm \<Rightarrow> u32" where
  "month_key t = push_bit 16 (of_nat (tm_year t)) OR push_bit 8 (of_nat (tm_mon t))"

definition month_offset :: "nvram \<Rightarrow> string \<Rightarrow> int" where
  "month_offset nv key = (let n = nvram_get_int nv key in if n < 1 \<or> 31 < n then 1 else n)"

definition bump_daily :: "u32 \<Rightarrow> counters \<Rightarrow> history_t \<Rightarrow> history_t option" where
  "bump_daily x c h =
     (case bump (daily h) (dailyp h) x c of None \<Rightarrow> None | Some (d, p) \<Rightarrow> Some (h\<lparr>daily := d, dailyp := p\<rparr>))"

definition bump_monthly :: "u32 \<Rightarrow> counters \<Rightarrow> history_t \<Rightarrow> history_t option" where
  "bump_monthly x c h =
     (case bump (monthly h) (monthlyp h) x c of None \<Rightarrow> None | Some (d, p) \<Rightarrow> Some (h\<lparr>monthly := d, monthlyp := p\<rparr>))"

definition month_time :: "nvram \<Rightarrow> string \<Rightarrow> int \<Rightarrow> int" where
  "month_time nv key t = t + (1 - month_offset nv key) * (60 * 60 * 24)"

definition add_history :: "world \<Rightarrow> counters \<Rightarrow> history_t \<Rightarrow> history_t option" where
  "add_history w c h =
     (case bump_daily (day_key (w_localtime w (w_now w))) c h of
        None \<Rightarrow> None
      | Some h \<Rightarrow>
          bump_monthly (month_key (w_localtime w (month_time (w_nvram w) ''rstats_offset'' (w_now w)))) c h)"

text \<open>Whether the traffic of an interface goes into the history.\<close>

definition counts_for_wan :: "nvram \<Rightarrow> speed_runtime_t \<Rightarrow> bool" where
  "counts_for_wan nv rtd \<longleftrightarrow>
     0 < wan_unit rtd \<and> nvram_get_int nv ''ntp_ready'' \<noteq> 0 \<and>
     (let pre = get_wan_prefix (wan_unit rtd)
      in if get_wanx_proto nv pre = WP_DISABLED
         then from_ifaceX rtd \<and> nvram_get_int nv (strlcpy (pre @ ''_islan'') 16) \<noteq> 0
         else \<not> from_ifaceX rtd)"

subsection \<open>One line, and the table afterwards\<close>

definition calc_line :: "world \<Rightarrow> rstats \<Rightarrow> string \<Rightarrow> rstats option" where
  "calc_line w st buf =
     (case parse_dev_line (nvram_safe_get (w_nvram w) ''rstats_exclude'') buf of
        None \<Rightarrow> Some st
      | Some (name, cnt) \<Rightarrow>
          (case lookup_speed (speeds st) name (uptime st) of
             None \<Rightarrow> Some st
           | Some (i, sps) \<Rightarrow>
               let rtd = find_wan_unit (w_nvram w) name (speed_rtd st ! i);
                   fresh = wan_fresh w (get_wan_prefix (wan_unit rtd));
                   st = st\<lparr>speed_rtd := (speed_rtd st)[i := rtd]\<rparr>
               in case sample fresh (restarted st) (uptime st) cnt (sps ! i) of
                    None \<Rightarrow> None
                  | Some (sp, d) \<Rightarrow>
                      let st = st\<lparr>speeds := sps[i := sp]\<rparr>
                      in case d of
                           None \<Rightarrow> Some st
                         | Some c \<Rightarrow>
                             if counts_for_wan (w_nvram w) rtd
                             then map_option (\<lambda>h. st\<lparr>history := h\<rparr>) (add_history w c (history st))
                             else Some st))"

fun calc_lines :: "world \<Rightarrow> rstats \<Rightarrow> string list \<Rightarrow> rstats option" where
  "calc_lines w st [] = Some st"
| "calc_lines w st (l # ls) = (case calc_line w st l of None \<Rightarrow> None | Some st' \<Rightarrow> calc_lines w st' ls)"

text \<open>
  The clean-up loop: when it removes an entry, the entries behind it move up by one and the loop
  counter still advances.
\<close>

definition stale :: "string \<Rightarrow> int \<Rightarrow> speed_t \<Rightarrow> bool" where
  "stale exclude up sp \<longleftrightarrow> 10 * 60 < up - utime sp \<or> find_word exclude (ifname sp) \<noteq> None"

fun cleanup :: "string \<Rightarrow> int \<Rightarrow> speed_t list \<Rightarrow> speed_t list" where
  "cleanup exclude up [] = []"
| "cleanup exclude up [sp] =
     (if sync sp = - 1 then [sp\<lparr>sync := 0\<rparr>]
      else if stale exclude up sp then []
      else [sp\<lparr>sync := 1\<rparr>])"
| "cleanup exclude up (sp # sp2 # sps) =
     (if sync sp = - 1 then sp\<lparr>sync := 0\<rparr> # cleanup exclude up (sp2 # sps)
      else if stale exclude up sp then sp2 # cleanup exclude up sps
      else sp\<lparr>sync := 1\<rparr> # cleanup exclude up (sp2 # sps))"

subsection \<open>The pages of the web interface\<close>

definition nl :: string where "nl = [char_of (10 :: nat)]"

definition datajs_entry :: "data_t \<Rightarrow> string" where
  "datajs_entry d =
     ''[0x'' @ show_hex (unat (xtime d)) @ '',0x'' @ show_hex (unat (fst (counter d) div 1024)) @
     '',0x'' @ show_hex (unat (snd (counter d) div 1024)) @ '']''"

definition save_datajs :: "bool \<Rightarrow> history_t \<Rightarrow> string option" where
  "save_datajs is_daily h =
     (let name = (if is_daily then ''daily'' else ''monthly'');
          data = (if is_daily then daily h else monthly h);
          p = (if is_daily then dailyp h else monthlyp h);
          lim = (if is_daily then MAX_NDAILY else MAX_NMONTHLY)
      in map_option
           (\<lambda>ds. nl @ name @ ''_history = ['' @ nl @ joined '','' (map datajs_entry (used ds)) @ ''];'' @ nl)
           (ring_read data lim p))"

definition save_histjs :: "history_t \<Rightarrow> string option" where
  "save_histjs h =
     (case save_datajs True h of
        None \<Rightarrow> None
      | Some d \<Rightarrow> map_option (\<lambda>m. d @ m) (save_datajs False h))"

definition speedjs_counter :: "char \<Rightarrow> u64 list \<Rightarrow> string" where
  "speedjs_counter c ns =
     (let tot = foldl (+) 0 ns; tmax = foldl (\<lambda>m n. if m < n then n else m) 0 ns
      in '','' @ nl @ '' '' @ [c] @ ''x: ['' @ joined '','' (map (\<lambda>n. show_nat (unat n)) ns) @ ''],'' @ nl @
         '' '' @ [c] @ ''x_avg: '' @ show_nat (unat (tot div of_nat MAX_NSPEED)) @ '','' @ nl @
         '' '' @ [c] @ ''x_max: '' @ show_nat (unat tmax) @ '','' @ nl @
         '' '' @ [c] @ ''x_total: '' @ show_nat (unat tot))"

definition speedjs_entry :: "(string \<Rightarrow> bool) \<Rightarrow> speed_t \<Rightarrow> string option" where
  "speedjs_entry if_up sp =
     map_option
       (\<lambda>ring. CHR 39 # ifname sp @ CHR 39 # '': { up: '' @ (if if_up (ifname sp) then ''1'' else ''0'') @
          speedjs_counter CHR ''r'' (map fst ring) @ speedjs_counter CHR ''t'' (map snd ring))
       (ring_read (speed sp) MAX_NSPEED (tail sp))"

fun speedjs_entries :: "(string \<Rightarrow> bool) \<Rightarrow> speed_t list \<Rightarrow> string list option" where
  "speedjs_entries if_up [] = Some []"
| "speedjs_entries if_up (sp # sps) =
     (case speedjs_entry if_up sp of None \<Rightarrow> None | Some e \<Rightarrow> map_option ((#) e) (speedjs_entries if_up sps))"

definition save_speedjs :: "(string \<Rightarrow> bool) \<Rightarrow> speed_t list \<Rightarrow> int \<Rightarrow> string option" where
  "save_speedjs if_up sps nxt =
     map_option
       (\<lambda>es. nl @ ''speed_history = {'' @ nl @ joined ('' },'' @ nl) es @ (if sps = [] then [] else ''},'' @ nl) @
          ''_next: '' @ show_int (if 1 \<le> nxt then nxt else 1) @ ''};'' @ nl)
       (speedjs_entries if_up sps)"

subsection \<open>Well-formed states\<close>

definition speed_ok :: "speed_t \<Rightarrow> bool" where
  "speed_ok sp \<longleftrightarrow> length (ifname sp) < 12 \<and> length (speed sp) = MAX_NSPEED \<and> 0 \<le> tail sp \<and> tail sp < int MAX_NSPEED"

definition hist_ok :: "history_t \<Rightarrow> bool" where
  "hist_ok h \<longleftrightarrow> ring_ok MAX_NDAILY (daily h, dailyp h) \<and> ring_ok MAX_NMONTHLY (monthly h, monthlyp h)"

definition rst_ok :: "rstats \<Rightarrow> bool" where
  "rst_ok st \<longleftrightarrow> length (speeds st) \<le> MAX_SPEED_IF \<and> length (speed_rtd st) = MAX_SPEED_IF \<and>
     (\<forall>sp \<in> set (speeds st). speed_ok sp) \<and> hist_ok (history st)"

text \<open>The calendar: years count from 1900 and fit 16 bits, so that no time stamp is 0.\<close>

definition tm_ok :: "tm \<Rightarrow> bool" where
  "tm_ok t \<longleftrightarrow> 0 < tm_year t \<and> tm_year t < 2 ^ 16 \<and> tm_mon t < 12 \<and> tm_mday t < 32"

lemma ring_next_range: "0 \<le> t \<Longrightarrow> 0 < n \<Longrightarrow> \<exists>q. ring_next t n = Some q \<and> q < n"
  using ring_next_nat [of n "nat t"] by auto

lemma push_speed_ok:
  assumes "length ring = MAX_NSPEED" "0 \<le> t" "t < int MAX_NSPEED"
  shows "\<exists>ring' t'. push_speed n v ring t = Some (ring', t') \<and> length ring' = MAX_NSPEED \<and>
    0 \<le> t' \<and> t' < int MAX_NSPEED"
  using assms
proof (induction n arbitrary: ring t)
  case (Suc n)
  obtain q where "ring_next t MAX_NSPEED = Some q" "q < MAX_NSPEED"
    using ring_next_range [of t MAX_NSPEED] Suc.prems by (auto simp: MAX_NSPEED_def)
  with Suc.IH [of "ring[q := v]" "int q"] Suc.prems show ?case by simp
qed simp

lemma sample_ok:
  assumes "speed_ok sp"
  shows "\<exists>sp' d. sample fresh restart up cnt sp = Some (sp', d) \<and> speed_ok sp' \<and> ifname sp' = ifname sp"
proof -
  let ?n = "nat ((up - utime sp) div INTERVAL)"
  have p: "\<exists>ring t. push_speed ?n v (speed sp) (tail sp) = Some (ring, t) \<and> length ring = MAX_NSPEED \<and>
      0 \<le> t \<and> t < int MAX_NSPEED" for v
    using push_speed_ok assms by (simp add: speed_ok_def)
  show ?thesis
  proof (cases "sync sp \<noteq> 0 \<or> up - utime sp < INTERVAL")
    case True
    with assms show ?thesis
      by (auto simp: sample_def Let_def speed_ok_def)
  next
    case False
    define sc where "sc = (if restart then cnt else last_c sp)"
    define d where "d = (counter_diff fresh (fst cnt) (fst sc), counter_diff fresh (snd cnt) (snd sc))"
    define v :: counters where "v = (fst d div of_int ((up - utime sp) div INTERVAL), snd d div of_int ((up - utime sp) div INTERVAL))"
    obtain ring t where r: "push_speed ?n v (speed sp) (tail sp) = Some (ring, t)" "length ring = MAX_NSPEED"
        "0 \<le> t" "t < int MAX_NSPEED"
      using p by blast
    have "sample fresh restart up cnt sp =
        Some (sp\<lparr>sync := - 1, last_c := cnt, utime := utime sp + ((up - utime sp) div INTERVAL) * INTERVAL,
          speed := ring, tail := t\<rparr>, Some d)"
      using False r(1) by (cases restart) (simp_all add: sample_def Let_def v_def d_def sc_def)
    with r assms show ?thesis
      by (simp add: speed_ok_def)
  qed
qed

lemma key_nonzero:
  assumes "tm_ok t"
  shows "day_key t \<noteq> 0" "month_key t \<noteq> 0"
proof -
  have "(push_bit 16 (of_nat (tm_year t)) :: u32) = of_nat (tm_year t * 65536)"
    by (simp add: push_bit_eq_mult)
  also have "\<dots> \<noteq> 0"
    using assms unfolding word_of_nat_eq_0_iff by (auto simp: tm_ok_def dest: dvd_imp_le)
  finally show "day_key t \<noteq> 0" "month_key t \<noteq> 0"
    by (simp_all add: day_key_def month_key_def or_eq_0_iff)
qed

lemma add_history_ok:
  assumes "hist_ok h" "\<forall>t. tm_ok (w_localtime w t)"
  shows "\<exists>h'. add_history w c h = Some h' \<and> hist_ok h'"
proof -
  define x where "x = day_key (w_localtime w (w_now w))"
  define y where "y = month_key (w_localtime w (month_time (w_nvram w) ''rstats_offset'' (w_now w)))"
  have k: "x \<noteq> 0" "y \<noteq> 0"
    using assms(2) key_nonzero unfolding x_def y_def by blast+
  obtain d p where d: "bump (daily h) (dailyp h) x c = Some (d, p)" "ring_ok MAX_NDAILY (d, p)"
    using bump_window [OF _ k(1), of MAX_NDAILY "daily h" "dailyp h" c] assms(1) by (auto simp: hist_ok_def)
  obtain m q where m: "bump (monthly h) (monthlyp h) y c = Some (m, q)" "ring_ok MAX_NMONTHLY (m, q)"
    using bump_window [OF _ k(2), of MAX_NMONTHLY "monthly h" "monthlyp h" c] assms(1) by (auto simp: hist_ok_def)
  have "add_history w c h = Some (h\<lparr>daily := d, dailyp := p, monthly := m, monthlyp := q\<rparr>)"
    using d(1) m(1) by (simp add: add_history_def bump_daily_def bump_monthly_def Let_def flip: x_def y_def)
  with d(2) m(2) show ?thesis
    by (simp add: hist_ok_def)
qed

lemma find_speed_nth: "find_speed sps name = Some i \<Longrightarrow> i < length sps \<and> ifname (sps ! i) = name"
  by (induction sps arbitrary: i) (auto split: if_splits)

lemma find_speed_None: "find_speed sps name = None \<longleftrightarrow> name \<notin> ifname ` set sps"
  by (induction sps) auto

lemma new_speed_ok: "speed_ok (new_speed name up)"
  by (simp add: speed_ok_def new_speed_def strlcpy_def MAX_NSPEED_def)

lemma lookup_speed_ok:
  assumes "lookup_speed sps name up = Some (i, sps')" "length sps \<le> MAX_SPEED_IF" "\<forall>sp \<in> set sps. speed_ok sp"
  shows "i < length sps' \<and> length sps' \<le> MAX_SPEED_IF \<and> (\<forall>sp \<in> set sps'. speed_ok sp)"
  using assms find_speed_nth [of sps name i] new_speed_ok
  by (auto simp: lookup_speed_def split: option.splits if_splits)

lemma calc_line_ok:
  assumes "rst_ok st" "\<forall>t. tm_ok (w_localtime w t)"
  shows "\<exists>st'. calc_line w st buf = Some st' \<and> rst_ok st' \<and> uptime st' = uptime st \<and> restarted st' = restarted st"
proof (cases "parse_dev_line (nvram_safe_get (w_nvram w) ''rstats_exclude'') buf")
  case None
  with assms show ?thesis by (simp add: calc_line_def)
next
  case (Some nc)
  obtain name cnt where nc: "nc = (name, cnt)" by (rule prod.exhaust)
  show ?thesis
  proof (cases "lookup_speed (speeds st) name (uptime st)")
    case None
    with Some nc assms show ?thesis by (simp add: calc_line_def)
  next
    case l: (Some r)
    obtain i sps where r: "r = (i, sps)" by (rule prod.exhaust)
    have i: "i < length sps" "length sps \<le> MAX_SPEED_IF" "\<forall>sp \<in> set sps. speed_ok sp"
      using lookup_speed_ok [of "speeds st" name "uptime st" i sps] l r assms(1) by (auto simp: rst_ok_def)
    define rtd where "rtd = find_wan_unit (w_nvram w) name (speed_rtd st ! i)"
    obtain sp d where s: "sample (wan_fresh w (get_wan_prefix (wan_unit rtd))) (restarted st) (uptime st) cnt (sps ! i) = Some (sp, d)"
        "speed_ok sp"
      using sample_ok [of "sps ! i" "wan_fresh w (get_wan_prefix (wan_unit rtd))" "restarted st" "uptime st" cnt] i nth_mem by blast
    define st1 where "st1 = st\<lparr>speed_rtd := (speed_rtd st)[i := rtd], speeds := sps[i := sp]\<rparr>"
    have "\<forall>sp' \<in> set (sps[i := sp]). speed_ok sp'"
      using i(3) s(2) set_update_subset_insert [of sps i sp] by blast
    then have ok1: "rst_ok st1" "uptime st1 = uptime st" "restarted st1 = restarted st" "history st1 = history st"
      using assms(1) i by (simp_all add: rst_ok_def st1_def)
    have e: "calc_line w st buf = (case d of None \<Rightarrow> Some st1
        | Some c \<Rightarrow> if counts_for_wan (w_nvram w) rtd then map_option (\<lambda>h. st1\<lparr>history := h\<rparr>) (add_history w c (history st1)) else Some st1)"
      using Some nc l r s(1) by (cases d) (simp_all add: calc_line_def Let_def st1_def rtd_def)
    show ?thesis
    proof (cases d)
      case None
      with e ok1 show ?thesis by simp
    next
      case (Some c)
      obtain h where "add_history w c (history st1) = Some h" "hist_ok h"
        using add_history_ok [OF _ assms(2), of "history st1" c] ok1(1) by (auto simp: rst_ok_def)
      with e ok1 Some show ?thesis
        by (simp add: rst_ok_def)
    qed
  qed
qed

lemma calc_lines_ok:
  assumes "\<forall>t. tm_ok (w_localtime w t)"
  shows "rst_ok st \<Longrightarrow> \<exists>st'. calc_lines w st ls = Some st' \<and> rst_ok st' \<and> uptime st' = uptime st \<and> restarted st' = restarted st"
proof (induction ls arbitrary: st)
  case (Cons l ls)
  then obtain st1 where "calc_line w st l = Some st1" "rst_ok st1" "uptime st1 = uptime st" "restarted st1 = restarted st"
    using calc_line_ok [OF _ assms] by blast
  with Cons.IH [of st1] show ?case by simp
qed simp

lemma speed_ok_sync [simp]: "speed_ok (sp\<lparr>sync := y\<rparr>) = speed_ok sp"
  by (simp add: speed_ok_def)

lemma cleanup_length: "length (cleanup exclude up sps) \<le> length sps"
  by (induction exclude up sps rule: cleanup.induct) auto

lemma cleanup_speed_ok: "\<forall>sp \<in> set sps. speed_ok sp \<Longrightarrow> \<forall>sp \<in> set (cleanup exclude up sps). speed_ok sp"
  by (induction exclude up sps rule: cleanup.induct) simp_all

lemma rst_ok_cleanup: "rst_ok st \<Longrightarrow> rst_ok (st\<lparr>speeds := cleanup exclude up (speeds st)\<rparr>)"
  using cleanup_length [of exclude up "speeds st"] cleanup_speed_ok [of "speeds st" exclude up]
  by (simp add: rst_ok_def)

subsection \<open>Traffic between readings\<close>



definition le_counters :: "counters \<Rightarrow> counters \<Rightarrow> bool" where
  "le_counters a b \<longleftrightarrow> fst a \<le> fst b \<and> snd a \<le> snd b"






lemma le_counters_trans: "le_counters a b \<Longrightarrow> le_counters b c \<Longrightarrow> le_counters a c"
  by (auto simp: le_counters_def)

lemma le_counters_refl [simp]: "le_counters a a"
  by (simp add: le_counters_def)


subsection \<open>The history as a window\<close>

interpretation daily: window_store hist_ok "\<lambda>h. ring_view (daily h, dailyp h)" bump_daily MAX_NDAILY
proof
  show "0 < MAX_NDAILY" by (simp add: MAX_NDAILY_def)
next
  fix h
  assume "hist_ok h"
  then show "length (ring_view (daily h, dailyp h)) = MAX_NDAILY"
    by (simp add: hist_ok_def ring_ok_def ring_view_def)
next
  fix h x c
  assume "hist_ok h" "(x :: u32) \<noteq> 0"
  then show "\<exists>h'. bump_daily x c h = Some h' \<and> hist_ok h' \<and>
      ring_view (daily h', dailyp h') = record_traffic x c (ring_view (daily h, dailyp h))"
    using bump_window [of MAX_NDAILY "daily h" "dailyp h" x c] by (auto simp: bump_daily_def hist_ok_def)
qed

interpretation monthly: window_store hist_ok "\<lambda>h. ring_view (monthly h, monthlyp h)" bump_monthly MAX_NMONTHLY
proof
  show "0 < MAX_NMONTHLY" by (simp add: MAX_NMONTHLY_def)
next
  fix h
  assume "hist_ok h"
  then show "length (ring_view (monthly h, monthlyp h)) = MAX_NMONTHLY"
    by (simp add: hist_ok_def ring_ok_def ring_view_def)
next
  fix h x c
  assume "hist_ok h" "(x :: u32) \<noteq> 0"
  then show "\<exists>h'. bump_monthly x c h = Some h' \<and> hist_ok h' \<and>
      ring_view (monthly h', monthlyp h') = record_traffic x c (ring_view (monthly h, monthlyp h))"
    using bump_window [of MAX_NMONTHLY "monthly h" "monthlyp h" x c] by (auto simp: bump_monthly_def hist_ok_def)
qed

lemma window_replicate: "window (replicate n x) t = replicate n x"
  by (simp add: window_def flip: replicate_add)

lemma ring_ok_cleared: "0 < n \<Longrightarrow> ring_ok n (replicate n no_data, 0)"
  by (simp add: ring_ok_def keys_ok_def used_def no_data_def)

lemma clear_history_ok: "hist_ok clear_history"
  by (simp add: hist_ok_def clear_history_def ring_ok_cleared MAX_NDAILY_def MAX_NMONTHLY_def)

lemma clear_history_view:
  "ring_view (daily clear_history, dailyp clear_history) = replicate MAX_NDAILY no_data"
  "ring_view (monthly clear_history, monthlyp clear_history) = replicate MAX_NMONTHLY no_data"
  by (simp_all add: clear_history_def ring_view_def window_replicate)

lemma save_datajs_daily:
  assumes "hist_ok h"
  shows "save_datajs True h = Some (nl @ ''daily_history = ['' @ nl @
    joined '','' (map datajs_entry (used (ring_view (daily h, dailyp h)))) @ ''];'' @ nl)"
proof -
  have "ring_read (daily h) MAX_NDAILY (dailyp h) = Some (ring_view (daily h, dailyp h))"
    using assms ring_read_window [of "nat (dailyp h)" "daily h"] by (auto simp: hist_ok_def ring_ok_def ring_view_def)
  then show ?thesis
    by (simp add: save_datajs_def)
qed

subsection \<open>Long names\<close>

lemma long_name_not_found:
  assumes "rst_ok st" "12 \<le> length name"
  shows "find_speed (speeds st) name = None"
  using assms by (auto simp: find_speed_None rst_ok_def speed_ok_def)

lemma long_name_line:
  assumes "rst_ok st" "12 \<le> length name" "length (speeds st) < MAX_SPEED_IF"
    "parse_dev_line (nvram_safe_get (w_nvram w) ''rstats_exclude'') buf = Some (name, cnt)"
    "calc_line w st buf = Some st'"
  shows "speeds st' = speeds st @ [(new_speed name (uptime st))\<lparr>sync := - 1, last_c := cnt\<rparr>] \<and>
    (history st' = history st \<or> add_history w (0, 0) (history st) = Some (history st'))"
proof -
  have "lookup_speed (speeds st) name (uptime st) = Some (length (speeds st), speeds st @ [new_speed name (uptime st)])"
    using long_name_not_found [OF assms(1,2)] assms(3) by (simp add: lookup_speed_def)
  then show ?thesis
    using assms(4,5)
    by (auto simp: calc_line_def sample_def new_speed_def Let_def split: if_splits option.splits)
qed

subsection \<open>Properties\<close>

text \<open>C24: sampling is safe.  From a well-formed state and a calendar whose years fit 16 bits, every
  sequence of lines of \<^verbatim>\<open>/proc/net/dev\<close> followed by the clean-up is processed without an access outside
  the rings or the tables, and the resulting state is well formed again.\<close>

theorem calc_safe:
  assumes "rst_ok st" "\<forall>t. tm_ok (w_localtime w t)"
  shows "\<exists>st'. calc_lines w st ls = Some st' \<and> rst_ok st' \<and>
    rst_ok (st'\<lparr>speeds := cleanup exclude (uptime st) (speeds st')\<rparr>)"
  using calc_lines_ok [OF assms(2,1), of ls] rst_ok_cleanup by blast

definition no_sys :: sys where
  "no_sys = \<lparr>file_text = Map.empty, psname = (\<lambda>_. []), socket_ok = False, if_flags = Map.empty,
     wan_time = Map.empty, sys_uptime = 0\<rparr>"

definition day_world :: world where
  "day_world = \<lparr>w_nvram = Map.empty, w_sys = no_sys, w_flags = (False, False), w_now = 0,
     w_localtime = (\<lambda>t. \<lparr>tm_year = 126, tm_mon = 0, tm_mday = 1, tm_yday = 0\<rparr>)\<rparr>"

definition start_state :: rstats where
  "start_state = \<lparr>history = clear_history, speeds = [],
     speed_rtd = replicate MAX_SPEED_IF \<lparr>wan_unit = 0, from_ifaceX = False\<rparr>, uptime = 100, restarted = False\<rparr>"

lemma start_state_ok: "rst_ok start_state"
  by (simp add: rst_ok_def start_state_def clear_history_ok)

lemma day_world_ok: "tm_ok (w_localtime day_world t)"
  by (simp add: day_world_def tm_ok_def)

theorem calc_safe_witness:
  "\<exists>st'. calc_lines day_world start_state [''eth0: 1 0 0 0 0 0 0 0 2''] = Some st' \<and> rst_ok st' \<and>
    rst_ok (st'\<lparr>speeds := cleanup [] (uptime start_state) (speeds st')\<rparr>)"
  by (rule calc_safe) (simp_all add: start_state_ok day_world_ok)



text \<open>C15: the daily page shows the totals of the days.  After any sequence of additions to an empty
  history whose dates do not run backwards and span at most the 62 days of the ring, the page lists each
  day once, in order, with the sum of its traffic.\<close>

theorem daily_page_correct:
  assumes "sorted (map fst evs)" "0 \<notin> fst ` set evs" "card (fst ` set evs) \<le> MAX_NDAILY"
  shows "\<exists>h. fold_put bump_daily evs clear_history = Some h \<and>
    save_datajs True h = Some (nl @ ''daily_history = ['' @ nl @ joined '','' (map datajs_entry (totals evs)) @ ''];'' @ nl)"
proof -
  obtain h where h: "fold_put bump_daily evs clear_history = Some h" "used (ring_view (daily h, dailyp h)) = totals evs"
    using daily.puts_used [OF clear_history_ok clear_history_view(1) assms] by blast
  moreover have "hist_ok h"
    using daily.puts_view [OF clear_history_ok clear_history_view(1) assms(1,2)] h(1) by auto
  ultimately show ?thesis
    by (simp add: save_datajs_daily)
qed

theorem daily_page_correct_witness:
  "\<exists>h. fold_put bump_daily [(8257537, (2048, 0)), (8257537, (1024, 1024)), (8257538, (0, 5))] clear_history = Some h \<and>
    save_datajs True h = Some (nl @ ''daily_history = ['' @ nl @ joined '',''
      (map datajs_entry (totals [(8257537, (2048, 0)), (8257537, (1024, 1024)), (8257538, (0, 5))])) @ ''];'' @ nl)"
  by (rule daily_page_correct) (simp_all add: MAX_NDAILY_def)

text \<open>C29: the monthly history keeps the newest 121 months.  For dates that do not run backwards, the
  ring always holds the newest totals, oldest first, after unused entries while there are fewer.\<close>

theorem monthly_history_window:
  assumes "sorted (map fst evs)" "0 \<notin> fst ` set evs"
  shows "\<exists>h. fold_put bump_monthly evs clear_history = Some h \<and> hist_ok h \<and>
    ring_view (monthly h, monthlyp h) = last_n MAX_NMONTHLY (replicate MAX_NMONTHLY no_data @ totals evs)"
  using monthly.puts_view [OF clear_history_ok clear_history_view(2) assms] by blast

theorem monthly_history_window_witness:
  "\<exists>h. fold_put bump_monthly [(8257536, (1, 2)), (8257792, (3, 4))] clear_history = Some h \<and> hist_ok h \<and>
    ring_view (monthly h, monthlyp h) =
      last_n MAX_NMONTHLY (replicate MAX_NMONTHLY no_data @ totals [(8257536, (1, 2)), (8257792, (3, 4))])"
  by (rule monthly_history_window) simp_all

text \<open>An interface whose name has 12 or more characters is never recognised, because the table keeps
  only 11 of them: each time its line is read while the table has room, a new entry is made, and what
  the history receives is zero traffic.\<close>

theorem long_names_never_counted:
  assumes "rst_ok st" "12 \<le> length name" "length (speeds st) < MAX_SPEED_IF"
    "parse_dev_line (nvram_safe_get (w_nvram w) ''rstats_exclude'') buf = Some (name, cnt)"
    "calc_line w st buf = Some st'"
  shows "length (speeds st') = Suc (length (speeds st)) \<and>
    (history st' = history st \<or> add_history w (0, 0) (history st) = Some (history st'))"
  using long_name_line [OF assms] by auto

definition long_line :: string where
  "long_line = '' openvpn-client1: 1 0 0 0 0 0 0 0 2''"

lemma scan_one_digit:
  "isdigit c \<Longrightarrow> r = [] \<or> \<not> isdigit (hd r) \<Longrightarrow> scan_llu (CHR '' '' # c # r) = Some (of_nat (of_char c - 48), r)"
  using isdigit_not_space [of c]
  by (cases r) (auto simp: scan_llu_def hd0_def digits_value_def isdigit_def isspace_def Let_def of_nat_diff)

lemma skip_u_7: "skip_u 7 = skip_u (Suc (Suc (Suc (Suc (Suc (Suc (Suc 0)))))))"
  by (simp add: numeral_eq_Suc)

lemma long_line_parsed: "parse_dev_line [] long_line = Some (''openvpn-client1'', (1, 2))"
proof -
  have "split_dev_line long_line = Some (''openvpn-client1'', '' 1 0 0 0 0 0 0 0 2'')" "find_word [] ''openvpn-client1'' = None"
    by code_simp+
  moreover have "scan_counters '' 1 0 0 0 0 0 0 0 2'' = Some (1, 2)"
    by (simp add: scan_counters_def skip_u_7 scan_one_digit isdigit_def)
  ultimately show ?thesis
    by (simp add: parse_dev_line_def)
qed

theorem long_names_never_counted_witness:
  "\<exists>st'. calc_line day_world start_state long_line = Some st' \<and> length (speeds st') = Suc (length (speeds start_state)) \<and>
    (history st' = history start_state \<or> add_history day_world (0, 0) (history start_state) = Some (history st'))"
proof -
  obtain st' where st': "calc_line day_world start_state long_line = Some st'"
    using calc_line_ok [OF start_state_ok] day_world_ok by blast
  have p: "parse_dev_line (nvram_safe_get (w_nvram day_world) ''rstats_exclude'') long_line = Some (''openvpn-client1'', (1, 2))"
    using long_line_parsed by (simp add: day_world_def nvram_safe_get_def)
  show ?thesis
    using long_names_never_counted [OF start_state_ok _ _ p st'] st' by (simp add: start_state_def MAX_SPEED_IF_def)
qed

text \<open>The clean-up loop steps over the entry that follows a removed one.  That entry keeps the mark of
  the last sample, and the next sample then only synchronises: the traffic since the last one is dropped.\<close>

theorem cleanup_skips_next:
  assumes "sync sp \<noteq> - 1" "stale exclude up sp" "sync sp2 = - 1"
  shows "hd (cleanup exclude up (sp # sp2 # sps)) = sp2 \<and>
    sample fresh restart up' cnt sp2 = Some (sp2\<lparr>last_c := cnt\<rparr>, Some (0, 0))"
  using assms by (simp add: sample_def)

theorem cleanup_skips_next_witness:
  "hd (cleanup [] 1000 [new_speed ''ppp0'' 0, (new_speed ''vlan2'' 940)\<lparr>sync := - 1\<rparr>]) =
      (new_speed ''vlan2'' 940)\<lparr>sync := - 1\<rparr> \<and>
    sample False False 1060 (7, 9) ((new_speed ''vlan2'' 940)\<lparr>sync := - 1\<rparr>) =
      Some ((new_speed ''vlan2'' 940)\<lparr>sync := - 1, last_c := (7, 9)\<rparr>, Some (0, 0))"
  using cleanup_skips_next [of "new_speed ''ppp0'' 0" "[]" 1000 "(new_speed ''vlan2'' 940)\<lparr>sync := - 1\<rparr>" "[]" False False 1060 "(7, 9)"]
  by (simp add: new_speed_def stale_def)

end
