(* ===== verification/Archive.thy ===== *)
theory Archive
  imports Rstats Ifnames
begin

section \<open>The bandwidth monitor: saving, loading and the main loop\<close>

text \<open>
  The other half of \<^verbatim>\<open>rstats/rstats.c\<close>: writing the data to the RAM disk and, from time to time, to
  NVRAM or to a file on permanent storage with a rotation of five daily backups; finding the newest good
  copy at start-up; the main loop with its signals.

  Files are a map from paths to contents.  How the compression library stores the structures, and the
  memory layout of a \<^verbatim>\<open>long\<close>, are the record \<open>layout\<close>: what the programs rely on is \<open>layout_ok\<close>, that data
  that were written are read back.  What a call finds outside (whether an action is in progress, which
  places can be written, the day, a pending signal) is the record \<open>attempt\<close>, one for each turn of a
  retry loop; a loop that waits for storage forever has as many turns as attempts are given.  A file
  that cannot be opened for writing is left alone.
\<close>

subsection \<open>Files\<close>

type_synonym files = "string \<Rightarrow> u8 list option"

definition HI_BACK :: nat where "HI_BACK = 5"

definition history_fn :: string where "history_fn = ''/var/lib/misc/rstats-history''"
definition speed_fn :: string where "speed_fn = ''/var/lib/misc/rstats-speed''"
definition source_fn :: string where "source_fn = ''/var/lib/misc/rstats-source''"
definition stime_fn :: string where "stime_fn = ''/var/lib/misc/rstats-stime''"
definition load_fn :: string where "load_fn = ''/var/tmp/rstats-load''"

record layout =
  gz_history :: "history_t \<Rightarrow> u8 list"
  gunzip_history :: "u8 list \<Rightarrow> history_t list"
  gz_speeds :: "speed_t list \<Rightarrow> u8 list"
  gunzip_speeds :: "u8 list \<Rightarrow> speed_t list"
  put_long :: "int \<Rightarrow> u8 list"
  get_long :: "u8 list \<Rightarrow> int option"

text \<open>What is relied on when the data of a state are written and read.\<close>

definition layout_ok :: "layout \<Rightarrow> rstats \<Rightarrow> bool" where
  "layout_ok y st \<longleftrightarrow>
     gunzip_history y (gz_history y (history st)) = [history st] \<and> gunzip_speeds y (gz_speeds y (speeds st)) = speeds st"

record attempt =
  a_idle :: bool
  a_files :: "files \<Rightarrow> files"
  a_writable :: "string \<Rightarrow> bool"
  a_dir :: "string \<Rightarrow> bool"
  a_unmounted :: "string \<Rightarrow> bool"
  a_yday :: int
  a_yday_speed :: int
  a_term :: bool

definition write_file :: "(string \<Rightarrow> bool) \<Rightarrow> string \<Rightarrow> u8 list \<Rightarrow> files \<Rightarrow> files" where
  "write_file ok path b fs = (if ok path then fs(path \<mapsto> b) else fs)"

definition cp :: "(string \<Rightarrow> bool) \<Rightarrow> string \<Rightarrow> string \<Rightarrow> files \<Rightarrow> bool \<times> files" where
  "cp ok src dst fs =
     (case fs src of None \<Rightarrow> (False, fs) | Some b \<Rightarrow> if ok dst then (True, fs(dst \<mapsto> b)) else (False, fs))"

definition rename :: "(string \<Rightarrow> bool) \<Rightarrow> string \<Rightarrow> string \<Rightarrow> files \<Rightarrow> bool \<times> files" where
  "rename ok src dst fs =
     (case fs src of
        None \<Rightarrow> (False, fs)
      | Some b \<Rightarrow> if ok src \<and> ok dst then (True, fs(src := None, dst := Some b)) else (False, fs))"

definition comp :: "(string \<Rightarrow> bool) \<Rightarrow> string \<Rightarrow> u8 list \<Rightarrow> files \<Rightarrow> files" where
  "comp ok path b fs = write_file ok (path @ ''.gz'') b fs"

text \<open>\<^verbatim>\<open>decomp\<close>: the whole structures that a file holds, at most as many as there is room for.\<close>

definition decomp :: "files \<Rightarrow> string \<Rightarrow> (u8 list \<Rightarrow> 'a list) \<Rightarrow> nat \<Rightarrow> 'a list" where
  "decomp fs fname unzip lim = (case fs fname of None \<Rightarrow> [] | Some b \<Rightarrow> take lim (unzip b))"

definition load_history :: "layout \<Rightarrow> files \<Rightarrow> string \<Rightarrow> history_t option" where
  "load_history y fs fname = (case decomp fs fname (gunzip_history y) 1 of [] \<Rightarrow> None | h # _ \<Rightarrow> Some h)"

definition load_speed :: "layout \<Rightarrow> files \<Rightarrow> string \<Rightarrow> speed_t list" where
  "load_speed y fs fname = decomp fs fname (gunzip_speeds y) MAX_SPEED_IF"

subsection \<open>Backups\<close>

definition bak_base :: "string \<Rightarrow> string" where
  "bak_base path =
     (let n = length path in if 3 < n \<and> drop (n - 3) path = ''.gz'' then take (n - 3) path else path)"

definition bak_name :: "string \<Rightarrow> nat \<Rightarrow> string" where
  "bak_name path b = bak_base path @ ''_'' @ show_nat b @ ''.bak''"

fun rotate_loop :: "(string \<Rightarrow> bool) \<Rightarrow> string \<Rightarrow> nat \<Rightarrow> files \<Rightarrow> files" where
  "rotate_loop ok path 0 fs = fs"
| "rotate_loop ok path (Suc b) fs =
     rotate_loop ok path b (snd (rename ok (bak_name path (Suc b)) (bak_name path (Suc (Suc b))) fs))"

definition backup :: "nvram \<Rightarrow> string \<Rightarrow> (string \<Rightarrow> bool) \<Rightarrow> int \<Rightarrow> string \<Rightarrow> files \<times> int \<Rightarrow> files \<times> int" where
  "backup nv bakvar ok yday path s =
     (if \<not> nvram_match nv bakvar ''0'' \<and> snd s \<noteq> yday then
        let fs = rotate_loop ok path (HI_BACK - 1) (fst s)
        in case cp ok path (bak_name path 1) fs of
             (True, fs) \<Rightarrow> (fs, yday)
           | (False, fs) \<Rightarrow> (fs, snd s)
      else s)"

text \<open>
  One copy of a file from the RAM disk to its place: to a temporary name first, then the backups, then
  the rename.
\<close>

definition archive_file ::
  "nvram \<Rightarrow> string \<Rightarrow> (string \<Rightarrow> bool) \<Rightarrow> int \<Rightarrow> string \<Rightarrow> string \<Rightarrow> files \<times> int \<Rightarrow> bool \<times> files \<times> int" where
  "archive_file nv bakvar ok yday src path s =
     (let tmp = path @ ''.tmp''
      in case cp ok src tmp (fst s) of
           (False, fs) \<Rightarrow> (False, fs, snd s)
         | (True, fs) \<Rightarrow>
             let (fs, lastbak) = backup nv bakvar ok yday path (fs, snd s);
                 (done, fs) = rename ok tmp path fs
             in (done, fs, lastbak))"

subsection \<open>Saving\<close>

record rstore =
  files :: files
  lastbak :: int
  nvm :: nvram
  save_utime :: int
  save_path :: string
  speed_save_path :: string

fun save_loop :: "attempt list \<Rightarrow> rstore \<Rightarrow> rstore" where
  "save_loop [] r = r"
| "save_loop (a # as) r =
     (let fs = a_files a (files r);
          (ok, fs, lb) =
            (if a_idle a
             then archive_file (nvm r) ''rstats_bak'' (a_writable a) (a_yday a) (history_fn @ ''.gz'') (save_path r) (fs, lastbak r)
             else (False, fs, lastbak r))
      in if ok then
           let (_, fs, lb) =
             archive_file (nvm r) ''rstats_bak'' (a_writable a) (a_yday_speed a) (speed_fn @ ''.gz'') (speed_save_path r) (fs, lb)
           in r\<lparr>files := fs, lastbak := lb\<rparr>
         else
           let r = r\<lparr>files := fs, lastbak := lb\<rparr>
           in if a_term a then r else save_loop as r)"

definition save_local :: "layout \<Rightarrow> (string \<Rightarrow> bool) \<Rightarrow> rstats \<Rightarrow> rstore \<Rightarrow> rstore" where
  "save_local y ok st r =
     (let fs = write_file ok stime_fn (put_long y (save_utime r)) (files r);
          fs = comp ok speed_fn (gz_speeds y (speeds st)) fs;
          fs = comp ok history_fn (gz_history y (history st)) fs;
          fs = write_file ok source_fn (map byte_of (save_path r)) fs
      in r\<lparr>files := fs\<rparr>)"

definition save :: "layout \<Rightarrow> (string \<Rightarrow> bool) \<Rightarrow> attempt list \<Rightarrow> rstats \<Rightarrow> bool \<Rightarrow> rstore \<Rightarrow> rstore" where
  "save y ok as st quick r =
     (let r = save_local y ok st r
      in if quick then r
         else if save_path r = ''*nvram'' then
           (case as of
              [] \<Rightarrow> r
            | a # _ \<Rightarrow>
                if \<not> a_idle a then r
                else case files r (history_fn @ ''.gz'') of
                       None \<Rightarrow> r
                     | Some b \<Rightarrow>
                         let b = take (20 * 1024) b
                         in if b = [] then r else r\<lparr>nvm := (nvm r)(''rstats_data'' \<mapsto> base64_encode b)\<rparr>)
         else if save_path r \<noteq> [] then save_loop (take 15 as) r
         else r)"

subsection \<open>Loading\<close>

definition mac_text :: "nvram \<Rightarrow> string" where
  "mac_text nv = concat (map (hex_byte ''0123456789abcdef'') (snd (ether_atoe (nvram_safe_get nv ''lan_hwaddr''))))"

definition history_path :: "nvram \<Rightarrow> string \<Rightarrow> string \<Rightarrow> string" where
  "history_path nv var name =
     (let p = strlcpy (nvram_safe_get nv var) (96 - 32)
      in if p \<noteq> [] \<and> last p = CHR ''/'' then strlcpy (p @ name @ mac_text nv @ ''.gz'') 96 else p)"

definition speed_path :: "nvram \<Rightarrow> string" where
  "speed_path nv =
     (let p = strlcpy (nvram_safe_get nv ''rstats_path'') (96 - 32)
      in if p \<noteq> [] \<and> last p = CHR ''/'' then strlcpy (p @ ''tomato_rstatss_'' @ mac_text nv @ ''.gz'') 96
         else strlcat (bak_base p) ''-s.gz'' 96)"

definition load_save_utime :: "layout \<Rightarrow> files \<Rightarrow> string \<Rightarrow> int \<Rightarrow> int \<Rightarrow> int" where
  "load_save_utime y fs fname up stime =
     (let v = (case fs fname of None \<Rightarrow> 0 | Some b \<Rightarrow> (case get_long y b of None \<Rightarrow> 0 | Some v \<Rightarrow> v));
          t = up + stime
      in if v < up \<or> t < v then t else v)"

text \<open>The backups from the oldest, then the file itself again; the last one that loads remains.\<close>

definition hardway_names :: "string \<Rightarrow> string list" where
  "hardway_names fname = map (bak_name fname) (rev [1..<HI_BACK + 1]) @ [fname]"

definition try_hardway :: "layout \<Rightarrow> files \<Rightarrow> string \<Rightarrow> history_t option" where
  "try_hardway y fs fname =
     foldl (\<lambda>found fn. case load_history y fs fn of None \<Rightarrow> found | Some h \<Rightarrow> Some h) None (hardway_names fname)"

text \<open>For the speed data the function returns the variable \<^verbatim>\<open>speed_count\<close>, not what was loaded.\<close>

definition try_hardway_speed :: "layout \<Rightarrow> files \<Rightarrow> string \<Rightarrow> nat \<Rightarrow> nat" where
  "try_hardway_speed y fs fname speed_count =
     (if \<exists>fn \<in> set (hardway_names fname). load_speed y fs fn \<noteq> [] then speed_count else 0)"

definition external :: "string \<Rightarrow> bool" where
  "external path \<longleftrightarrow> path \<noteq> [] \<and> path \<noteq> ''*nvram''"

text \<open>
  The array after \<^verbatim>\<open>load_speed\<close> failed has no entries, so that \<^verbatim>\<open>try_hardway\<close> is called with a count of 0.
\<close>

definition load_speeds :: "layout \<Rightarrow> files \<Rightarrow> rstore \<Rightarrow> speed_t list" where
  "load_speeds y fs r =
     (let local = decomp fs (speed_fn @ ''.gz'') (gunzip_speeds y) MAX_SPEED_IF
      in if external (save_path r) then
           let sps = load_speed y fs (speed_save_path r)
           in if sps \<noteq> [] then sps
              else let n = try_hardway_speed y fs (speed_save_path r) (length sps)
                   in if 0 < n then take n (load_speed y fs (speed_save_path r)) else local
         else local)"

definition fix_utime :: "int \<Rightarrow> speed_t \<Rightarrow> speed_t" where
  "fix_utime up sp = (if up < utime sp then sp\<lparr>utime := up, sync := 1\<rparr> else sp)"

definition parent_dir :: "string \<Rightarrow> string option" where
  "parent_dir path =
     (if CHR ''/'' \<in> set path then
        let d = rev (tl (dropWhile (\<lambda>c. c \<noteq> CHR ''/'') (rev path)))
        in Some (if d = [] then ''/'' else d)
      else None)"

definition unmounted_cifs_dir :: "attempt \<Rightarrow> string \<Rightarrow> bool" where
  "unmounted_cifs_dir a dir \<longleftrightarrow> (dir = ''/cifs1'' \<or> dir = ''/cifs2'') \<and> a_unmounted a dir"

datatype load_end = Loaded | Created | Gave_up | Busy | Waiting

fun load_loop :: "layout \<Rightarrow> attempt list \<Rightarrow> rstore \<Rightarrow> history_t \<Rightarrow> load_end \<times> rstore \<times> history_t" where
  "load_loop y [] r h = (Waiting, r, h)"
| "load_loop y (a # as) r h =
     (let r = r\<lparr>files := a_files a (files r)\<rparr>;
          found = (if a_idle a then
                     (case load_history y (files r) (save_path r) of
                        Some h \<Rightarrow> Some h
                      | None \<Rightarrow> try_hardway y (files r) (save_path r))
                   else None)
      in case found of
           Some h \<Rightarrow> (Loaded, r\<lparr>files := write_file (a_writable a) source_fn (map byte_of (save_path r)) (files r)\<rparr>, h)
         | None \<Rightarrow>
             if a_idle a \<and> files r (save_path r) = None \<and>
                (case parent_dir (save_path r) of None \<Rightarrow> False | Some d \<Rightarrow> \<not> unmounted_cifs_dir a d \<and> a_dir a d)
             then (Created, r\<lparr>save_utime := 0\<rparr>, h)
             else if a_term a then (Gave_up, r\<lparr>save_path := []\<rparr>, h)
             else load_loop y as r h)"

definition load :: "layout \<Rightarrow> (string \<Rightarrow> bool) \<Rightarrow> attempt list \<Rightarrow> bool \<Rightarrow> int \<Rightarrow> rstore \<Rightarrow> history_t \<Rightarrow>
    load_end \<times> rstore \<times> history_t \<times> speed_t list" where
  "load y ok as new up r h =
     (let r = r\<lparr>save_path := history_path (nvm r) ''rstats_path'' ''tomato_rstats_'', speed_save_path := speed_path (nvm r)\<rparr>;
          r = r\<lparr>save_utime := load_save_utime y (files r) stime_fn up (get_stime (nvm r) ''rstats_stime'')\<rparr>;
          sps = map (fix_utime up) (load_speeds y (files r) r);
          hgz = history_fn @ ''.gz'';
          sp = (case files r source_fn of None \<Rightarrow> [] | Some b \<Rightarrow> takeWhile (\<lambda>c. c \<noteq> NUL) (map char_of_byte (take 95 b)))
      in if new then
           let fs = (files r)(hgz := None);
               fs = (if external (save_path r) then fs(speed_save_path r := None) else fs)
           in (Created, r\<lparr>files := fs, save_utime := 0\<rparr>, h, sps)
         else if sp = save_path r \<and> load_history y (files r) hgz \<noteq> None then
           (Loaded, r, the (load_history y (files r) hgz), sps)
         else if save_path r = [] then (Loaded, r, h, sps)
         else if save_path r = ''*nvram'' then
           (case as of
              [] \<Rightarrow> (Busy, r, h, sps)
            | a # _ \<Rightarrow>
                if \<not> a_idle a then (Busy, r, h, sps)
                else
                  let bi = nvram_safe_get (nvm r) ''rstats_data''
                  in if bi = [] then (Loaded, r, h, sps)
                     else
                       let r = r\<lparr>files := write_file ok hgz (base64_decode bi) (files r)\<rparr>
                       in (Loaded, r, (case load_history y (files r) hgz of None \<Rightarrow> h | Some h \<Rightarrow> h), sps))
         else
           let (e, r, h) = load_loop y as r h in (e, r, h, sps))"

definition load_new :: "layout \<Rightarrow> (string \<Rightarrow> bool) \<Rightarrow> attempt list \<Rightarrow> rstats \<Rightarrow> rstore \<Rightarrow> rstats \<times> rstore" where
  "load_new y ok as st r =
     (let hgz = history_fn @ ''.gz.new''
      in case load_history y (files r) hgz of
           None \<Rightarrow> (st, r\<lparr>files := (files r)(hgz := None)\<rparr>)
         | Some h \<Rightarrow>
             let st = st\<lparr>history := h\<rparr>; r = save y ok as st False r
             in (st, r\<lparr>files := (files r)(hgz := None)\<rparr>))"

subsection \<open>A whole sample, signals and the main loop\<close>

definition calc :: "layout \<Rightarrow> (string \<Rightarrow> bool) \<Rightarrow> attempt list \<Rightarrow> world \<Rightarrow> string list option \<Rightarrow> rstats \<times> rstore \<Rightarrow>
    (rstats \<times> rstore) option" where
  "calc y ok as w dev s =
     (case dev of
        None \<Rightarrow> Some s
      | Some lines \<Rightarrow>
          (case calc_lines w (fst s) (drop 2 lines) of
             None \<Rightarrow> None
           | Some st \<Rightarrow>
               let exclude = nvram_safe_get (w_nvram w) ''rstats_exclude'';
                   st = st\<lparr>speeds := cleanup exclude (uptime st) (speeds st)\<rparr>;
                   r = (if save_utime (snd s) \<le> uptime st
                        then (save y ok as st False (snd s))\<lparr>save_utime := uptime st + get_stime (w_nvram w) ''rstats_stime''\<rparr>
                        else snd s)
               in Some (st\<lparr>restarted := False\<rparr>, r)))"

datatype signal = SIGTERM | SIGINT | SIGHUP | SIGUSR1 | SIGUSR2

record flags =
  gothup :: bool
  gotuser :: int
  gotterm :: bool

fun sig_handler :: "signal \<Rightarrow> flags \<Rightarrow> flags" where
  "sig_handler SIGTERM f = f\<lparr>gotterm := True\<rparr>"
| "sig_handler SIGINT f = f\<lparr>gotterm := True\<rparr>"
| "sig_handler SIGHUP f = f\<lparr>gothup := True\<rparr>"
| "sig_handler SIGUSR1 f = f\<lparr>gotuser := 1\<rparr>"
| "sig_handler SIGUSR2 f = f\<lparr>gotuser := 2\<rparr>"

datatype page = No_page | Speed_page "string option" | History_page "string option"

text \<open>
  What the loop does when it wakes up, with the flags set by then: the state, whether the program ends,
  and the page it writes.
\<close>

definition main_wake :: "layout \<Rightarrow> (string \<Rightarrow> bool) \<Rightarrow> attempt list \<Rightarrow> (string \<Rightarrow> bool) \<Rightarrow> int \<Rightarrow> int \<Rightarrow> flags \<Rightarrow>
    rstats \<times> rstore \<Rightarrow> (rstats \<times> rstore) \<times> flags \<times> bool \<times> page" where
  "main_wake y ok as if_up z up f s =
     (let s = (if gothup f then
                 if files (snd s) load_fn \<noteq> None
                 then load_new y ok as (fst s) ((snd s)\<lparr>files := (files (snd s))(load_fn := None)\<rparr>)
                 else (fst s, save y ok as (fst s) False (snd s))
               else s);
          f = f\<lparr>gothup := False\<rparr>
      in if gotterm f then
           ((fst s, save y ok as (fst s) (\<not> nvram_match (nvm (snd s)) ''rstats_sshut'' ''1'') (snd s)), f, True, No_page)
         else
           let pg = (if gotuser f = 1 then Speed_page (save_speedjs if_up (speeds (fst s)) (z - up))
                     else if gotuser f = 2 then History_page (save_histjs (history (fst s)))
                     else No_page);
               f = (if gotuser f = 1 \<or> gotuser f = 2 then f\<lparr>gotuser := 0\<rparr> else f)
           in (((fst s)\<lparr>uptime := up\<rparr>, snd s), f, False, pg))"

subsection \<open>What was saved is loaded\<close>

lemma length_strlcpy: "length (strlcpy s n) \<le> n - 1"
  by (simp add: strlcpy_def)

lemma length_history_path: "length (history_path nv var name) \<le> 95"
  using length_strlcpy [of _ 96] length_strlcpy [of "nvram_safe_get nv var" 64]
  by (auto simp: history_path_def Let_def)

lemma local_paths:
  "stime_fn \<noteq> source_fn" "history_fn @ ''.gz'' \<noteq> source_fn" "speed_fn @ ''.gz'' \<noteq> source_fn"
  "history_fn @ ''.gz'' \<noteq> speed_fn @ ''.gz''" "stime_fn \<noteq> history_fn @ ''.gz''" "stime_fn \<noteq> speed_fn @ ''.gz''"
  by (simp_all add: stime_fn_def source_fn_def history_fn_def speed_fn_def)

lemma save_local_files:
  assumes "\<forall>p. ok p"
  shows "files (save_local y ok st r) (history_fn @ ''.gz'') = Some (gz_history y (history st))"
    "files (save_local y ok st r) (speed_fn @ ''.gz'') = Some (gz_speeds y (speeds st))"
    "files (save_local y ok st r) source_fn = Some (map byte_of (save_path r))"
    "files (save_local y ok st r) stime_fn = Some (put_long y (save_utime r))"
    "save_path (save_local y ok st r) = save_path r" "nvm (save_local y ok st r) = nvm r"
  using assms local_paths by (simp_all add: save_local_def write_file_def comp_def Let_def)

lemma load_history_saved:
  "layout_ok y st \<Longrightarrow> fs p = Some (gz_history y (history st)) \<Longrightarrow> load_history y fs p = Some (history st)"
  by (simp add: load_history_def decomp_def layout_ok_def)

lemma source_text:
  assumes "length p \<le> 95" "is_cstr p"
  shows "takeWhile (\<lambda>c. c \<noteq> NUL) (map char_of_byte (take 95 (map byte_of p))) = p"
  using assms by (simp add: takeWhile_id is_cstr_def o_def) (metis takeWhile_eq_all_conv)

lemma load_local:
  assumes "layout_ok y st" "\<forall>p. ok p" "length (speeds st) \<le> MAX_SPEED_IF"
    "save_path r = history_path (nvm r) ''rstats_path'' ''tomato_rstats_''" "is_cstr (save_path r)"
  shows "\<exists>r' sps. load y ok' as' False up (save y ok as st True r) h = (Loaded, r', history st, sps) \<and>
    (external (save_path r) \<or> sps = map (fix_utime up) (speeds st))"
proof -
  let ?r = "save_local y ok st r"
  note f = save_local_files [OF assms(2), of y st r]
  have h: "load_history y (files ?r) (history_fn @ ''.gz'') = Some (history st)"
    using assms(1) f(1) by (rule load_history_saved)
  have s: "takeWhile (\<lambda>c. c \<noteq> NUL) (map char_of_byte (take 95 (map byte_of (save_path r)))) = save_path r"
    using assms(4,5) length_history_path by (intro source_text) simp_all
  have p: "decomp (files ?r) (speed_fn @ ''.gz'') (gunzip_speeds y) MAX_SPEED_IF = speeds st"
    using assms(1,3) f(2) by (simp add: decomp_def layout_ok_def)
  define r2 where "r2 = ?r\<lparr>save_path := save_path r, speed_save_path := speed_path (nvm r),
      save_utime := load_save_utime y (files ?r) stime_fn up (get_stime (nvm r) ''rstats_stime'')\<rparr>"
  have "load y ok' as' False up (save y ok as st True r) h = (Loaded, r2, history st, map (fix_utime up) (load_speeds y (files ?r) r2))"
    unfolding load_def save_def Let_def r2_def using h s f(3,5,6) assms(4) by (simp add: load_speeds_def)
  moreover have "external (save_path r) \<or> load_speeds y (files ?r) r2 = speeds st"
    using p by (cases "external (save_path r)") (simp_all add: load_speeds_def r2_def Let_def)
  ultimately show ?thesis by auto
qed

subsection \<open>The rotation of backups\<close>

lemma bak_name_inject [simp]: "bak_name path a = bak_name path b \<longleftrightarrow> a = b"
  by (auto simp: bak_name_def)

lemma bak_base_cases: "path = bak_base path \<or> path = bak_base path @ ''.gz''"
proof (cases "3 < length path \<and> drop (length path - 3) path = ''.gz''")
  case True
  then have "bak_base path = take (length path - 3) path" "drop (length path - 3) path = ''.gz''"
    by (simp_all add: bak_base_def Let_def)
  then have "path = bak_base path @ ''.gz''"
    using append_take_drop_id [of "length path - 3" path] by simp
  then show ?thesis ..
next
  case False
  then show ?thesis by (auto simp: bak_base_def Let_def)
qed

lemma bak_name_neq [simp]: "bak_name path b \<noteq> path" "path \<noteq> bak_name path b"
    "bak_name path b \<noteq> path @ ''.tmp''" "path @ ''.tmp'' \<noteq> bak_name path b"
proof -
  have "bak_name path b \<noteq> bak_base path" "bak_name path b \<noteq> bak_base path @ ''.gz''"
      "bak_name path b \<noteq> bak_base path @ ''.tmp''" "bak_name path b \<noteq> (bak_base path @ ''.gz'') @ ''.tmp''"
    by (simp_all add: bak_name_def)
  then show "bak_name path b \<noteq> path" "path \<noteq> bak_name path b"
      "bak_name path b \<noteq> path @ ''.tmp''" "path @ ''.tmp'' \<noteq> bak_name path b"
    using bak_base_cases [of path] by metis+
qed

lemma rotate_loop_other: "q \<notin> bak_name path ` {1..n + 1} \<Longrightarrow> rotate_loop ok path n fs q = fs q"
proof (induction n arbitrary: fs)
  case (Suc n)
  have "q \<notin> bak_name path ` {1..n + 1}" "q \<noteq> bak_name path (Suc n)" "q \<noteq> bak_name path (Suc (Suc n))"
    using Suc.prems by auto
  with Suc.IH show ?case
    by (simp add: rename_def split: option.splits)
qed simp

lemma rotate_loop_shift:
  assumes "\<forall>p. ok p"
  shows "\<forall>j \<in> {1..n}. fs (bak_name path j) \<noteq> None \<Longrightarrow> j \<in> {1..n} \<Longrightarrow>
    rotate_loop ok path n fs (bak_name path (j + 1)) = fs (bak_name path j)"
proof (induction n arbitrary: fs)
  case (Suc n)
  let ?fs = "fs(bak_name path (Suc n) := None, bak_name path (Suc (Suc n)) := fs (bak_name path (Suc n)))"
  obtain b where "fs (bak_name path (Suc n)) = Some b"
    using Suc.prems(1) by fastforce
  then have e: "rotate_loop ok path (Suc n) fs = rotate_loop ok path n ?fs"
    using assms by (simp add: rename_def)
  show ?case
  proof (cases "j = Suc n")
    case True
    then have "bak_name path (j + 1) \<notin> bak_name path ` {1..n + 1}"
      by auto
    with True show ?thesis
      unfolding e by (simp add: rotate_loop_other)
  next
    case False
    then have "rotate_loop ok path n ?fs (bak_name path (j + 1)) = ?fs (bak_name path j)"
      using Suc.prems by (intro Suc.IH) auto
    with False Suc.prems(2) show ?thesis
      unfolding e by simp
  qed
qed simp

lemma archive_file_backup:
  assumes "\<forall>p. ok p" "\<not> nvram_match nv bakvar ''0''" "lb \<noteq> yday" "fs src = Some new" "fs path = Some old"
    "\<forall>j \<in> {1..4}. fs (bak_name path j) \<noteq> None"
  shows "\<exists>fs'. archive_file nv bakvar ok yday src path (fs, lb) = (True, fs', yday) \<and> fs' path = Some new \<and>
    fs' (bak_name path 1) = Some old \<and> (\<forall>j \<in> {1..4}. fs' (bak_name path (j + 1)) = fs (bak_name path j)) \<and>
    fs' (path @ ''.tmp'') = None"
proof -
  let ?tmp = "path @ ''.tmp''"
  define fs1 where "fs1 = fs(?tmp \<mapsto> new)"
  define fs2 where "fs2 = rotate_loop ok path 4 fs1"
  have nb: "bak_name path ` {1..4 + 1} \<inter> {path, ?tmp} = {}"
    using bak_name_neq by blast
  have "\<forall>j \<in> {1..4}. fs1 (bak_name path j) = fs (bak_name path j)"
    by (simp add: fs1_def)
  then have sh: "\<forall>j \<in> {1..4}. fs2 (bak_name path (j + 1)) = fs (bak_name path j)"
    using rotate_loop_shift [OF assms(1), of 4 fs1 path] assms(6) unfolding fs2_def by fastforce
  have o: "fs2 path = Some old" "fs2 ?tmp = Some new"
    using nb assms(5) unfolding fs2_def by (subst rotate_loop_other; auto simp: fs1_def)+
  have "cp ok src ?tmp fs = (True, fs1)"
    using assms(1,4) by (simp add: cp_def fs1_def)
  moreover have "backup nv bakvar ok yday path (fs1, lb) = (fs2(bak_name path 1 \<mapsto> old), yday)"
    using assms(1-3) o(1) by (simp add: backup_def cp_def HI_BACK_def flip: fs2_def)
  moreover have "rename ok ?tmp path (fs2(bak_name path 1 \<mapsto> old)) = (True, fs2(bak_name path 1 \<mapsto> old, ?tmp := None, path \<mapsto> new))"
    using assms(1) o(2) by (simp add: rename_def)
  ultimately have "archive_file nv bakvar ok yday src path (fs, lb) =
      (True, fs2(bak_name path 1 \<mapsto> old, ?tmp := None, path \<mapsto> new), yday)"
    by (simp add: archive_file_def)
  with sh show ?thesis
    by simp
qed

subsection \<open>Properties\<close>

text \<open>C16: a stop and a start lose nothing.  If the local directory can be written and the compression
  library reads back what it wrote, then after the quick save of a shutdown the next start finds the local
  copy, whatever is on the permanent storage: the history is the one saved and, unless the speed data come
  from an external file, so are the speed data, except that samples from before a reboot are marked for
  synchronisation.\<close>

theorem save_load_roundtrip:
  assumes "layout_ok y st" "\<forall>p. ok p" "length (speeds st) \<le> MAX_SPEED_IF"
    "save_path r = history_path (nvm r) ''rstats_path'' ''tomato_rstats_''" "is_cstr (save_path r)"
  shows "\<exists>r' sps. load y ok' as' False up (save y ok as st True r) h = (Loaded, r', history st, sps) \<and>
    (external (save_path r) \<or> sps = map (fix_utime up) (speeds st))"
  using load_local [OF assms] .

definition small_layout :: layout where
  "small_layout = \<lparr>gz_history = (\<lambda>h. [1]), gunzip_history = (\<lambda>b. if b = [1] then [clear_history] else []),
     gz_speeds = (\<lambda>sps. map (\<lambda>_. 2) sps), gunzip_speeds = (\<lambda>b. map (\<lambda>_. new_speed ''eth0'' 0) b),
     put_long = (\<lambda>_. []), get_long = (\<lambda>_. None)\<rparr>"

definition small_store :: rstore where
  "small_store = \<lparr>files = Map.empty, lastbak = - 1, nvm = [''rstats_path'' \<mapsto> ''*nvram''], save_utime = 0,
     save_path = ''*nvram'', speed_save_path = []\<rparr>"

lemma small_store_path: "save_path small_store = history_path (nvm small_store) ''rstats_path'' ''tomato_rstats_''"
  by (simp add: small_store_def history_path_def nvram_safe_get_def strlcpy_def Let_def)

theorem save_load_roundtrip_witness:
  "\<exists>r' sps. load small_layout (\<lambda>_. True) [] False 100
      (save small_layout (\<lambda>_. True) [] (start_state\<lparr>speeds := [new_speed ''eth0'' 0]\<rparr>) True small_store) clear_history =
      (Loaded, r', clear_history, sps) \<and>
    (external (save_path small_store) \<or> sps = map (fix_utime 100) [new_speed ''eth0'' 0])"
  using save_load_roundtrip [of small_layout "start_state\<lparr>speeds := [new_speed ''eth0'' 0]\<rparr>" "\<lambda>_. True" small_store
      "\<lambda>_. True" "[]" 100 "[]" clear_history]
  by (simp add: small_store_path [symmetric])
    (simp add: layout_ok_def small_layout_def start_state_def MAX_SPEED_IF_def small_store_def is_cstr_def)

text \<open>C26: the daily backup.  When the copy to permanent storage succeeds on a new day and backups are
  enabled, the old file becomes backup 1, each of the four newer backups moves up by one, the file has
  the new contents, and the temporary file is gone.\<close>

theorem backups_rotated:
  assumes "\<forall>p. ok p" "\<not> nvram_match nv bakvar ''0''" "lb \<noteq> yday" "fs src = Some new" "fs path = Some old"
    "\<forall>j \<in> {1..4}. fs (bak_name path j) \<noteq> None"
  shows "\<exists>fs'. archive_file nv bakvar ok yday src path (fs, lb) = (True, fs', yday) \<and> fs' path = Some new \<and>
    fs' (bak_name path 1) = Some old \<and> (\<forall>j \<in> {1..4}. fs' (bak_name path (j + 1)) = fs (bak_name path j)) \<and>
    fs' (path @ ''.tmp'') = None"
  using archive_file_backup [OF assms] .

theorem backups_rotated_witness:
  "\<exists>fs'. archive_file Map.empty ''rstats_bak'' (\<lambda>_. True) 7 ''/a'' ''/b.gz'' (\<lambda>_. Some [1], 6) = (True, fs', 7) \<and>
    fs' ''/b.gz'' = Some [1] \<and> fs' (bak_name ''/b.gz'' 1) = Some [1] \<and> fs' (bak_name ''/b.gz'' 5) = Some [1] \<and>
    fs' (''/b.gz'' @ ''.tmp'') = None"
proof -
  obtain fs' where f: "archive_file Map.empty ''rstats_bak'' (\<lambda>_. True) 7 ''/a'' ''/b.gz'' (\<lambda>_. Some [1], 6) = (True, fs', 7)"
      "fs' ''/b.gz'' = Some [1]" "fs' (bak_name ''/b.gz'' 1) = Some [1]"
      "\<forall>j \<in> {1..4}. fs' (bak_name ''/b.gz'' (j + 1)) = Some [1]" "fs' (''/b.gz'' @ ''.tmp'') = None"
    using backups_rotated [of "\<lambda>_. True" Map.empty "''rstats_bak''" 6 7 "\<lambda>_. Some [1]" "''/a''" "[1]" "''/b.gz''" "[1]"]
    by (auto simp: nvram_match_def)
  have "fs' (bak_name ''/b.gz'' (4 + 1)) = Some [1]"
    using f(4) by (rule bspec) simp
  with f show ?thesis by auto
qed

text \<open>The backups of the speed data are never read.  When the speed file on permanent storage gives
  nothing, \<^verbatim>\<open>try_hardway\<close> loads the backups but returns the number of entries from before, which is 0, and
  the local copy is taken in any case.\<close>

theorem speed_backups_never_used:
  assumes "external (save_path r)" "load_speed y fs (speed_save_path r) = []"
  shows "load_speeds y fs r = decomp fs (speed_fn @ ''.gz'') (gunzip_speeds y) MAX_SPEED_IF"
  using assms by (simp add: load_speeds_def try_hardway_speed_def Let_def)

theorem speed_backups_never_used_witness:
  "load_speeds small_layout [bak_name ''/mnt/s.gz'' 1 \<mapsto> [3]] (small_store\<lparr>save_path := ''/mnt/h.gz'', speed_save_path := ''/mnt/s.gz''\<rparr>) =
    decomp [bak_name ''/mnt/s.gz'' 1 \<mapsto> [3]] (speed_fn @ ''.gz'') (gunzip_speeds small_layout) MAX_SPEED_IF"
  by (rule speed_backups_never_used) (simp_all add: external_def load_speed_def decomp_def)

end
