(* ===== verification/Avltree.thy ===== *)
theory Avltree
  imports Prelude "HOL-Library.Monad_Syntax"
begin

section \<open>Balanced trees\<close>

text \<open>
  The tree macros of \<^verbatim>\<open>libshared/shared/tree.h\<close>, as \<^verbatim>\<open>TREE_DEFINE\<close> instantiates them.  A node holds its
  payload, two children and the height that is stored in it; the null pointer is \<open>Nul\<close>.  The three
  functions that call each other (\<^verbatim>\<open>TREE_BALANCE\<close>, \<^verbatim>\<open>TREE_ROTL\<close>, \<^verbatim>\<open>TREE_ROTR\<close>) are one partial function
  with a tag; \<open>None\<close> stands for a null pointer that is followed or for a recursion without end, and the
  theorems show that neither happens on the trees that the operations build.

  A new node is linked with stored height 0, as the null pointer counts, so the stored heights of a
  tree can be one too small; \<open>tree_wf\<close> is the invariant that the operations really keep.
\<close>

datatype 'a avl = Nul | Nod "'a avl" 'a nat "'a avl"

datatype tree_op = BALANCE | ROTL | ROTR

fun hgt :: "'a avl \<Rightarrow> nat" where
  "hgt Nul = 0"
| "hgt (Nod l a h r) = h"

fun tree_delta :: "'a avl \<Rightarrow> int" where
  "tree_delta Nul = 0"
| "tree_delta (Nod l a h r) = int (hgt l) - int (hgt r)"

partial_function (option) tree_fn :: "tree_op \<Rightarrow> 'a avl \<Rightarrow> 'a avl option" where
  "tree_fn f t =
     (case t of
        Nul \<Rightarrow> None
      | Nod l a h r \<Rightarrow>
          (case f of
             ROTL \<Rightarrow>
               (case r of
                  Nul \<Rightarrow> None
                | Nod rl b rh rr \<Rightarrow>
                    Option.bind (tree_fn BALANCE (Nod l a h rl)) (\<lambda>s. tree_fn BALANCE (Nod s b rh rr)))
           | ROTR \<Rightarrow>
               (case l of
                  Nul \<Rightarrow> None
                | Nod ll b lh lr \<Rightarrow>
                    Option.bind (tree_fn BALANCE (Nod lr a h r)) (\<lambda>s. tree_fn BALANCE (Nod ll b lh s)))
           | BALANCE \<Rightarrow>
               if tree_delta t < - 1 then
                 (if 0 < tree_delta r
                  then Option.bind (tree_fn ROTR r) (\<lambda>r. tree_fn ROTL (Nod l a h r))
                  else tree_fn ROTL t)
               else if 1 < tree_delta t then
                 (if tree_delta l < 0
                  then Option.bind (tree_fn ROTL l) (\<lambda>l. tree_fn ROTR (Nod l a h r))
                  else tree_fn ROTR t)
               else Some (Nod l a (max (hgt l) (hgt r) + 1) r)))"

text \<open>The payload of a new node comes with stored height 0.\<close>

fun tree_insert :: "('a \<Rightarrow> 'a \<Rightarrow> int) \<Rightarrow> 'a \<Rightarrow> 'a avl \<Rightarrow> 'a avl option" where
  "tree_insert cmp e Nul = Some (Nod Nul e 0 Nul)"
| "tree_insert cmp e (Nod l a h r) =
     (if cmp e a < 0
      then Option.bind (tree_insert cmp e l) (\<lambda>l. tree_fn BALANCE (Nod l a h r))
      else Option.bind (tree_insert cmp e r) (\<lambda>r. tree_fn BALANCE (Nod l a h r)))"

fun tree_find :: "('a \<Rightarrow> 'a \<Rightarrow> int) \<Rightarrow> 'a \<Rightarrow> 'a avl \<Rightarrow> 'a option" where
  "tree_find cmp e Nul = None"
| "tree_find cmp e (Nod l a h r) =
     (if cmp e a = 0 then Some a else if cmp e a < 0 then tree_find cmp e l else tree_find cmp e r)"

text \<open>What a caller writes through the pointer that \<^verbatim>\<open>TREE_FIND\<close> returned.\<close>

fun tree_modify :: "('a \<Rightarrow> 'a \<Rightarrow> int) \<Rightarrow> 'a \<Rightarrow> ('a \<Rightarrow> 'a) \<Rightarrow> 'a avl \<Rightarrow> 'a avl" where
  "tree_modify cmp e f Nul = Nul"
| "tree_modify cmp e f (Nod l a h r) =
     (if cmp e a = 0 then Nod l (f a) h r
      else if cmp e a < 0 then Nod (tree_modify cmp e f l) a h r else Nod l a h (tree_modify cmp e f r))"

fun tree_move_right :: "'a avl \<Rightarrow> 'a avl \<Rightarrow> 'a avl option" where
  "tree_move_right Nul rhs = Some rhs"
| "tree_move_right (Nod l a h r) rhs =
     Option.bind (tree_move_right r rhs) (\<lambda>r. tree_fn BALANCE (Nod l a h r))"

fun tree_remove :: "('a \<Rightarrow> 'a \<Rightarrow> int) \<Rightarrow> 'a \<Rightarrow> 'a avl \<Rightarrow> 'a avl option" where
  "tree_remove cmp e Nul = Some Nul"
| "tree_remove cmp e (Nod l a h r) =
     (if cmp e a = 0 then tree_move_right l r
      else if cmp e a < 0 then Option.bind (tree_remove cmp e l) (\<lambda>l. tree_fn BALANCE (Nod l a h r))
      else Option.bind (tree_remove cmp e r) (\<lambda>r. tree_fn BALANCE (Nod l a h r)))"

text \<open>The traversals: a function with an accumulator, and one that writes into every node.\<close>

fun forward_apply :: "('a \<Rightarrow> 's \<Rightarrow> 's) \<Rightarrow> 'a avl \<Rightarrow> 's \<Rightarrow> 's" where
  "forward_apply f Nul s = s"
| "forward_apply f (Nod l a h r) s = forward_apply f r (f a (forward_apply f l s))"

fun reverse_apply :: "('a \<Rightarrow> 's \<Rightarrow> 's) \<Rightarrow> 'a avl \<Rightarrow> 's \<Rightarrow> 's" where
  "reverse_apply f Nul s = s"
| "reverse_apply f (Nod l a h r) s = reverse_apply f l (f a (reverse_apply f r s))"

fun tree_map :: "('a \<Rightarrow> 'a) \<Rightarrow> 'a avl \<Rightarrow> 'a avl" where
  "tree_map f Nul = Nul"
| "tree_map f (Nod l a h r) = Nod (tree_map f l) (f a) h (tree_map f r)"

subsection \<open>The invariant\<close>

fun inorder :: "'a avl \<Rightarrow> 'a list" where
  "inorder Nul = []"
| "inorder (Nod l a h r) = inorder l @ a # inorder r"

fun tree_wf :: "'a avl \<Rightarrow> bool" where
  "tree_wf Nul = True"
| "tree_wf (Nod l a h r) =
     (tree_wf l \<and> tree_wf r \<and> hgt l \<le> hgt r + 1 \<and> hgt r \<le> hgt l + 1 \<and>
      (h = max (hgt l) (hgt r) + 1 \<or> h = 0 \<and> l = Nul \<and> r = Nul))"

fun mirror :: "'a avl \<Rightarrow> 'a avl" where
  "mirror Nul = Nul"
| "mirror (Nod l a h r) = Nod (mirror r) a h (mirror l)"

fun flip_op :: "tree_op \<Rightarrow> tree_op" where
  "flip_op BALANCE = BALANCE"
| "flip_op ROTL = ROTR"
| "flip_op ROTR = ROTL"

lemma mirror_simps [simp]:
  "mirror (mirror t) = t" "hgt (mirror t) = hgt t" "mirror t = Nul \<longleftrightarrow> t = Nul"
  "inorder (mirror t) = rev (inorder t)" "tree_delta (mirror t) = - tree_delta t"
  by (induction t) auto

lemma tree_wf_mirror [simp]: "tree_wf (mirror t) = tree_wf t"
  by (induction t) auto

lemma rotl_simp:
  "tree_fn ROTL (Nod l a h (Nod rl b rh rr)) =
     Option.bind (tree_fn BALANCE (Nod l a h rl)) (\<lambda>s. tree_fn BALANCE (Nod s b rh rr))"
  by (subst tree_fn.simps) simp

lemma rotr_simp:
  "tree_fn ROTR (Nod (Nod ll b lh lr) a h r) =
     Option.bind (tree_fn BALANCE (Nod lr a h r)) (\<lambda>s. tree_fn BALANCE (Nod ll b lh s))"
  by (subst tree_fn.simps) simp

lemma balance_simp:
  "tree_fn BALANCE (Nod l a h r) =
     (if int (hgt l) - int (hgt r) < - 1 then
        (if 0 < tree_delta r then Option.bind (tree_fn ROTR r) (\<lambda>r. tree_fn ROTL (Nod l a h r))
         else tree_fn ROTL (Nod l a h r))
      else if 1 < int (hgt l) - int (hgt r) then
        (if tree_delta l < 0 then Option.bind (tree_fn ROTL l) (\<lambda>l. tree_fn ROTR (Nod l a h r))
         else tree_fn ROTR (Nod l a h r))
      else Some (Nod l a (max (hgt l) (hgt r) + 1) r))"
  by (subst tree_fn.simps) simp

lemma tree_fn_mirror: "tree_fn f t = Some u \<Longrightarrow> tree_fn (flip_op f) (mirror t) = Some (mirror u)"
proof (erule tree_fn.raw_induct [of "\<lambda>f t u. tree_fn (flip_op f) (mirror t) = Some (mirror u)", rotated])
  fix rec :: "tree_op \<Rightarrow> 'a avl \<Rightarrow> 'a avl option" and f t u
  assume IH: "\<And>f t u. rec f t = Some u \<Longrightarrow> tree_fn (flip_op f) (mirror t) = Some (mirror u)"
    and body: "(case t of
        Nul \<Rightarrow> None
      | Nod l a h r \<Rightarrow>
          (case f of
             ROTL \<Rightarrow>
               (case r of
                  Nul \<Rightarrow> None
                | Nod rl b rh rr \<Rightarrow>
                    Option.bind (rec BALANCE (Nod l a h rl)) (\<lambda>s. rec BALANCE (Nod s b rh rr)))
           | ROTR \<Rightarrow>
               (case l of
                  Nul \<Rightarrow> None
                | Nod ll b lh lr \<Rightarrow>
                    Option.bind (rec BALANCE (Nod lr a h r)) (\<lambda>s. rec BALANCE (Nod ll b lh s)))
           | BALANCE \<Rightarrow>
               if tree_delta t < - 1 then
                 (if 0 < tree_delta r
                  then Option.bind (rec ROTR r) (\<lambda>r. rec ROTL (Nod l a h r))
                  else rec ROTL t)
               else if 1 < tree_delta t then
                 (if tree_delta l < 0
                  then Option.bind (rec ROTL l) (\<lambda>l. rec ROTR (Nod l a h r))
                  else rec ROTR t)
               else Some (Nod l a (max (hgt l) (hgt r) + 1) r))) = Some u"
  obtain l a h r where t: "t = Nod l a h r"
    using body by (cases t) auto
  show "tree_fn (flip_op f) (mirror t) = Some (mirror u)"
  proof (cases f)
    case BALANCE
    have rot: "rec ROTR t' = Some u' \<Longrightarrow> tree_fn ROTL (mirror t') = Some (mirror u')"
        "rec ROTL t' = Some u' \<Longrightarrow> tree_fn ROTR (mirror t') = Some (mirror u')" for t' u'
      using IH [of ROTR t' u'] IH [of ROTL t' u'] by simp_all
    show ?thesis
      using body t BALANCE rot [of t u] by (auto simp: balance_simp Option.bind_eq_Some_conv max.commute dest!: rot split: if_splits)
  next
    case ROTL
    with body t obtain rl b rh rr s where "r = Nod rl b rh rr" "rec BALANCE (Nod l a h rl) = Some s"
        "rec BALANCE (Nod s b rh rr) = Some u"
      by (auto simp: Option.bind_eq_Some_conv split: avl.splits)
    then show ?thesis
      using t ROTL IH [of BALANCE "Nod l a h rl" s] IH [of BALANCE "Nod s b rh rr" u] by (simp add: rotr_simp)
  next
    case ROTR
    with body t obtain ll b lh lr s where "l = Nod ll b lh lr" "rec BALANCE (Nod lr a h r) = Some s"
        "rec BALANCE (Nod ll b lh s) = Some u"
      by (auto simp: Option.bind_eq_Some_conv split: avl.splits)
    then show ?thesis
      using t ROTR IH [of BALANCE "Nod lr a h r" s] IH [of BALANCE "Nod ll b lh s" u] by (simp add: rotl_simp)
  qed
qed

subsection \<open>Balancing\<close>

lemma balance_direct:
  "hgt l \<le> hgt r + 1 \<Longrightarrow> hgt r \<le> hgt l + 1 \<Longrightarrow>
    tree_fn BALANCE (Nod l a h r) = Some (Nod l a (max (hgt l) (hgt r) + 1) r)"
  by (subst tree_fn.simps) simp

lemma balance_right:
  "hgt l + 2 \<le> hgt r \<Longrightarrow> tree_fn BALANCE (Nod l a h r) =
     (if 0 < tree_delta r then Option.bind (tree_fn ROTR r) (\<lambda>r. tree_fn ROTL (Nod l a h r))
      else tree_fn ROTL (Nod l a h r))"
  by (subst tree_fn.simps) simp

lemma balance_left:
  "hgt r + 2 \<le> hgt l \<Longrightarrow> tree_fn BALANCE (Nod l a h r) =
     (if tree_delta l < 0 then Option.bind (tree_fn ROTL l) (\<lambda>l. tree_fn ROTR (Nod l a h r))
      else tree_fn ROTR (Nod l a h r))"
  by (subst tree_fn.simps) simp

text \<open>What balancing a node promises for its two children.\<close>

definition balanced_to :: "'a avl \<Rightarrow> 'a \<Rightarrow> 'a avl \<Rightarrow> 'a avl \<Rightarrow> bool" where
  "balanced_to l a r t \<longleftrightarrow> tree_wf t \<and> inorder t = inorder l @ a # inorder r \<and>
     max (hgt l) (hgt r) \<le> hgt t \<and> hgt t \<le> max (hgt l) (hgt r) + 1"

definition balances :: "'a avl \<Rightarrow> 'a \<Rightarrow> 'a avl \<Rightarrow> bool" where
  "balances l a r \<longleftrightarrow> (\<forall>h. \<exists>t. tree_fn BALANCE (Nod l a h r) = Some t \<and> balanced_to l a r t)"

lemma balances_direct:
  "tree_wf l \<Longrightarrow> tree_wf r \<Longrightarrow> hgt l \<le> hgt r + 1 \<Longrightarrow> hgt r \<le> hgt l + 1 \<Longrightarrow> balances l a r"
  by (auto simp: balances_def balance_direct balanced_to_def)

definition hdist :: "'a avl \<Rightarrow> 'a avl \<Rightarrow> nat" where
  "hdist l r = (hgt l - hgt r) + (hgt r - hgt l)"

lemma balancesD: "balances l a r \<Longrightarrow> \<exists>t. tree_fn BALANCE (Nod l a h r) = Some t \<and> balanced_to l a r t"
  by (simp add: balances_def)

lemma tree_wf_height:
  "tree_wf (Nod l a h r) \<Longrightarrow> 0 < h \<Longrightarrow>
    h = max (hgt l) (hgt r) + 1 \<and> tree_wf l \<and> tree_wf r \<and> hgt l \<le> hgt r + 1 \<and> hgt r \<le> hgt l + 1"
  by auto

text \<open>One left rotation, when the outer grandchild is at least as high as the inner one.\<close>

lemma rotl_balances:
  assumes "tree_wf (Nod rl b rh rr)" "rh = hgt l + k" "2 \<le> k" "hgt rl \<le> hgt rr" "balances l a rl"
  shows "\<exists>t. tree_fn ROTL (Nod l a h (Nod rl b rh rr)) = Some t \<and> balanced_to l a (Nod rl b rh rr) t"
proof -
  have w: "rh = max (hgt rl) (hgt rr) + 1" "tree_wf rl" "tree_wf rr" "hgt rr \<le> hgt rl + 1"
    using tree_wf_height [OF assms(1)] assms(2,3) by auto
  then have h: "hgt rr = hgt l + k - 1" "hgt l + k - 2 \<le> hgt rl" "hgt l \<le> hgt rl"
    using assms(2-4) by auto
  obtain s where s: "tree_fn BALANCE (Nod l a h rl) = Some s" "balanced_to l a rl s"
    using balancesD [OF assms(5)] by blast
  then have "hgt rl \<le> hgt s" "hgt s \<le> hgt rl + 1" "tree_wf s"
    using h(3) by (auto simp: balanced_to_def)
  with h w assms(2-4) have d: "hgt s \<le> hgt rr + 1" "hgt rr \<le> hgt s + 1"
    by auto
  have "tree_fn ROTL (Nod l a h (Nod rl b rh rr)) = Some (Nod s b (max (hgt s) (hgt rr) + 1) rr)"
    using s(1) balance_direct [OF d] by (simp add: rotl_simp)
  moreover have "balanced_to l a (Nod rl b rh rr) (Nod s b (max (hgt s) (hgt rr) + 1) rr)"
    using s(2) d w h assms(2-4) by (auto simp: balanced_to_def)
  ultimately show ?thesis by blast
qed

text \<open>
  The right rotation of a node whose left child leans to the right: the balancing of its result rotates
  back, and the node is what it was.
\<close>

lemma rotr_undone:
  assumes "hgt y = n + 1" "hgt x = n" "hgt rr = n + 1"
  shows "tree_fn ROTR (Nod (Nod x c (n + 2) y) b (n + 3) rr) = Some (Nod (Nod x c (n + 2) y) b (n + 3) rr)"
proof -
  have "tree_fn BALANCE (Nod y b (n + 3) rr) = Some (Nod y b (n + 2) rr)"
    using assms by (simp add: balance_direct)
  moreover have "tree_fn BALANCE (Nod x c (n + 2) y) = Some (Nod x c (n + 2) y)"
    using assms by (simp add: balance_direct)
  moreover have "tree_fn BALANCE (Nod (Nod x c (n + 2) y) b (n + 2) rr) = Some (Nod (Nod x c (n + 2) y) b (n + 3) rr)"
    using assms by (simp add: balance_direct)
  ultimately show ?thesis
    using assms by (simp add: rotr_simp balance_right rotl_simp)
qed

text \<open>The double rotation that follows in that case when the heights differ by two.\<close>

lemma double_rotation:
  assumes "hgt l = n + 1" "hgt x = n" "hgt y = n + 1" "hgt rr = n + 1"
  shows "tree_fn BALANCE (Nod (Nod l a (n + 3) (Nod x c (n + 2) y)) b h rr) =
    Some (Nod (Nod l a (n + 2) x) c (n + 3) (Nod y b (n + 2) rr))"
proof -
  have "tree_fn BALANCE (Nod l a (n + 3) x) = Some (Nod l a (n + 2) x)"
    using assms by (simp add: balance_direct)
  moreover have "tree_fn BALANCE (Nod (Nod l a (n + 2) x) c (n + 2) y) = Some (Nod (Nod l a (n + 2) x) c (n + 3) y)"
    using assms by (simp add: balance_direct)
  moreover have "tree_fn BALANCE (Nod y b h rr) = Some (Nod y b (n + 2) rr)"
    using assms by (simp add: balance_direct)
  moreover have "tree_fn BALANCE (Nod (Nod l a (n + 2) x) c (n + 3) (Nod y b (n + 2) rr)) =
      Some (Nod (Nod l a (n + 2) x) c (n + 3) (Nod y b (n + 2) rr))"
    using assms by (simp add: balance_direct)
  ultimately show ?thesis
    using assms by (simp add: balance_left rotl_simp rotr_simp)
qed

lemma inner_single:
  assumes "tree_wf (Nod (Nod x c ch y) b rh rr)" "rh = hgt l + k" "2 \<le> k" "hgt rr < ch" "hgt y \<le> hgt x" "balances l a x"
  shows "\<exists>t. tree_fn BALANCE (Nod l a h (Nod (Nod x c ch y) b rh rr)) = Some t \<and>
    balanced_to l a (Nod (Nod x c ch y) b rh rr) t"
proof -
  let ?s = "Nod y b (hgt rr + 1) rr"
  have w: "rh = ch + 1" "ch = hgt rr + 1" "tree_wf (Nod x c ch y)" "tree_wf rr"
    using tree_wf_height [OF assms(1)] assms(2-4) by auto
  then have v: "hgt x = hgt rr" "hgt y \<le> hgt rr" "hgt rr \<le> hgt y + 1" "tree_wf x" "tree_wf y"
    using tree_wf_height [OF w(3)] assms(5) by auto
  have "tree_fn BALANCE (Nod y b rh rr) = Some ?s"
    using v by (simp add: balance_direct)
  moreover have "tree_fn BALANCE (Nod x c ch ?s) = Some (Nod x c rh ?s)"
    using v w by (simp add: balance_direct)
  ultimately have r: "tree_fn ROTR (Nod (Nod x c ch y) b rh rr) = Some (Nod x c rh ?s)"
    by (simp add: rotr_simp)
  have "\<exists>t. tree_fn ROTL (Nod l a h (Nod x c rh ?s)) = Some t \<and> balanced_to l a (Nod x c rh ?s) t"
    using v w assms(2,3,6) by (intro rotl_balances) auto
  with r w assms(2-4) show ?thesis
    by (auto simp: balance_right balanced_to_def)
qed

lemma inner_double:
  fixes l :: "'a avl"
  assumes "tree_wf l" "tree_wf (Nod (Nod x c ch y) b rh rr)" "rh = hgt l + k" "2 \<le> k" "hgt rr < ch" "hgt x < hgt y"
    and IH: "\<And>(l' :: 'a avl) a' r'. tree_wf l' \<Longrightarrow> tree_wf r' \<Longrightarrow> hdist l' r' < k \<Longrightarrow> balances l' a' r'"
  shows "\<exists>t. tree_fn BALANCE (Nod l a h (Nod (Nod x c ch y) b rh rr)) = Some t \<and>
    balanced_to l a (Nod (Nod x c ch y) b rh rr) t"
proof -
  define n where "n = hgt x"
  have w: "rh = ch + 1" "ch = hgt rr + 1" "tree_wf (Nod x c ch y)" "tree_wf rr"
    using tree_wf_height [OF assms(2)] assms(3-5) by auto
  then have v: "hgt y = n + 1" "hgt rr = n + 1" "ch = n + 2" "rh = n + 3" "tree_wf x" "tree_wf y" "hgt l + k = n + 3"
    using tree_wf_height [OF w(3)] assms(3,6) n_def [symmetric] by auto
  let ?rl = "Nod x c ch y"
  have step: "tree_fn BALANCE (Nod l a h (Nod ?rl b rh rr)) =
      Option.bind (tree_fn BALANCE (Nod l a h ?rl)) (\<lambda>s. tree_fn BALANCE (Nod s b rh rr))"
  proof -
    have "tree_fn ROTR (Nod ?rl b rh rr) = Some (Nod ?rl b rh rr)"
      unfolding v(3,4) by (rule rotr_undone [OF v(1) n_def [symmetric] v(2)])
    moreover have "hgt l + 2 \<le> hgt (Nod ?rl b rh rr)" "0 < tree_delta (Nod ?rl b rh rr)"
      using assms(3-5) by simp_all
    ultimately show ?thesis
      by (simp only: balance_right if_True Option.bind.simps rotl_simp)
  qed
  show ?thesis
  proof (cases "k = 2")
    case True
    then have l: "hgt l = n + 1" using v(7) by simp
    have "tree_fn BALANCE (Nod l a h ?rl) = Some (Nod l a (n + 3) ?rl)"
      using l v(3) by (simp add: balance_direct)
    then have e: "tree_fn BALANCE (Nod l a h (Nod ?rl b rh rr)) = Some (Nod (Nod l a (n + 2) x) c (n + 3) (Nod y b (n + 2) rr))"
      using step double_rotation [OF l n_def [symmetric] v(1,2), of a c b rh] by (simp add: v(3))
    have "balanced_to l a (Nod ?rl b rh rr) (Nod (Nod l a (n + 2) x) c (n + 3) (Nod y b (n + 2) rr))"
      unfolding balanced_to_def using l v(1,2,4,5,6) w(4) assms(1) n_def [symmetric] by simp
    with e show ?thesis by blast
  next
    case False
    have "balances l a ?rl"
      using assms(1,4) w(3) v(3,7) by (intro IH) (simp_all add: hdist_def del: tree_wf.simps)
    then obtain s where s: "tree_fn BALANCE (Nod l a h ?rl) = Some s" "balanced_to l a ?rl s"
      using balancesD [of l a ?rl h] by blast
    have hs: "tree_wf s" "n + 2 \<le> hgt s" "hgt s \<le> n + 3" "inorder s = inorder l @ a # inorder ?rl"
      using s(2) v(3,7) assms(4) by (simp_all add: balanced_to_def)
    have "\<exists>t. tree_fn BALANCE (Nod s b rh rr) = Some t \<and> tree_wf t \<and> n + 3 \<le> hgt t \<and> hgt t \<le> n + 4 \<and>
        inorder t = inorder s @ b # inorder rr"
    proof (cases "hgt s = n + 2")
      case True
      then show ?thesis
        using v(2) hs(1) w(4) by (simp add: balance_direct)
    next
      case f: False
      then have h3: "hgt s = n + 3" using hs by simp
      have "balances s b rr"
        using h3 hs(1) w(4) v(2) False assms(4) by (intro IH) (simp_all add: hdist_def)
      then show ?thesis
        using balancesD [of s b rr rh] h3 v(2) by (auto simp: balanced_to_def)
    qed
    then obtain t where t: "tree_fn BALANCE (Nod s b rh rr) = Some t" "tree_wf t" "n + 3 \<le> hgt t" "hgt t \<le> n + 4"
        "inorder t = inorder s @ b # inorder rr"
      by blast
    then have "balanced_to l a (Nod ?rl b rh rr) t"
      unfolding balanced_to_def using hs(4) v(4,7) by simp
    with step s(1) t(1) show ?thesis by simp
  qed
qed

lemma hdist_less: "hgt l \<le> hgt r \<Longrightarrow> hgt r < hgt l + k \<Longrightarrow> hdist l r < k"
  by (simp add: hdist_def)

lemma right_heavy:
  fixes l :: "'a avl"
  assumes "tree_wf l" "tree_wf r" "hgt r = hgt l + k" "2 \<le> k"
    and IH: "\<And>(l' :: 'a avl) a' r'. tree_wf l' \<Longrightarrow> tree_wf r' \<Longrightarrow> hdist l' r' < k \<Longrightarrow> balances l' a' r'"
  shows "balances l a r"
proof (cases r)
  case Nul
  with assms(3,4) show ?thesis by simp
next
  case r: (Nod rl b rh rr)
  have rh: "rh = hgt l + k" "0 < rh"
    using assms(3,4) r by simp_all
  have w: "rh = max (hgt rl) (hgt rr) + 1" "tree_wf rl" "hgt rl \<le> hgt rr + 1" "hgt rr \<le> hgt rl + 1"
    using tree_wf_height [OF assms(2) [unfolded r] rh(2)] by simp_all
  have rl2: "hgt l \<le> hgt rl" "hgt rl < hgt l + k"
    using w(1,3,4) rh(1) assms(4) by linarith+
  have b_rl: "balances l a rl"
    using rl2 by (intro IH [OF assms(1) w(2)] hdist_less)
  show ?thesis
  proof (cases "hgt rl \<le> hgt rr")
    case True
    have "\<exists>t. tree_fn ROTL (Nod l a h r) = Some t \<and> balanced_to l a r t" for h
      unfolding r by (rule rotl_balances [OF assms(2) [unfolded r] rh(1) assms(4) True b_rl])
    moreover have "tree_fn BALANCE (Nod l a h r) = tree_fn ROTL (Nod l a h r)" for h
      using True assms(3,4) r by (simp add: balance_right)
    ultimately show ?thesis
      by (simp add: balances_def)
  next
    case False
    then obtain x c ch y where rl: "rl = Nod x c ch y"
      by (cases rl) auto
    have ch: "hgt rr < ch" "0 < ch"
      using False rl by simp_all
    have v: "ch = max (hgt x) (hgt y) + 1" "tree_wf x"
      using tree_wf_height [OF w(2) [unfolded rl] ch(2)] by simp_all
    show ?thesis
    proof (cases "hgt y \<le> hgt x")
      case True
      have "hgt l \<le> hgt x" "hgt x < hgt l + k"
        using True v(1) w(1,3) rh(1) ch(1) assms(4) rl by simp_all
      then have "balances l a x"
        by (intro IH [OF assms(1) v(2)] hdist_less)
      note single = inner_single [OF assms(2) [unfolded r rl] rh(1) assms(4) ch(1) True this]
      show ?thesis
        unfolding balances_def r rl using single by blast
    next
      case False
      then have "hgt x < hgt y" by simp
      note double = inner_double [OF assms(1) assms(2) [unfolded r rl] rh(1) assms(4) ch(1) this IH]
      show ?thesis
        unfolding balances_def r rl using double by blast
    qed
  qed
qed

lemma balances_mirror: "balances (mirror r) a (mirror l) \<Longrightarrow> balances l a r"
  unfolding balances_def
proof
  fix h
  assume "\<forall>h. \<exists>t. tree_fn BALANCE (Nod (mirror r) a h (mirror l)) = Some t \<and> balanced_to (mirror r) a (mirror l) t"
  then obtain t where t: "tree_fn BALANCE (Nod (mirror r) a h (mirror l)) = Some t" "balanced_to (mirror r) a (mirror l) t"
    by blast
  have "balanced_to l a r (mirror t)"
    using t(2) by (simp add: balanced_to_def max.commute)
  moreover have "tree_fn BALANCE (Nod l a h r) = Some (mirror t)"
    using tree_fn_mirror [OF t(1)] by simp
  ultimately show "\<exists>t. tree_fn BALANCE (Nod l a h r) = Some t \<and> balanced_to l a r t"
    by blast
qed

lemma balances_wf: "tree_wf l \<Longrightarrow> tree_wf r \<Longrightarrow> balances l a r"
proof (induction "hdist l r" arbitrary: l a r rule: less_induct)
  case less
  consider "hgt l \<le> hgt r + 1" "hgt r \<le> hgt l + 1" | "hgt l + 2 \<le> hgt r" | "hgt r + 2 \<le> hgt l"
    by linarith
  then show ?case
  proof cases
    case 1
    with less.prems show ?thesis by (simp add: balances_direct)
  next
    case 2
    show ?thesis
    proof (rule right_heavy [OF less.prems])
      show "hgt r = hgt l + hdist l r" "2 \<le> hdist l r"
        using 2 by (simp_all add: hdist_def)
    qed (rule less.hyps)
  next
    case 3
    show ?thesis
    proof (rule balances_mirror, rule right_heavy)
      show "tree_wf (mirror r)" "tree_wf (mirror l)"
        using less.prems by simp_all
      show "hgt (mirror l) = hgt (mirror r) + hdist l r" "2 \<le> hdist l r"
        using 3 by (simp_all add: hdist_def)
    qed (rule less.hyps)
  qed
qed

lemma balance_ok:
  "tree_wf l \<Longrightarrow> tree_wf r \<Longrightarrow>
    \<exists>t. tree_fn BALANCE (Nod l a h r) = Some t \<and> tree_wf t \<and> inorder t = inorder l @ a # inorder r"
  using balancesD [OF balances_wf, of l r a h] by (auto simp: balanced_to_def)

subsection \<open>Depth\<close>

fun depth :: "'a avl \<Rightarrow> nat" where
  "depth Nul = 0"
| "depth (Nod l a h r) = max (depth l) (depth r) + 1"

lemma depth_hgt: "tree_wf t \<Longrightarrow> depth t \<le> hgt t + 1"
  by (induction t) auto

lemma size_hgt: "tree_wf t \<Longrightarrow> 2 ^ (hgt t div 2) \<le> length (inorder t) + 1"
proof (induction t)
  case (Nod l a h r)
  have ih: "2 ^ (hgt l div 2) \<le> length (inorder l) + 1" "2 ^ (hgt r div 2) \<le> length (inorder r) + 1"
    using Nod by auto
  show ?case
  proof (cases "h < 2")
    case True
    then have "h div 2 = 0" by simp
    then show ?thesis by simp
  next
    case False
    then have w: "h = max (hgt l) (hgt r) + 1" "hgt l \<le> hgt r + 1" "hgt r \<le> hgt l + 1"
      using tree_wf_height [OF Nod.prems] by auto
    then have "(h - 2) div 2 \<le> hgt l div 2" "(h - 2) div 2 \<le> hgt r div 2"
      by (auto intro!: div_le_mono)
    then have "(2 :: nat) ^ ((h - 2) div 2) \<le> 2 ^ (hgt l div 2)" "(2 :: nat) ^ ((h - 2) div 2) \<le> 2 ^ (hgt r div 2)"
      by (auto intro: power_increasing)
    with ih have "2 ^ ((h - 2) div 2) + 2 ^ ((h - 2) div 2) \<le> length (inorder l) + 1 + (length (inorder r) + 1)"
      by linarith
    moreover have "(2 :: nat) ^ (h div 2) = 2 ^ ((h - 2) div 2) + 2 ^ ((h - 2) div 2)"
    proof -
      obtain m where "h = Suc (Suc m)" using False by (metis less_2_cases_iff not0_implies_Suc One_nat_def)
      then show ?thesis by simp
    qed
    ultimately show ?thesis by simp
  qed
qed simp

subsection \<open>Trees as maps\<close>

definition tree_ok :: "('a \<Rightarrow> 'k :: linorder) \<Rightarrow> 'a avl \<Rightarrow> bool" where
  "tree_ok key t \<longleftrightarrow> tree_wf t \<and> sorted_wrt (<) (map key (inorder t))"

definition tree_lookup :: "('a \<Rightarrow> 'k) \<Rightarrow> 'a avl \<Rightarrow> 'k \<Rightarrow> 'a option" where
  "tree_lookup key t k = find (\<lambda>x. key x = k) (inorder t)"

lemma forward_apply_fold: "forward_apply f t s = fold f (inorder t) s"
  by (induction t arbitrary: s) simp_all

lemma reverse_apply_fold: "reverse_apply f t s = fold f (rev (inorder t)) s"
  by (induction t arbitrary: s) simp_all

lemma tree_map_simps [simp]: "inorder (tree_map f t) = map f (inorder t)" "hgt (tree_map f t) = hgt t"
    "tree_map f t = Nul \<longleftrightarrow> t = Nul"
  by (induction t) simp_all

lemma tree_wf_map [simp]: "tree_wf (tree_map f t) = tree_wf t"
  by (induction t) simp_all

lemma find_append: "find P (xs @ ys) = (case find P xs of Some x \<Rightarrow> Some x | None \<Rightarrow> find P ys)"
  by (induction xs) auto

lemma find_filter: "find P (filter Q xs) = find (\<lambda>x. Q x \<and> P x) xs"
  by (induction xs) auto

lemma tree_map_ok: "tree_ok key t \<Longrightarrow> (\<And>x. key (f x) = key x) \<Longrightarrow> tree_ok key (tree_map f t)"
  by (simp add: tree_ok_def o_def)

lemma find_map_key: "(\<And>x. key (f x) = key x) \<Longrightarrow> find (\<lambda>x. key x = k) (map f xs) = map_option f (find (\<lambda>x. key x = k) xs)"
  by (induction xs) auto

lemma tree_map_lookup:
  "(\<And>x. key (f x) = key x) \<Longrightarrow> tree_lookup key (tree_map f t) k = map_option f (tree_lookup key t k)"
  unfolding tree_lookup_def tree_map_simps by (rule find_map_key)

lemma filter_split_sorted:
  fixes key :: "'a \<Rightarrow> 'k :: linorder"
  shows "sorted_wrt (\<lambda>x y. key x < key y) xs \<Longrightarrow> filter (\<lambda>x. key x \<le> k) xs @ filter (\<lambda>x. k < key x) xs = xs"
proof (induction xs)
  case (Cons x xs)
  show ?case
  proof (cases "key x \<le> k")
    case True
    with Cons show ?thesis by simp
  next
    case False
    then have "filter (\<lambda>x. key x \<le> k) (x # xs) = []" "filter (\<lambda>x. k < key x) (x # xs) = x # xs"
      using Cons.prems by (force simp: filter_empty_conv filter_id_conv)+
    then show ?thesis by simp
  qed
qed simp

text \<open>
  The contract of a comparison function: it orders payloads by a key.  Under it a sorted tree is a
  map from keys to payloads, and the operations are the operations of maps.
\<close>

locale key_compare =
  fixes cmp :: "'a \<Rightarrow> 'a \<Rightarrow> int" and key :: "'a \<Rightarrow> 'k :: linorder"
  assumes cmp_less: "cmp a b < 0 \<longleftrightarrow> key a < key b"
    and cmp_eq: "cmp a b = 0 \<longleftrightarrow> key a = key b"
begin

lemma find_inorder:
  "sorted_wrt (<) (map key (inorder t)) \<Longrightarrow> tree_find cmp e t = find (\<lambda>x. key x = key e) (inorder t)"
proof (induction t)
  case (Nod l a h r)
  have o: "\<forall>x \<in> set (inorder l). key x < key a" "\<forall>x \<in> set (inorder r). key a < key x"
    "sorted_wrt (<) (map key (inorder l))" "sorted_wrt (<) (map key (inorder r))"
    using Nod.prems by (auto simp: sorted_wrt_append)
  have f: "find P (xs @ y # ys) = (case find P xs of Some x \<Rightarrow> Some x | None \<Rightarrow> if P y then Some y else find P ys)"
    for P and xs ys :: "'a list" and y
    by (induction xs) auto
  consider "key e = key a" | "key e < key a" | "key a < key e"
    by (rule linorder_cases)
  then show ?case
  proof cases
    case 1
    with o have "find (\<lambda>x. key x = key e) (inorder l) = None"
      by (auto simp: find_None_iff)
    with 1 show ?thesis by (simp add: f cmp_eq)
  next
    case 2
    with o have "find (\<lambda>x. key x = key e) (inorder r) = None"
      by (auto simp: find_None_iff)
    with 2 Nod.IH(1) o(3) show ?thesis by (auto simp: f cmp_eq cmp_less split: option.splits)
  next
    case 3
    with o have "find (\<lambda>x. key x = key e) (inorder l) = None"
      by (auto simp: find_None_iff)
    with 3 Nod.IH(2) o(4) show ?thesis by (auto simp: f cmp_eq cmp_less)
  qed
qed simp

lemma insert_inorder:
  "tree_wf t \<Longrightarrow> sorted_wrt (<) (map key (inorder t)) \<Longrightarrow>
    \<exists>t'. tree_insert cmp e t = Some t' \<and> tree_wf t' \<and>
      inorder t' = filter (\<lambda>x. key x \<le> key e) (inorder t) @ e # filter (\<lambda>x. key e < key x) (inorder t)"
proof (induction t)
  case (Nod l a h r)
  have w: "tree_wf l" "tree_wf r"
    using Nod.prems(1) by auto
  have o: "\<forall>x \<in> set (inorder l). key x < key a" "\<forall>x \<in> set (inorder r). key a < key x"
    "sorted_wrt (<) (map key (inorder l))" "sorted_wrt (<) (map key (inorder r))"
    using Nod.prems(2) by (auto simp: sorted_wrt_append)
  show ?case
  proof (cases "key e < key a")
    case True
    obtain l' where l': "tree_insert cmp e l = Some l'" "tree_wf l'"
        "inorder l' = filter (\<lambda>x. key x \<le> key e) (inorder l) @ e # filter (\<lambda>x. key e < key x) (inorder l)"
      using Nod.IH(1) w(1) o(3) by blast
    have f: "filter (\<lambda>x. key x \<le> key e) (inorder r) = []" "filter (\<lambda>x. key e < key x) (inorder r) = inorder r"
      using o(2) True by (auto simp: filter_empty_conv filter_id_conv)
    obtain t' where "tree_fn BALANCE (Nod l' a h r) = Some t'" "tree_wf t'" "inorder t' = inorder l' @ a # inorder r"
      using balance_ok [OF l'(2) w(2)] by blast
    with l' f True show ?thesis
      by (simp add: cmp_less)
  next
    case False
    obtain r' where r': "tree_insert cmp e r = Some r'" "tree_wf r'"
        "inorder r' = filter (\<lambda>x. key x \<le> key e) (inorder r) @ e # filter (\<lambda>x. key e < key x) (inorder r)"
      using Nod.IH(2) w(2) o(4) by blast
    have f: "filter (\<lambda>x. key e < key x) (inorder l) = []" "filter (\<lambda>x. key x \<le> key e) (inorder l) = inorder l"
      using o(1) False by (force simp: filter_empty_conv filter_id_conv)+
    obtain t' where "tree_fn BALANCE (Nod l a h r') = Some t'" "tree_wf t'" "inorder t' = inorder l @ a # inorder r'"
      using balance_ok [OF w(1) r'(2)] by blast
    with r' f False show ?thesis
      by (simp add: cmp_less)
  qed
qed simp

lemma move_right_inorder:
  "tree_wf l \<Longrightarrow> tree_wf r \<Longrightarrow>
    \<exists>t'. tree_move_right l r = Some t' \<and> tree_wf t' \<and> inorder t' = inorder l @ inorder r"
proof (induction l)
  case (Nod ll a h lr)
  then obtain r' where r': "tree_move_right lr r = Some r'" "tree_wf r'" "inorder r' = inorder lr @ inorder r"
    by auto
  moreover obtain t' where "tree_fn BALANCE (Nod ll a h r') = Some t'" "tree_wf t'" "inorder t' = inorder ll @ a # inorder r'"
    using balance_ok [OF _ r'(2), of ll] Nod.prems by auto
  ultimately show ?case by simp
qed simp

lemma remove_inorder:
  "tree_wf t \<Longrightarrow> sorted_wrt (<) (map key (inorder t)) \<Longrightarrow>
    \<exists>t'. tree_remove cmp e t = Some t' \<and> tree_wf t' \<and> inorder t' = filter (\<lambda>x. key x \<noteq> key e) (inorder t)"
proof (induction t)
  case (Nod l a h r)
  have w: "tree_wf l" "tree_wf r"
    using Nod.prems(1) by auto
  have o: "\<forall>x \<in> set (inorder l). key x < key a" "\<forall>x \<in> set (inorder r). key a < key x"
    "sorted_wrt (<) (map key (inorder l))" "sorted_wrt (<) (map key (inorder r))"
    using Nod.prems(2) by (auto simp: sorted_wrt_append)
  have keep: "key e \<ge> key a \<Longrightarrow> filter (\<lambda>x. key x \<noteq> key e) (inorder l) = inorder l"
    "key e \<le> key a \<Longrightarrow> filter (\<lambda>x. key x \<noteq> key e) (inorder r) = inorder r"
    using o(1,2) by (auto simp: filter_id_conv)
  consider "key e = key a" | "key e < key a" | "key a < key e"
    by (rule linorder_cases)
  then show ?case
  proof cases
    case 1
    with move_right_inorder [OF w] keep show ?thesis by (simp add: cmp_eq)
  next
    case 2
    obtain l' where l': "tree_remove cmp e l = Some l'" "tree_wf l'" "inorder l' = filter (\<lambda>x. key x \<noteq> key e) (inorder l)"
      using Nod.IH(1) w(1) o(3) by blast
    with balance_ok [OF l'(2) w(2), of a h] 2 keep show ?thesis by (auto simp: cmp_eq cmp_less)
  next
    case 3
    obtain r' where r': "tree_remove cmp e r = Some r'" "tree_wf r'" "inorder r' = filter (\<lambda>x. key x \<noteq> key e) (inorder r)"
      using Nod.IH(2) w(2) o(4) by blast
    with balance_ok [OF w(1) r'(2), of a h] 3 keep show ?thesis by (auto simp: cmp_eq cmp_less)
  qed
qed simp

lemma tree_find_lookup: "tree_ok key t \<Longrightarrow> tree_find cmp e t = tree_lookup key t (key e)"
  by (simp add: tree_ok_def tree_lookup_def find_inorder)

lemma tree_insert_lookup:
  assumes "tree_ok key t" "tree_lookup key t (key e) = None"
  shows "\<exists>t'. tree_insert cmp e t = Some t' \<and> tree_ok key t' \<and>
    tree_lookup key t' = (tree_lookup key t)(key e \<mapsto> e) \<and> length (inorder t') = Suc (length (inorder t))"
proof -
  let ?lo = "filter (\<lambda>x. key x \<le> key e) (inorder t)" and ?hi = "filter (\<lambda>x. key e < key x) (inorder t)"
  obtain t' where t': "tree_insert cmp e t = Some t'" "tree_wf t'" "inorder t' = ?lo @ e # ?hi"
    using insert_inorder [of t e] assms(1) unfolding tree_ok_def by blast
  have ne: "\<forall>x \<in> set (inorder t). key x \<noteq> key e"
    using assms(2) by (auto simp: tree_lookup_def find_None_iff)
  have srt: "sorted_wrt (\<lambda>x y. key x < key y) (inorder t)"
    using assms(1) by (simp add: tree_ok_def sorted_wrt_map)
  have "tree_ok key t'"
    using ne t' sorted_wrt_filter [OF srt]
    by (auto simp: tree_ok_def sorted_wrt_map sorted_wrt_append order.order_iff_strict)
  moreover have "tree_lookup key t' k = ((tree_lookup key t)(key e \<mapsto> e)) k" for k
  proof -
    have "tree_lookup key t k = find (\<lambda>x. key x = k) (?lo @ ?hi)"
      using filter_split_sorted [OF srt, of "key e"] by (simp add: tree_lookup_def)
    moreover have "find (\<lambda>x. key x = key e) ?lo = None"
      using ne by (auto simp: find_None_iff)
    ultimately show ?thesis
      using t'(3) by (auto simp: tree_lookup_def find_append split: option.splits)
  qed
  moreover have "length (inorder t') = Suc (length (inorder t))"
    using t'(3) filter_split_sorted [OF srt, of "key e"] by (metis length_append length_Cons add_Suc_right)
  ultimately show ?thesis
    using t'(1) by blast
qed

lemma tree_remove_lookup:
  assumes "tree_ok key t"
  shows "\<exists>t'. tree_remove cmp e t = Some t' \<and> tree_ok key t' \<and>
    tree_lookup key t' = (tree_lookup key t)(key e := None) \<and>
    inorder t' = filter (\<lambda>x. key x \<noteq> key e) (inorder t)"
proof -
  obtain t' where t': "tree_remove cmp e t = Some t'" "tree_wf t'" "inorder t' = filter (\<lambda>x. key x \<noteq> key e) (inorder t)"
    using remove_inorder [of t e] assms unfolding tree_ok_def by blast
  have "tree_ok key t'"
    using assms t' by (simp add: tree_ok_def sorted_wrt_map sorted_wrt_filter)
  moreover have "tree_lookup key t' k = ((tree_lookup key t)(key e := None)) k" for k
  proof (cases "k = key e")
    case True
    then show ?thesis
      using t'(3) by (auto simp: tree_lookup_def find_filter find_None_iff)
  next
    case False
    then have "(\<lambda>x. key x \<noteq> key e \<and> key x = k) = (\<lambda>x. key x = k)"
      by auto
    with False show ?thesis
      using t'(3) by (simp add: tree_lookup_def find_filter)
  qed
  ultimately show ?thesis
    using t' by blast
qed

lemma tree_modify_inorder:
  "sorted_wrt (<) (map key (inorder t)) \<Longrightarrow>
    inorder (tree_modify cmp e f t) = map (\<lambda>x. if key x = key e then f x else x) (inorder t)"
proof (induction t)
  case (Nod l a h r)
  have o: "\<forall>x \<in> set (inorder l). key x < key a" "\<forall>x \<in> set (inorder r). key a < key x"
    "sorted_wrt (<) (map key (inorder l))" "sorted_wrt (<) (map key (inorder r))"
    using Nod.prems by (auto simp: sorted_wrt_append)
  have keep: "key e \<ge> key a \<Longrightarrow> map (\<lambda>x. if key x = key e then f x else x) (inorder l) = inorder l"
    "key e \<le> key a \<Longrightarrow> map (\<lambda>x. if key x = key e then f x else x) (inorder r) = inorder r"
    using o(1,2) by (fastforce intro!: map_idI)+
  consider "key e = key a" | "key e < key a" | "key a < key e"
    by (rule linorder_cases)
  then show ?case
    using Nod.IH o(3,4) keep by cases (auto simp: cmp_eq cmp_less)
qed simp

lemma tree_modify_shape [simp]:
  "hgt (tree_modify cmp e f t) = hgt t" "tree_modify cmp e f t = Nul \<longleftrightarrow> t = Nul"
  by (induction t) simp_all

lemma tree_modify_wf [simp]: "tree_wf (tree_modify cmp e f t) = tree_wf t"
  by (induction t) auto

lemma tree_modify_lookup:
  assumes "tree_ok key t" "\<And>x. key x = key e \<Longrightarrow> key (f x) = key x"
  shows "tree_ok key (tree_modify cmp e f t)"
    "tree_lookup key (tree_modify cmp e f t) = (tree_lookup key t)(key e := map_option f (tree_lookup key t (key e)))"
proof -
  let ?g = "\<lambda>x. if key x = key e then f x else x"
  have i: "inorder (tree_modify cmp e f t) = map ?g (inorder t)"
    using tree_modify_inorder assms(1) by (simp add: tree_ok_def)
  have g: "key (?g x) = key x" for x
    using assms(2) by simp
  have "map key (inorder (tree_modify cmp e f t)) = map key (inorder t)"
    using i g by simp
  then show "tree_ok key (tree_modify cmp e f t)"
    using assms(1) unfolding tree_ok_def tree_modify_wf by simp
  have l: "tree_lookup key (tree_modify cmp e f t) k = map_option ?g (tree_lookup key t k)" for k
    unfolding tree_lookup_def i by (rule find_map_key) (rule g)
  have k: "tree_lookup key t k = Some x \<Longrightarrow> key x = k" for k x
    by (auto simp: tree_lookup_def find_Some_iff)
  show "tree_lookup key (tree_modify cmp e f t) = (tree_lookup key t)(key e := map_option f (tree_lookup key t (key e)))"
  proof
    fix j
    show "tree_lookup key (tree_modify cmp e f t) j =
        ((tree_lookup key t)(key e := map_option f (tree_lookup key t (key e)))) j"
      using k [of j] by (cases "tree_lookup key t j") (auto simp: l)
  qed
qed

end

subsection \<open>Properties\<close>

text \<open>C14: rebalancing always ends and keeps what it should.  For any two well-formed subtrees, however
  different their heights, \<^verbatim>\<open>TREE_BALANCE\<close> returns without following a null pointer; the result is
  well formed, holds the same nodes in the same order, and its stored height is that of the higher
  subtree or one more.\<close>

theorem tree_balance_correct:
  assumes "tree_wf l" "tree_wf r"
  shows "\<exists>t. tree_fn BALANCE (Nod l a h r) = Some t \<and> tree_wf t \<and> inorder t = inorder l @ a # inorder r \<and>
    max (hgt l) (hgt r) \<le> hgt t \<and> hgt t \<le> max (hgt l) (hgt r) + 1"
  using balancesD [OF balances_wf [OF assms], of a h] by (simp add: balanced_to_def)

theorem tree_balance_correct_witness:
  "\<exists>t. tree_fn BALANCE (Nod Nul (1 :: int) 0 (Nod (Nod Nul 2 1 Nul) 3 2 Nul)) = Some t \<and> tree_wf t \<and>
    inorder t = inorder Nul @ 1 # inorder (Nod (Nod Nul 2 1 Nul) 3 2 Nul) \<and>
    max (hgt (Nul :: int avl)) (hgt (Nod (Nod Nul (2 :: int) 1 Nul) 3 2 Nul)) \<le> hgt t \<and>
    hgt t \<le> max (hgt (Nul :: int avl)) (hgt (Nod (Nod Nul (2 :: int) 1 Nul) 3 2 Nul)) + 1"
  by (rule tree_balance_correct) simp_all

text \<open>A well-formed tree is shallow: its depth is at most twice the binary logarithm of the number of
  its nodes, and a small constant.\<close>

theorem tree_depth_bound:
  assumes "tree_wf t"
  shows "2 ^ ((depth t - 1) div 2) \<le> length (inorder t) + 1"
proof -
  have "(depth t - 1) div 2 \<le> hgt t div 2"
    using depth_hgt [OF assms] by (intro div_le_mono) simp
  then have "(2 :: nat) ^ ((depth t - 1) div 2) \<le> 2 ^ (hgt t div 2)"
    by (rule power_increasing) simp
  then show ?thesis
    using size_hgt [OF assms] by linarith
qed

theorem tree_depth_bound_witness:
  "2 ^ ((depth (Nod (Nod Nul 1 1 Nul) (2 :: int) 2 (Nod Nul 3 0 Nul)) - 1) div 2) \<le>
    length (inorder (Nod (Nod Nul 1 1 Nul) (2 :: int) 2 (Nod Nul 3 0 Nul))) + 1"
  by (rule tree_depth_bound) simp

text \<open>The tree is not an AVL tree in the sense of its description.  A new node carries the stored height
  of an empty tree, so that the first three nodes inserted in increasing order form a chain of depth 3
  whose root has subtrees of depth 0 and 2.\<close>

theorem three_inserts_make_a_chain:
  "Option.bind (tree_insert (-) 1 Nul) (\<lambda>t. Option.bind (tree_insert (-) 2 t) (tree_insert (-) (3 :: int))) =
    Some (Nod Nul 1 2 (Nod Nul 2 1 (Nod Nul 3 0 Nul)))"
  by (simp add: balance_direct)

end
