(* ===== verification/Cstats.thy ===== *)
theory Cstats
  imports Archive Avltree "HOL-Library.List_Lexorder"
begin

section \<open>The address monitor\<close>

text \<open>
  \<^verbatim>\<open>cstats/cstats.c\<close>: the monitor that keeps for every address of the local networks what \<^verbatim>\<open>rstats\<close> keeps
  for interfaces.  The nodes are the payloads of a balanced tree ordered by \<^verbatim>\<open>Node_compare\<close>; they hold
  the rings of the address, so that the definitions of the histories are shared with \<^verbatim>\<open>rstats\<close>.  \<open>None\<close>
  stands for an access outside an array or through a null pointer.  Storage works as in \<^verbatim>\<open>rstats\<close>, with
  one file; the compression library is again the parameter \<open>nodes_of\<close>, which gives the complete
  nodes of a file and whether the file ends after the last one.
\<close>

subsection \<open>Nodes\<close>

definition NODE_ID :: u32 where "NODE_ID = 0x32305352"
definition NODE_NMONTHLY :: nat where "NODE_NMONTHLY = 25"
definition MAX_NODES :: int where "MAX_NODES = 2000"
definition INET_ADDRSTRLEN :: nat where "INET_ADDRSTRLEN = 16"

record node =
  ipaddr :: string
  node_id :: u32
  node_daily :: "data_t list"
  node_dailyp :: int
  node_monthly :: "data_t list"
  node_monthlyp :: int
  node_utime :: int
  node_speed :: "counters list"
  node_last :: counters
  node_tail :: int
  node_sync :: int

record cstats =
  c_tree :: "node avl"
  node_count :: int
  c_uptime :: int

definition blank_node :: "string \<Rightarrow> node" where
  "blank_node ip =
     \<lparr>ipaddr = take INET_ADDRSTRLEN ip, node_id = NODE_ID,
      node_daily = replicate MAX_NDAILY no_data, node_dailyp = 0,
      node_monthly = replicate NODE_NMONTHLY no_data, node_monthlyp = 0,
      node_utime = 0, node_speed = replicate MAX_NSPEED (0, 0), node_last = (0, 0), node_tail = 0, node_sync = 0\<rparr>"

definition Node_new :: "string \<Rightarrow> cstats \<Rightarrow> node option \<times> cstats" where
  "Node_new ip st =
     (if MAX_NODES \<le> node_count st then (None, st)
      else (Some (blank_node ip), st\<lparr>node_count := node_count st + 1\<rparr>))"

definition Node_compare :: "node \<Rightarrow> node \<Rightarrow> int" where
  "Node_compare lhs rhs = strncmp (ipaddr lhs) (ipaddr rhs) INET_ADDRSTRLEN"

text \<open>
  \<^verbatim>\<open>TREE_INSERT\<close> with what \<^verbatim>\<open>Node_new\<close> returned: a null pointer becomes the root of an empty tree, and is
  followed by the comparison with the root of any other.
\<close>

definition insert_new :: "string \<Rightarrow> cstats \<Rightarrow> cstats option" where
  "insert_new ip st =
     (case Node_new ip st of
        (Some e, st) \<Rightarrow> map_option (\<lambda>t. st\<lparr>c_tree := t\<rparr>) (tree_insert Node_compare e (c_tree st))
      | (None, st) \<Rightarrow> if c_tree st = Nul then Some st else None)"

definition find_node :: "string \<Rightarrow> cstats \<Rightarrow> node option" where
  "find_node ip st = tree_find Node_compare ((blank_node [])\<lparr>ipaddr := take INET_ADDRSTRLEN ip\<rparr>) (c_tree st)"

definition write_node :: "string \<Rightarrow> (node \<Rightarrow> node) \<Rightarrow> cstats \<Rightarrow> cstats" where
  "write_node ip f st =
     st\<lparr>c_tree := tree_modify Node_compare ((blank_node [])\<lparr>ipaddr := take INET_ADDRSTRLEN ip\<rparr>) f (c_tree st)\<rparr>"

definition remove_node :: "string \<Rightarrow> cstats \<Rightarrow> cstats option" where
  "remove_node ip st =
     map_option (\<lambda>t. st\<lparr>c_tree := t, node_count := node_count st - 1\<rparr>)
       (tree_remove Node_compare ((blank_node [])\<lparr>ipaddr := take INET_ADDRSTRLEN ip\<rparr>) (c_tree st))"

text \<open>The loop that takes away the root until there is none.\<close>

partial_function (option) free_loop :: "node avl \<Rightarrow> node avl option" where
  "free_loop t =
     (case t of Nul \<Rightarrow> Some Nul | Nod l a h r \<Rightarrow> Option.bind (tree_remove Node_compare a t) (\<lambda>t. free_loop t))"

definition free_all_nodes :: "cstats \<Rightarrow> cstats option" where
  "free_all_nodes st = map_option (\<lambda>t. st\<lparr>c_tree := t, node_count := 0\<rparr>) (free_loop (c_tree st))"

subsection \<open>Reading a line of the accounting module\<close>

text \<open>The directives of the format between the conversions: white space matches any amount of it.\<close>

fun scan_lit :: "string \<Rightarrow> string \<Rightarrow> string option" where
  "scan_lit [] s = Some s"
| "scan_lit (c # f) s =
     (if isspace c then scan_lit f (dropWhile isspace s)
      else case s of [] \<Rightarrow> None | d # r \<Rightarrow> if c = d then scan_lit f r else None)"

definition scan_s :: "string \<Rightarrow> (string \<times> string) option" where
  "scan_s s =
     (let s = dropWhile isspace s; w = takeWhile (\<lambda>c. \<not> isspace c) s
      in if w = [] then None else Some (w, drop (length w) s))"

definition parse_account_line :: "string \<Rightarrow> (string \<times> u64 \<times> u64) option" where
  "parse_account_line s =
     Option.bind (scan_lit ''ip = '' s) (\<lambda>s.
     Option.bind (scan_s s) (\<lambda>(ip, s).
     Option.bind (scan_lit '' bytes_src = '' s) (\<lambda>s.
     Option.bind (scan_llu s) (\<lambda>(rx, s).
     Option.bind (skip_u 4 s) (\<lambda>s.
     Option.bind (scan_lit '' packets_src = '' s) (\<lambda>s.
     Option.bind (skip_u 5 s) (\<lambda>s.
     Option.bind (scan_lit '' bytes_dst = '' s) (\<lambda>s.
     Option.bind (scan_llu s) (\<lambda>(tx, s). Some (ip, rx, tx))))))))))"

subsection \<open>One address\<close>

definition node_sample :: "bool \<Rightarrow> int \<Rightarrow> counters \<Rightarrow> node \<Rightarrow> (node \<times> counters option) option" where
  "node_sample fresh up cnt nd =
     (if node_sync nd \<noteq> 0 then Some (nd\<lparr>node_sync := - 1, node_last := cnt\<rparr>, Some (0, 0))
      else
        let nd = nd\<lparr>node_sync := - 1\<rparr>; tick = up - node_utime nd; n = tick div INTERVAL
        in if tick < INTERVAL then Some (nd, None)
           else
             let d = (counter_diff fresh (fst cnt) (fst (node_last nd)), counter_diff fresh (snd cnt) (snd (node_last nd)));
                 v = (fst d div of_int n, snd d div of_int n)
             in case push_speed (nat n) v (node_speed nd) (node_tail nd) of
                  None \<Rightarrow> None
                | Some (ring, t) \<Rightarrow>
                    Some (nd\<lparr>node_utime := node_utime nd + n * INTERVAL, node_last := cnt, node_speed := ring, node_tail := t\<rparr>,
                      Some d))"

definition node_history :: "world \<Rightarrow> counters \<Rightarrow> node \<Rightarrow> node option" where
  "node_history w c nd =
     (case bump (node_daily nd) (node_dailyp nd) (day_key (w_localtime w (w_now w))) c of
        None \<Rightarrow> None
      | Some (d, p) \<Rightarrow>
          let nd = nd\<lparr>node_daily := d, node_dailyp := p\<rparr>
          in case bump (node_monthly nd) (node_monthlyp nd)
                  (month_key (w_localtime w (month_time (w_nvram w) ''cstats_offset'' (w_now w)))) c of
               None \<Rightarrow> None
             | Some (m, q) \<Rightarrow> Some (nd\<lparr>node_monthly := m, node_monthlyp := q\<rparr>))"

text \<open>Everything that happens to a node when its line is read.\<close>

definition node_step :: "world \<Rightarrow> int \<Rightarrow> counters \<Rightarrow> node \<Rightarrow> node option" where
  "node_step w up cnt nd =
     (case node_sample (wan_fresh w ''wan'') up cnt nd of
        None \<Rightarrow> None
      | Some (nd, None) \<Rightarrow> Some nd
      | Some (nd, Some c) \<Rightarrow>
          if nvram_get_int (w_nvram w) ''ntp_ready'' \<noteq> 0 then node_history w c nd else Some nd)"

definition account :: "world \<Rightarrow> string \<Rightarrow> string \<Rightarrow> string \<Rightarrow> u64 \<Rightarrow> u64 \<Rightarrow> cstats \<Rightarrow> cstats option" where
  "account w exclude incl ip rx tx st =
     (if find_word exclude ip \<noteq> None then Some st
      else
        let old = find_node ip st
        in if tx < 1 \<and> rx < 1 \<and> old = None then Some st
           else if old \<noteq> None \<or> nvram_get_int (w_nvram w) ''cstats_all'' \<noteq> 0 \<or> find_word incl ip \<noteq> None then
             Option.bind
               (if old = None
                then map_option (write_node ip (\<lambda>nd. nd\<lparr>node_sync := 1, node_utime := c_uptime st\<rparr>)) (insert_new ip st)
                else Some st)
               (\<lambda>st. case find_node ip st of
                       None \<Rightarrow> Some st
                     | Some nd \<Rightarrow> map_option (\<lambda>nd'. write_node ip (\<lambda>_. nd') st) (node_step w (c_uptime st) (tx, rx) nd))
           else Some st)"

definition account_line :: "world \<Rightarrow> string \<Rightarrow> string \<Rightarrow> cstats \<Rightarrow> string \<Rightarrow> cstats option" where
  "account_line w exclude incl st buf =
     (case parse_account_line buf of
        None \<Rightarrow> Some st
      | Some (ip, rx, tx) \<Rightarrow> if INET_ADDRSTRLEN \<le> length ip then None else account w exclude incl ip rx tx st)"

fun account_lines :: "world \<Rightarrow> string \<Rightarrow> string \<Rightarrow> cstats \<Rightarrow> string list \<Rightarrow> cstats option" where
  "account_lines w exclude incl st [] = Some st"
| "account_lines w exclude incl st (l # ls) =
     Option.bind (account_line w exclude incl st l) (\<lambda>st. account_lines w exclude incl st ls)"

subsection \<open>Removal of excluded addresses, and housekeeping\<close>

fun drop_excluded :: "string list \<Rightarrow> cstats \<Rightarrow> cstats option" where
  "drop_excluded [] st = Some st"
| "drop_excluded (b # bs) st =
     (if find_node b st = None then drop_excluded bs st
      else Option.bind (remove_node b st) (drop_excluded bs))"

definition Node_housekeeping :: "node \<Rightarrow> node" where
  "Node_housekeeping nd = (if node_sync nd = - 1 then nd\<lparr>node_sync := 0\<rparr> else nd\<lparr>node_sync := 1\<rparr>)"

definition account_all :: "world \<Rightarrow> string list list \<Rightarrow> cstats \<Rightarrow> cstats option" where
  "account_all w bridges st =
     (let exclude = nvram_safe_get (w_nvram w) ''cstats_exclude''; incl = nvram_safe_get (w_nvram w) ''cstats_include''
      in Option.bind (account_lines w exclude incl st (concat bridges)) (\<lambda>st.
         Option.bind (drop_excluded (split_on (CHR '','') exclude) st) (\<lambda>st.
         Some (st\<lparr>c_tree := tree_map Node_housekeeping (c_tree st)\<rparr>))))"

subsection \<open>Files\<close>

text \<open>What is copied into the new node from the structure that was read.\<close>

definition copy_node :: "int \<Rightarrow> node \<Rightarrow> node \<Rightarrow> node" where
  "copy_node up tmp nd =
     (let nd = tmp\<lparr>ipaddr := ipaddr nd, node_id := node_id nd, node_sync := - 1\<rparr>
      in if up < node_utime nd then nd\<lparr>node_utime := up, node_sync := 1\<rparr> else nd)"

definition load_node :: "string \<Rightarrow> node \<Rightarrow> cstats \<times> int \<Rightarrow> (cstats \<times> int) option" where
  "load_node exclude tmp s =
     (if find_word exclude (ipaddr tmp) \<noteq> None \<or> node_id tmp \<noteq> NODE_ID then Some s
      else
        Option.bind (if find_node (ipaddr tmp) (fst s) = None then Some (fst s) else remove_node (ipaddr tmp) (fst s)) (\<lambda>st.
        Option.bind (insert_new (ipaddr tmp) st) (\<lambda>st.
        if find_node (ipaddr tmp) st = None then Some (st, snd s)
        else Some (write_node (ipaddr tmp) (copy_node (c_uptime st) tmp) st, snd s + 1))))"

fun load_nodes :: "string \<Rightarrow> node list \<Rightarrow> cstats \<times> int \<Rightarrow> (cstats \<times> int) option" where
  "load_nodes exclude [] s = Some s"
| "load_nodes exclude (tmp # nds) s = Option.bind (load_node exclude tmp s) (load_nodes exclude nds)"

definition load_history_to_tree :: "(u8 list \<Rightarrow> node list \<times> bool) \<Rightarrow> nvram \<Rightarrow> files \<Rightarrow> string \<Rightarrow> cstats \<Rightarrow> (cstats \<times> int) option" where
  "load_history_to_tree nodes_of nv fs fname st =
     (case fs fname of
        None \<Rightarrow> Some (st, - 1)
      | Some b \<Rightarrow>
          (case nodes_of b of (nds, complete) \<Rightarrow>
             map_option (\<lambda>s. (fst s, if complete then snd s else - 1))
               (load_nodes (nvram_safe_get nv ''cstats_exclude'') nds (st, 0))))"

text \<open>The results are combined bit by bit.\<close>

fun node_hardway_loop :: "(u8 list \<Rightarrow> node list \<times> bool) \<Rightarrow> nvram \<Rightarrow> files \<Rightarrow> string list \<Rightarrow> cstats \<times> int \<Rightarrow> (cstats \<times> int) option" where
  "node_hardway_loop nodes_of nv fs [] s = Some s"
| "node_hardway_loop nodes_of nv fs (fn # fns) s =
     Option.bind (load_history_to_tree nodes_of nv fs fn (fst s)) (\<lambda>(st, n).
       node_hardway_loop nodes_of nv fs fns (st, snd s OR n))"

definition node_try_hardway :: "(u8 list \<Rightarrow> node list \<times> bool) \<Rightarrow> nvram \<Rightarrow> files \<Rightarrow> string \<Rightarrow> cstats \<Rightarrow> (cstats \<times> int) option" where
  "node_try_hardway nodes_of nv fs fname st = node_hardway_loop nodes_of nv fs (hardway_names fname) (st, 0)"

text \<open>The nodes in the order in which \<^verbatim>\<open>Node_save\<close> writes them.\<close>

definition saved_nodes :: "cstats \<Rightarrow> node list" where
  "saved_nodes st = rev (forward_apply (#) (c_tree st) [])"

definition save_history_from_tree :: "(node list \<Rightarrow> u8 list) \<Rightarrow> (string \<Rightarrow> bool) \<Rightarrow> string \<Rightarrow> cstats \<Rightarrow> files \<Rightarrow> files" where
  "save_history_from_tree gz ok fname st fs = write_file ok (fname @ ''.gz'') (gz (saved_nodes st)) fs"

definition c_history_fn :: string where "c_history_fn = ''/var/lib/misc/cstats-history''"
definition c_source_fn :: string where "c_source_fn = ''/var/lib/misc/cstats-source''"
definition c_stime_fn :: string where "c_stime_fn = ''/var/lib/misc/cstats-stime''"

fun c_save_loop :: "attempt list \<Rightarrow> rstore \<Rightarrow> rstore" where
  "c_save_loop [] r = r"
| "c_save_loop (a # as) r =
     (let fs = a_files a (files r);
          (ok, fs, lb) =
            (if a_idle a
             then archive_file (nvm r) ''cstats_bak'' (a_writable a) (a_yday a) (c_history_fn @ ''.gz'') (save_path r) (fs, lastbak r)
             else (False, fs, lastbak r));
          r = r\<lparr>files := fs, lastbak := lb\<rparr>
      in if ok \<or> a_term a then r else c_save_loop as r)"

definition c_save :: "(node list \<Rightarrow> u8 list) \<Rightarrow> layout \<Rightarrow> (string \<Rightarrow> bool) \<Rightarrow> attempt list \<Rightarrow> cstats \<Rightarrow> bool \<Rightarrow> rstore \<Rightarrow> rstore" where
  "c_save gz y ok as st quick r =
     (let fs = write_file ok c_stime_fn (put_long y (save_utime r)) (files r);
          fs = save_history_from_tree gz ok c_history_fn st fs;
          fs = write_file ok c_source_fn (map byte_of (save_path r)) fs;
          r = r\<lparr>files := fs\<rparr>
      in if quick \<or> save_path r = [] then r else c_save_loop (take 15 as) r)"

fun c_load_loop :: "(u8 list \<Rightarrow> node list \<times> bool) \<Rightarrow> attempt list \<Rightarrow> cstats \<times> rstore \<Rightarrow> (load_end \<times> cstats \<times> rstore) option" where
  "c_load_loop nodes_of [] (st, r) = Some (Waiting, st, r)"
| "c_load_loop nodes_of (a # as) (st, r) =
     (let r = r\<lparr>files := a_files a (files r)\<rparr>
      in Option.bind
           (if a_idle a then
              Option.bind (load_history_to_tree nodes_of (nvm r) (files r) (save_path r) st) (\<lambda>(st, n).
                if 0 \<le> n then Some (st, True)
                else map_option (\<lambda>(st, n). (st, 0 \<le> n)) (node_try_hardway nodes_of (nvm r) (files r) (save_path r) st))
            else Some (st, False))
           (\<lambda>(st, found).
             if found then
               Some (Loaded, st, r\<lparr>files := write_file (a_writable a) c_source_fn (map byte_of (save_path r)) (files r)\<rparr>)
             else if a_idle a \<and> files r (save_path r) = None \<and>
                (case parent_dir (save_path r) of None \<Rightarrow> False | Some d \<Rightarrow> \<not> unmounted_cifs_dir a d \<and> a_dir a d)
             then Some (Created, st, r\<lparr>save_utime := 0\<rparr>)
             else if a_term a then Some (Gave_up, st, r\<lparr>save_path := []\<rparr>)
             else c_load_loop nodes_of as (st, r)))"

definition c_load :: "(u8 list \<Rightarrow> node list \<times> bool) \<Rightarrow> layout \<Rightarrow> attempt list \<Rightarrow> bool \<Rightarrow> int \<Rightarrow> cstats \<times> rstore \<Rightarrow>
    (load_end \<times> cstats \<times> rstore) option" where
  "c_load nodes_of y as new up s =
     Option.bind (if new then free_all_nodes (fst s) else Some (fst s)) (\<lambda>st.
       let st = st\<lparr>c_uptime := up\<rparr>; r = snd s;
           r = r\<lparr>save_path := history_path (nvm r) ''cstats_path'' ''tomato_cstats_''\<rparr>;
           r = r\<lparr>save_utime := load_save_utime y (files r) c_stime_fn up (get_stime (nvm r) ''cstats_stime'')\<rparr>
       in if new then Some (Created, st, r\<lparr>files := (files r)(c_history_fn @ ''.gz'' := None), save_utime := 0\<rparr>)
          else if save_path r = [] then Some (Loaded, st, r)
          else c_load_loop nodes_of as (st, r))"

subsection \<open>The pages\<close>

definition speed_empty :: "node \<Rightarrow> bool" where
  "speed_empty nd \<longleftrightarrow> list_all (\<lambda>c. fst c = 0 \<and> snd c = 0) (node_speed nd)"

definition node_counter_js :: "bool \<Rightarrow> u64 list \<Rightarrow> string" where
  "node_counter_js tx ns =
     (let tot = foldl (+) 0 ns; tmax = foldl (\<lambda>m n. if m < n then n else m) 0 ns; c = (if tx then CHR ''t'' else CHR ''r'')
      in (if tx then '','' @ nl @ '' t'' else '' r'') @ ''x: ['' @ joined '','' (map (\<lambda>n. show_nat (unat n)) ns) @ ''],'' @ nl @
         '' '' @ [c] @ ''x_avg: '' @ show_nat (unat (tot div of_nat MAX_NSPEED)) @ '','' @ nl @
         '' '' @ [c] @ ''x_max: '' @ show_nat (unat tmax) @ '','' @ nl @
         '' '' @ [c] @ ''x_total: '' @ show_nat (unat tot))"

text \<open>The accumulator of the traversal: the text and the number of entries so far.\<close>

definition Node_print_speedjs :: "node \<Rightarrow> (string \<times> nat) option \<Rightarrow> (string \<times> nat) option" where
  "Node_print_speedjs nd acc =
     Option.bind acc (\<lambda>(out, kn).
       if speed_empty nd then Some (out, kn)
       else map_option
         (\<lambda>ring. (out @ (if kn \<noteq> 0 then '' },'' @ nl else []) @ CHR 39 # ipaddr nd @ CHR 39 # '': {'' @ nl @
            node_counter_js False (map fst ring) @ node_counter_js True (map snd ring), kn + 1))
         (ring_read (node_speed nd) MAX_NSPEED (node_tail nd)))"

definition c_save_speedjs :: "cstats \<Rightarrow> int \<Rightarrow> string option" where
  "c_save_speedjs st nxt =
     map_option
       (\<lambda>(out, kn). nl @ ''speed_history = {'' @ nl @ out @ (if kn \<noteq> 0 then ''},'' @ nl else []) @
          ''_next: '' @ show_int (if 1 \<le> nxt then nxt else 1) @ ''};'' @ nl)
       (forward_apply Node_print_speedjs (c_tree st) (Some ([], 0)))"

definition node_datajs_entry :: "node \<Rightarrow> data_t \<Rightarrow> string" where
  "node_datajs_entry nd d =
     ''[0x'' @ show_hex (unat (xtime d)) @ CHR '','' # CHR 39 # ipaddr nd @ CHR 39 # CHR '','' #
     show_nat (unat (fst (counter d) div 1024)) @ '','' @ show_nat (unat (snd (counter d) div 1024)) @ '']''"

definition Node_print_datajs :: "bool \<Rightarrow> node \<Rightarrow> string list option \<Rightarrow> string list option" where
  "Node_print_datajs is_daily nd acc =
     Option.bind acc (\<lambda>out.
       map_option (\<lambda>ds. out @ map (node_datajs_entry nd) (used ds))
         (if is_daily then ring_read (node_daily nd) MAX_NDAILY (node_dailyp nd)
          else ring_read (node_monthly nd) NODE_NMONTHLY (node_monthlyp nd)))"

definition c_save_datajs :: "bool \<Rightarrow> cstats \<Rightarrow> string option" where
  "c_save_datajs is_daily st =
     map_option
       (\<lambda>es. nl @ (if is_daily then ''daily'' else ''monthly'') @ ''_history = ['' @ nl @ joined '','' es @ nl @ ''];'' @ nl)
       (forward_apply (Node_print_datajs is_daily) (c_tree st) (Some []))"

subsection \<open>A whole sample\<close>

definition c_calc :: "(node list \<Rightarrow> u8 list) \<Rightarrow> layout \<Rightarrow> (string \<Rightarrow> bool) \<Rightarrow> attempt list \<Rightarrow> world \<Rightarrow> string list list \<Rightarrow>
    cstats \<times> rstore \<Rightarrow> (cstats \<times> rstore) option" where
  "c_calc gz y ok as w bridges s =
     map_option
       (\<lambda>st. (st, if save_utime (snd s) \<le> c_uptime st
                  then (c_save gz y ok as st False (snd s))\<lparr>save_utime := c_uptime st + get_stime (w_nvram w) ''cstats_stime''\<rparr>
                  else snd s))
       (account_all w bridges (fst s))"

definition c_load_new :: "(node list \<Rightarrow> u8 list) \<Rightarrow> (u8 list \<Rightarrow> node list \<times> bool) \<Rightarrow> layout \<Rightarrow> (string \<Rightarrow> bool) \<Rightarrow> attempt list \<Rightarrow>
    cstats \<times> rstore \<Rightarrow> (cstats \<times> rstore) option" where
  "c_load_new gz nodes_of y ok as s =
     (let hgz = c_history_fn @ ''.gz.new''; r = snd s
      in map_option
           (\<lambda>(st, n). let r = (if 0 \<le> n then c_save gz y ok as st False r else r)
                      in (st, r\<lparr>files := (files r)(hgz := None)\<rparr>))
           (load_history_to_tree nodes_of (nvm r) (files r) hgz (fst s)))"

definition c_save_histjs :: "cstats \<Rightarrow> string option" where
  "c_save_histjs st =
     (case c_save_datajs True st of None \<Rightarrow> None | Some d \<Rightarrow> map_option ((@) d) (c_save_datajs False st))"

definition c_load_fn :: string where "c_load_fn = ''/var/tmp/cstats-load''"

definition c_main_wake :: "(node list \<Rightarrow> u8 list) \<Rightarrow> (u8 list \<Rightarrow> node list \<times> bool) \<Rightarrow> layout \<Rightarrow> (string \<Rightarrow> bool) \<Rightarrow> attempt list \<Rightarrow>
    int \<Rightarrow> int \<Rightarrow> flags \<Rightarrow> cstats \<times> rstore \<Rightarrow> ((cstats \<times> rstore) \<times> flags \<times> bool \<times> page) option" where
  "c_main_wake gz nodes_of y ok as z up f s =
     Option.bind
       (if gothup f then
          if files (snd s) c_load_fn \<noteq> None then
            c_load_new gz nodes_of y ok as (fst s, (snd s)\<lparr>files := (files (snd s))(c_load_fn := None)\<rparr>)
          else Some (fst s, c_save gz y ok as (fst s) False (snd s))
        else Some s)
       (\<lambda>s. let f = f\<lparr>gothup := False\<rparr>
             in if gotterm f then
                  map_option
                    (\<lambda>st. ((st, c_save gz y ok as (fst s) (\<not> nvram_match (nvm (snd s)) ''cstats_sshut'' ''1'') (snd s)), f, True, No_page))
                    (free_all_nodes (fst s))
                else
                  let pg = (if gotuser f = 1 then Speed_page (c_save_speedjs (fst s) (z - up))
                            else if gotuser f = 2 then History_page (c_save_histjs (fst s))
                            else No_page);
                      f = (if gotuser f = 1 \<or> gotuser f = 2 then f\<lparr>gotuser := 0\<rparr> else f)
                  in Some (((fst s)\<lparr>c_uptime := up\<rparr>, snd s), f, False, pg))"

subsection \<open>Addresses as keys\<close>

definition ckey :: "nat \<Rightarrow> string \<Rightarrow> int list" where
  "ckey n s = map of_char (takeWhile (\<lambda>c. c \<noteq> NUL) (take n s))"

definition node_key :: "node \<Rightarrow> int list" where
  "node_key nd = ckey INET_ADDRSTRLEN (ipaddr nd)"

lemma ckey_Suc: "ckey (Suc n) s = (if hd0 s = NUL then [] else of_char (hd0 s) # ckey n (tl s))"
  by (cases s) (simp_all add: ckey_def)

lemma of_char_pos: "c \<noteq> NUL \<Longrightarrow> 0 < (of_char c :: int)"
  using of_nat_0_le_iff [of "of_char c", where ?'a = int] of_char_eq_0 [of c]
  by (simp add: of_nat_of_char order.order_iff_strict del: of_char_eq_0)

lemma strncmp_ckey:
  "(strncmp a b n < 0 \<longleftrightarrow> ckey n a < ckey n b) \<and> (strncmp a b n = 0 \<longleftrightarrow> ckey n a = ckey n b)"
proof (induction n arbitrary: a b)
  case 0
  then show ?case by (simp add: ckey_def)
next
  case (Suc n)
  let ?x = "of_char (hd0 a) :: int" and ?y = "of_char (hd0 b) :: int"
  have s: "strncmp a b (Suc n) = (if ?x \<noteq> ?y then ?x - ?y else if ?x = 0 then 0 else strncmp (tl a) (tl b) n)"
    by (simp only: strncmp.simps Let_def)
  consider "hd0 a = NUL" "hd0 b = NUL" | "hd0 a = NUL" "hd0 b \<noteq> NUL" | "hd0 a \<noteq> NUL" "hd0 b = NUL"
    | "hd0 a \<noteq> NUL" "hd0 b \<noteq> NUL"
    by blast
  then show ?case
  proof cases
    case 1
    then show ?thesis by (simp add: s ckey_Suc del: strncmp.simps)
  next
    case 2
    then show ?thesis using of_char_pos [of "hd0 b"] by (simp add: s ckey_Suc del: strncmp.simps)
  next
    case 3
    then show ?thesis using of_char_pos [of "hd0 a"] by (simp add: s ckey_Suc del: strncmp.simps)
  next
    case 4
    then show ?thesis using Suc.IH [of "tl a" "tl b"] by (simp add: s ckey_Suc del: strncmp.simps)
  qed
qed

interpretation nodes: key_compare Node_compare node_key
  by unfold_locales (simp_all add: Node_compare_def node_key_def strncmp_ckey)

abbreviation node_lookup :: "node avl \<Rightarrow> int list \<Rightarrow> node option" where
  "node_lookup \<equiv> tree_lookup node_key"

definition ipkey :: "string \<Rightarrow> int list" where
  "ipkey ip = ckey INET_ADDRSTRLEN ip"

lemma ckey_take [simp]: "ckey n (take n s) = ckey n s"
  by (simp add: ckey_def)

lemma node_key_test [simp]: "node_key (nd\<lparr>ipaddr := take INET_ADDRSTRLEN ip\<rparr>) = ipkey ip" "node_key (blank_node ip) = ipkey ip"
  by (simp_all add: node_key_def ipkey_def blank_node_def)

subsection \<open>The invariant\<close>

definition node_ok :: "node \<Rightarrow> bool" where
  "node_ok nd \<longleftrightarrow> ring_ok MAX_NDAILY (node_daily nd, node_dailyp nd) \<and> ring_ok NODE_NMONTHLY (node_monthly nd, node_monthlyp nd) \<and>
     length (node_speed nd) = MAX_NSPEED \<and> 0 \<le> node_tail nd \<and> node_tail nd < int MAX_NSPEED"

definition cst_ok :: "cstats \<Rightarrow> bool" where
  "cst_ok st \<longleftrightarrow> tree_ok node_key (c_tree st) \<and> node_count st = int (length (inorder (c_tree st))) \<and>
     (\<forall>nd \<in> set (inorder (c_tree st)). node_ok nd)"

lemma find_node_lookup: "cst_ok st \<Longrightarrow> find_node ip st = node_lookup (c_tree st) (ipkey ip)"
  by (simp add: find_node_def cst_ok_def nodes.tree_find_lookup)

lemma blank_node_ok: "node_ok (blank_node ip)"
  by (simp add: node_ok_def blank_node_def ring_ok_cleared MAX_NDAILY_def NODE_NMONTHLY_def MAX_NSPEED_def)

lemma lookup_in_inorder: "node_lookup t k = Some nd \<Longrightarrow> nd \<in> set (inorder t) \<and> node_key nd = k"
  by (auto simp: tree_lookup_def find_Some_iff)

lemma inorder_lookup:
  assumes "tree_ok node_key t" "nd \<in> set (inorder t)"
  shows "node_lookup t (node_key nd) = Some nd"
proof -
  have "sorted_wrt (<) (map node_key (inorder t))"
    using assms(1) by (simp add: tree_ok_def)
  then have d: "distinct (map node_key (inorder t))"
    using strict_sorted_iff by blast
  obtain nd' where "node_lookup t (node_key nd) = Some nd'"
    using assms(2) by (cases "node_lookup t (node_key nd)") (auto simp: tree_lookup_def find_None_iff)
  with lookup_in_inorder [OF this] d assms(2) show ?thesis
    by (auto simp: distinct_map dest: inj_onD)
qed

text \<open>Well-formedness of the nodes, through the map.\<close>

lemma cst_ok_alt:
  "cst_ok st \<longleftrightarrow> tree_ok node_key (c_tree st) \<and> node_count st = int (length (inorder (c_tree st))) \<and>
     (\<forall>k nd. node_lookup (c_tree st) k = Some nd \<longrightarrow> node_ok nd)"
  using inorder_lookup lookup_in_inorder unfolding cst_ok_def by metis

lemma insert_new_ok:
  assumes "cst_ok st" "node_lookup (c_tree st) (ipkey ip) = None" "node_count st < MAX_NODES"
  shows "\<exists>t. insert_new ip st = Some (st\<lparr>c_tree := t, node_count := node_count st + 1\<rparr>) \<and>
    cst_ok (st\<lparr>c_tree := t, node_count := node_count st + 1\<rparr>) \<and>
    node_lookup t = (node_lookup (c_tree st))(ipkey ip \<mapsto> blank_node ip)"
proof -
  have tok: "tree_ok node_key (c_tree st)"
    using assms(1) by (simp add: cst_ok_def)
  obtain t where t: "tree_insert Node_compare (blank_node ip) (c_tree st) = Some t" "tree_ok node_key t"
      "node_lookup t = (node_lookup (c_tree st))(ipkey ip \<mapsto> blank_node ip)" "length (inorder t) = Suc (length (inorder (c_tree st)))"
    using nodes.tree_insert_lookup [OF tok, of "blank_node ip"] assms(2) by auto
  have "insert_new ip st = Some (st\<lparr>c_tree := t, node_count := node_count st + 1\<rparr>)"
    using t(1) assms(3) by (simp add: insert_new_def Node_new_def)
  moreover have "cst_ok (st\<lparr>c_tree := t, node_count := node_count st + 1\<rparr>)"
    using assms(1) t blank_node_ok by (auto simp: cst_ok_alt)
  ultimately show ?thesis
    using t(3) by blast
qed

lemma write_node_ok:
  assumes "cst_ok st" "\<And>nd. node_key nd = ipkey ip \<Longrightarrow> node_key (f nd) = ipkey ip"
    "\<And>nd. node_lookup (c_tree st) (ipkey ip) = Some nd \<Longrightarrow> node_ok (f nd)"
  shows "cst_ok (write_node ip f st)"
    "node_lookup (c_tree (write_node ip f st)) =
       (node_lookup (c_tree st))(ipkey ip := map_option f (node_lookup (c_tree st) (ipkey ip)))"
    "node_count (write_node ip f st) = node_count st" "c_uptime (write_node ip f st) = c_uptime st"
proof -
  let ?e = "(blank_node [])\<lparr>ipaddr := take INET_ADDRSTRLEN ip\<rparr>"
  have tok: "tree_ok node_key (c_tree st)"
    using assms(1) by (simp add: cst_ok_def)
  have f: "node_key x = node_key ?e \<Longrightarrow> node_key (f x) = node_key x" for x
    using assms(2) [of x] by simp
  note m = nodes.tree_modify_lookup [OF tok f]
  show l: "node_lookup (c_tree (write_node ip f st)) =
      (node_lookup (c_tree st))(ipkey ip := map_option f (node_lookup (c_tree st) (ipkey ip)))"
    using m(2) by (simp add: write_node_def)
  have "length (inorder (tree_modify Node_compare ?e f (c_tree st))) = length (inorder (c_tree st))"
    using nodes.tree_modify_inorder [of "c_tree st" ?e f] tok by (simp add: tree_ok_def)
  then show "cst_ok (write_node ip f st)"
    using assms(1,3) m(1) l unfolding cst_ok_alt by (auto simp: write_node_def split: if_splits)
qed (simp_all add: write_node_def)

lemma filter_key_one:
  "distinct (map f xs) \<Longrightarrow> \<exists>x \<in> set xs. f x = k \<Longrightarrow> length (filter (\<lambda>x. f x = k) xs) = 1"
proof (induction xs)
  case (Cons x xs)
  show ?case
  proof (cases "f x = k")
    case True
    with Cons.prems(1) have "k \<notin> f ` set xs"
      by auto
    then have "filter (\<lambda>x. f x = k) xs = []"
      by (auto simp: filter_empty_conv)
    with True show ?thesis by simp
  next
    case False
    with Cons show ?thesis by auto
  qed
qed simp

lemma remove_node_ok:
  assumes "cst_ok st" "node_lookup (c_tree st) (ipkey ip) \<noteq> None"
  shows "\<exists>t. remove_node ip st = Some (st\<lparr>c_tree := t, node_count := node_count st - 1\<rparr>) \<and>
    cst_ok (st\<lparr>c_tree := t, node_count := node_count st - 1\<rparr>) \<and>
    node_lookup t = (node_lookup (c_tree st))(ipkey ip := None)"
proof -
  let ?e = "(blank_node [])\<lparr>ipaddr := take INET_ADDRSTRLEN ip\<rparr>"
  have tok: "tree_ok node_key (c_tree st)"
    using assms(1) by (simp add: cst_ok_def)
  obtain t where t: "tree_remove Node_compare ?e (c_tree st) = Some t" "tree_ok node_key t"
      "node_lookup t = (node_lookup (c_tree st))(ipkey ip := None)"
      "inorder t = filter (\<lambda>x. node_key x \<noteq> ipkey ip) (inorder (c_tree st))"
    using nodes.tree_remove_lookup [OF tok, of ?e] by auto
  obtain nd where nd: "nd \<in> set (inorder (c_tree st))" "node_key nd = ipkey ip"
    using assms(2) lookup_in_inorder by blast
  have "sorted_wrt (<) (map node_key (inorder (c_tree st)))"
    using tok by (simp add: tree_ok_def)
  then have d: "distinct (map node_key (inorder (c_tree st)))"
    using strict_sorted_iff by blast
  then have "length (filter (\<lambda>x. node_key x = ipkey ip) (inorder (c_tree st))) = 1"
    using nd by (intro filter_key_one) auto
  then have "int (length (inorder t)) = int (length (inorder (c_tree st))) - 1"
    using t(4) sum_length_filter_compl [of "\<lambda>x. node_key x = ipkey ip" "inorder (c_tree st)"] by simp
  then have "cst_ok (st\<lparr>c_tree := t, node_count := node_count st - 1\<rparr>)"
    using assms(1) t(2,3) by (auto simp: cst_ok_alt split: if_splits)
  moreover have "remove_node ip st = Some (st\<lparr>c_tree := t, node_count := node_count st - 1\<rparr>)"
    using t(1) by (simp add: remove_node_def)
  ultimately show ?thesis
    using t(3) by blast
qed

subsection \<open>One line as an update of a map\<close>

lemma node_sample_ok:
  assumes "node_ok nd"
  shows "\<exists>nd' d. node_sample fresh up cnt nd = Some (nd', d) \<and> node_ok nd' \<and> ipaddr nd' = ipaddr nd"
proof -
  let ?n = "(up - node_utime nd) div INTERVAL"
  define d where "d = (counter_diff fresh (fst cnt) (fst (node_last nd)), counter_diff fresh (snd cnt) (snd (node_last nd)))"
  obtain ring t where r: "push_speed (nat ?n) (fst d div of_int ?n, snd d div of_int ?n) (node_speed nd) (node_tail nd) = Some (ring, t)"
      "length ring = MAX_NSPEED" "0 \<le> t" "t < int MAX_NSPEED"
    using push_speed_ok [of "node_speed nd" "node_tail nd"] assms unfolding node_ok_def by blast
  show ?thesis
  proof (cases "node_sync nd \<noteq> 0 \<or> up - node_utime nd < INTERVAL")
    case True
    with assms show ?thesis by (auto simp: node_sample_def Let_def node_ok_def)
  next
    case False
    with r assms show ?thesis by (simp add: node_sample_def Let_def node_ok_def flip: d_def)
  qed
qed

lemma node_history_ok:
  assumes "node_ok nd" "\<forall>t. tm_ok (w_localtime w t)"
  shows "\<exists>nd'. node_history w c nd = Some nd' \<and> node_ok nd' \<and> ipaddr nd' = ipaddr nd"
proof -
  define x where "x = day_key (w_localtime w (w_now w))"
  define y where "y = month_key (w_localtime w (month_time (w_nvram w) ''cstats_offset'' (w_now w)))"
  have k: "x \<noteq> 0" "y \<noteq> 0"
    using assms(2) key_nonzero unfolding x_def y_def by blast+
  obtain d p where d: "bump (node_daily nd) (node_dailyp nd) x c = Some (d, p)" "ring_ok MAX_NDAILY (d, p)"
    using bump_window [OF _ k(1), of MAX_NDAILY "node_daily nd" "node_dailyp nd" c] assms(1) by (auto simp: node_ok_def)
  obtain m q where m: "bump (node_monthly nd) (node_monthlyp nd) y c = Some (m, q)" "ring_ok NODE_NMONTHLY (m, q)"
    using bump_window [OF _ k(2), of NODE_NMONTHLY "node_monthly nd" "node_monthlyp nd" c] assms(1) by (auto simp: node_ok_def)
  have "node_history w c nd = Some (nd\<lparr>node_daily := d, node_dailyp := p, node_monthly := m, node_monthlyp := q\<rparr>)"
    using d(1) m(1) by (simp add: node_history_def Let_def flip: x_def y_def)
  with d(2) m(2) assms(1) show ?thesis
    by (simp add: node_ok_def)
qed

lemma node_step_ok:
  assumes "node_ok nd" "\<forall>t. tm_ok (w_localtime w t)"
  shows "\<exists>nd'. node_step w up cnt nd = Some nd' \<and> node_ok nd' \<and> ipaddr nd' = ipaddr nd"
proof -
  obtain nd1 d where s: "node_sample (wan_fresh w ''wan'') up cnt nd = Some (nd1, d)" "node_ok nd1" "ipaddr nd1 = ipaddr nd"
    using node_sample_ok [OF assms(1)] by blast
  show ?thesis
  proof (cases d)
    case None
    with s show ?thesis by (simp add: node_step_def)
  next
    case (Some c)
    with s node_history_ok [OF s(2) assms(2), of c] show ?thesis by (auto simp: node_step_def)
  qed
qed

text \<open>
  The table as a map from addresses to nodes, and what one line does to it: known addresses are
  sampled; an unknown one with traffic is entered if all or this address are wanted.
\<close>

definition account_map :: "world \<Rightarrow> string \<Rightarrow> string \<Rightarrow> int \<Rightarrow> string \<Rightarrow> u64 \<Rightarrow> u64 \<Rightarrow>
    (int list \<Rightarrow> node option) \<Rightarrow> int list \<Rightarrow> node option" where
  "account_map w exclude incl up ip rx tx m =
     (let wanted = nvram_get_int (w_nvram w) ''cstats_all'' \<noteq> 0 \<or> find_word incl ip \<noteq> None
      in if find_word exclude ip \<noteq> None then m
         else case m (ipkey ip) of
           Some nd \<Rightarrow> m(ipkey ip := node_step w up (tx, rx) nd)
         | None \<Rightarrow>
             if \<not> (tx < 1 \<and> rx < 1) \<and> wanted
             then m(ipkey ip := node_step w up (tx, rx) ((blank_node ip)\<lparr>node_sync := 1, node_utime := up\<rparr>))
             else m)"

definition step_here :: "world \<Rightarrow> string \<Rightarrow> counters \<Rightarrow> cstats \<Rightarrow> cstats option" where
  "step_here w ip cnt st =
     (case find_node ip st of
        None \<Rightarrow> Some st
      | Some nd \<Rightarrow> map_option (\<lambda>nd'. write_node ip (\<lambda>_. nd') st) (node_step w (c_uptime st) cnt nd))"

lemma step_here_ok:
  assumes "cst_ok st" "\<forall>t. tm_ok (w_localtime w t)" "node_lookup (c_tree st) (ipkey ip) = Some nd"
  shows "\<exists>st'. step_here w ip cnt st = Some st' \<and> cst_ok st' \<and> c_uptime st' = c_uptime st \<and> node_count st' = node_count st \<and>
    node_lookup (c_tree st') = (node_lookup (c_tree st))(ipkey ip := node_step w (c_uptime st) cnt nd)"
proof -
  have nd: "node_ok nd" "node_key nd = ipkey ip"
    using assms(1,3) lookup_in_inorder by (auto simp: cst_ok_alt)
  obtain nd' where nd': "node_step w (c_uptime st) cnt nd = Some nd'" "node_ok nd'" "ipaddr nd' = ipaddr nd"
    using node_step_ok [OF nd(1) assms(2)] by blast
  have k: "node_key nd' = ipkey ip"
    using nd'(3) nd(2) by (simp add: node_key_def)
  note wr = write_node_ok [OF assms(1), of ip "\<lambda>_. nd'"]
  have "step_here w ip cnt st = Some (write_node ip (\<lambda>_. nd') st)"
    using assms(3) nd'(1) find_node_lookup [OF assms(1)] by (simp add: step_here_def)
  then show ?thesis
    using wr k nd'(1,2) assms(3) by simp
qed

lemma account_ok:
  assumes "cst_ok st" "\<forall>t. tm_ok (w_localtime w t)" "node_count st < MAX_NODES \<or> node_lookup (c_tree st) (ipkey ip) \<noteq> None"
  shows "\<exists>st'. account w exclude incl ip rx tx st = Some st' \<and> cst_ok st' \<and>
    node_lookup (c_tree st') = account_map w exclude incl (c_uptime st) ip rx tx (node_lookup (c_tree st))"
proof -
  let ?m = "node_lookup (c_tree st)"
  let ?wanted = "nvram_get_int (w_nvram w) ''cstats_all'' \<noteq> 0 \<or> find_word incl ip \<noteq> None"
  have f: "find_node ip st = ?m (ipkey ip)"
    using assms(1) by (rule find_node_lookup)
  consider (skip) "find_word exclude ip \<noteq> None \<or> (?m (ipkey ip) = None \<and> (tx < 1 \<and> rx < 1 \<or> \<not> ?wanted))"
    | (old) nd where "find_word exclude ip = None" "?m (ipkey ip) = Some nd"
    | (new) "find_word exclude ip = None" "?m (ipkey ip) = None" "\<not> (tx < 1 \<and> rx < 1)" ?wanted
    by fastforce
  then show ?thesis
  proof cases
    case skip
    have "account w exclude incl ip rx tx st = Some st" "account_map w exclude incl (c_uptime st) ip rx tx ?m = ?m"
      using skip f by (auto simp: account_def account_map_def Let_def split: option.splits)
    with assms(1) show ?thesis by simp
  next
    case old
    have "account w exclude incl ip rx tx st = step_here w ip (tx, rx) st"
      using old f by (simp add: account_def step_here_def Let_def)
    with step_here_ok [OF assms(1,2) old(2), of "(tx, rx)"] old show ?thesis
      by (auto simp: account_map_def)
  next
    case new
    obtain t where t: "insert_new ip st = Some (st\<lparr>c_tree := t, node_count := node_count st + 1\<rparr>)"
        "cst_ok (st\<lparr>c_tree := t, node_count := node_count st + 1\<rparr>)" "node_lookup t = ?m(ipkey ip \<mapsto> blank_node ip)"
      using insert_new_ok [OF assms(1) new(2)] assms(3) new(2) by auto
    let ?st1 = "st\<lparr>c_tree := t, node_count := node_count st + 1\<rparr>"
    let ?f = "\<lambda>nd. nd\<lparr>node_sync := 1, node_utime := c_uptime st\<rparr>"
    have wf: "node_key (?f nd) = node_key nd" "node_ok (?f nd) = node_ok nd" for nd
      by (simp_all add: node_key_def node_ok_def)
    have w: "cst_ok (write_node ip ?f ?st1)"
        "node_lookup (c_tree (write_node ip ?f ?st1)) = (node_lookup t)(ipkey ip := map_option ?f (node_lookup t (ipkey ip)))"
        "c_uptime (write_node ip ?f ?st1) = c_uptime st"
      using write_node_ok [OF t(2), of ip ?f] t(2) wf by (simp_all add: cst_ok_alt)
    have l: "node_lookup (c_tree (write_node ip ?f ?st1)) = ?m(ipkey ip \<mapsto> ?f (blank_node ip))"
      using w(2) t(3) by simp
    then have "node_lookup (c_tree (write_node ip ?f ?st1)) (ipkey ip) = Some (?f (blank_node ip))"
      by simp
    from step_here_ok [OF w(1) assms(2) this, of "(tx, rx)"] obtain st' where st':
        "step_here w ip (tx, rx) (write_node ip ?f ?st1) = Some st'" "cst_ok st'"
        "node_lookup (c_tree st') = ?m(ipkey ip := node_step w (c_uptime st) (tx, rx) (?f (blank_node ip)))"
      using w(3) l by auto
    have "account w exclude incl ip rx tx st = step_here w ip (tx, rx) (write_node ip ?f ?st1)"
      using new f t(1) by (auto simp: account_def step_here_def Let_def)
    moreover have "account_map w exclude incl (c_uptime st) ip rx tx ?m =
        ?m(ipkey ip := node_step w (c_uptime st) (tx, rx) (?f (blank_node ip)))"
      using new by (auto simp: account_map_def Let_def)
    ultimately show ?thesis
      using st' by simp
  qed
qed

subsection \<open>Exclusion, housekeeping, freeing\<close>

lemma drop_excluded_ok:
  "cst_ok st \<Longrightarrow> \<exists>st'. drop_excluded bs st = Some st' \<and> cst_ok st' \<and> c_uptime st' = c_uptime st \<and>
     node_lookup (c_tree st') = (\<lambda>k. if k \<in> ipkey ` set bs then None else node_lookup (c_tree st) k)"
proof (induction bs arbitrary: st)
  case Nil
  then show ?case by simp
next
  case (Cons b bs)
  show ?case
  proof (cases "node_lookup (c_tree st) (ipkey b)")
    case None
    obtain st' where st': "drop_excluded bs st = Some st'" "cst_ok st'" "c_uptime st' = c_uptime st"
        "node_lookup (c_tree st') = (\<lambda>k. if k \<in> ipkey ` set bs then None else node_lookup (c_tree st) k)"
      using Cons by blast
    have "node_lookup (c_tree st') = (\<lambda>k. if k \<in> ipkey ` set (b # bs) then None else node_lookup (c_tree st) k)"
      using st'(4) None by auto
    with st' None show ?thesis
      by (simp add: find_node_lookup [OF Cons.prems])
  next
    case (Some nd)
    obtain t where t: "remove_node b st = Some (st\<lparr>c_tree := t, node_count := node_count st - 1\<rparr>)"
        "cst_ok (st\<lparr>c_tree := t, node_count := node_count st - 1\<rparr>)" "node_lookup t = (node_lookup (c_tree st))(ipkey b := None)"
      using remove_node_ok [OF Cons.prems, of b] Some by auto
    define st2 where "st2 = st\<lparr>c_tree := t, node_count := node_count st - 1\<rparr>"
    have st2: "c_tree st2 = t" "c_uptime st2 = c_uptime st"
      by (simp_all add: st2_def)
    obtain st' where st': "drop_excluded bs st2 = Some st'" "cst_ok st'" "c_uptime st' = c_uptime st2"
        "node_lookup (c_tree st') = (\<lambda>k. if k \<in> ipkey ` set bs then None else node_lookup (c_tree st2) k)"
      using Cons.IH [OF t(2)] unfolding st2_def by blast
    have "node_lookup (c_tree st') = (\<lambda>k. if k \<in> ipkey ` set (b # bs) then None else node_lookup (c_tree st) k)"
      using st'(4) t(3) st2(1) by auto
    moreover have "drop_excluded (b # bs) st = Some st'"
      using st'(1) t(1) Some by (simp add: find_node_lookup [OF Cons.prems] st2_def)
    ultimately show ?thesis
      using st'(2,3) st2(2) by simp
  qed
qed

lemma housekeeping_ok:
  assumes "cst_ok st"
  shows "cst_ok (st\<lparr>c_tree := tree_map Node_housekeeping (c_tree st)\<rparr>)"
proof -
  have "node_key (Node_housekeeping nd) = node_key nd" "node_ok (Node_housekeeping nd) = node_ok nd" for nd
    by (simp_all add: Node_housekeeping_def node_key_def node_ok_def)
  with assms show ?thesis
    by (simp add: cst_ok_def tree_map_ok)
qed

lemma free_loop_ends: "tree_ok node_key t \<Longrightarrow> free_loop t = Some Nul"
proof (induction "length (inorder t)" arbitrary: t rule: less_induct)
  case less
  show ?case
  proof (cases t)
    case Nul
    then show ?thesis by (simp add: free_loop.simps)
  next
    case (Nod l a h r)
    obtain t' where t': "tree_remove Node_compare a t = Some t'" "tree_ok node_key t'"
        "inorder t' = filter (\<lambda>x. node_key x \<noteq> node_key a) (inorder t)"
      using nodes.tree_remove_lookup [OF less.prems, of a] by blast
    have "length (inorder t') < length (inorder t)"
      unfolding t'(3) using Nod by (intro length_filter_less [of a]) simp_all
    then have "free_loop t' = Some Nul"
      using less.hyps t'(2) by blast
    with t'(1) Nod show ?thesis
      by (simp add: free_loop.simps [of "Nod l a h r"])
  qed
qed

subsection \<open>Saving and loading the nodes\<close>

lemma saved_nodes_inorder: "saved_nodes st = inorder (c_tree st)"
  by (simp add: saved_nodes_def forward_apply_fold fold_Cons_rev)

text \<open>A node as it comes out of a file.\<close>

definition loaded :: "int \<Rightarrow> node \<Rightarrow> node" where
  "loaded up nd =
     (if up < node_utime nd then nd\<lparr>node_utime := up, node_sync := 1\<rparr> else nd\<lparr>node_sync := - 1\<rparr>)"

lemma copy_node_blank:
  "length (ipaddr tmp) \<le> INET_ADDRSTRLEN \<Longrightarrow> node_id tmp = NODE_ID \<Longrightarrow> copy_node up tmp (blank_node (ipaddr tmp)) = loaded up tmp"
  by (simp add: copy_node_def loaded_def blank_node_def Let_def)

lemma loaded_simps: "node_key (loaded up nd) = node_key nd" "node_ok (loaded up nd) = node_ok nd"
  by (simp_all add: loaded_def node_key_def node_ok_def)

definition loadable :: "string \<Rightarrow> node \<Rightarrow> bool" where
  "loadable exclude nd \<longleftrightarrow> node_ok nd \<and> node_id nd = NODE_ID \<and> find_word exclude (ipaddr nd) = None \<and>
     length (ipaddr nd) \<le> INET_ADDRSTRLEN"

lemma load_node_new:
  assumes "cst_ok st" "loadable exclude tmp" "node_lookup (c_tree st) (node_key tmp) = None" "node_count st < MAX_NODES"
  shows "\<exists>st'. load_node exclude tmp (st, n) = Some (st', n + 1) \<and> cst_ok st' \<and> c_uptime st' = c_uptime st \<and>
    node_count st' = node_count st + 1 \<and>
    node_lookup (c_tree st') = (node_lookup (c_tree st))(node_key tmp \<mapsto> loaded (c_uptime st) tmp)"
proof -
  let ?ip = "ipaddr tmp" and ?f = "copy_node (c_uptime st) tmp"
  have k: "ipkey ?ip = node_key tmp"
    by (simp add: ipkey_def node_key_def)
  obtain t where t: "insert_new ?ip st = Some (st\<lparr>c_tree := t, node_count := node_count st + 1\<rparr>)"
      "cst_ok (st\<lparr>c_tree := t, node_count := node_count st + 1\<rparr>)" "node_lookup t = (node_lookup (c_tree st))(node_key tmp \<mapsto> blank_node ?ip)"
    using insert_new_ok [OF assms(1), of ?ip] assms(3,4) k by auto
  let ?st1 = "st\<lparr>c_tree := t, node_count := node_count st + 1\<rparr>"
  have f: "node_key nd = ipkey ?ip \<Longrightarrow> node_key (?f nd) = ipkey ?ip" for nd
    by (simp add: copy_node_def node_key_def Let_def)
  have b: "?f (blank_node ?ip) = loaded (c_uptime st) tmp"
    using assms(2) by (intro copy_node_blank) (simp_all add: loadable_def)
  have "node_ok (?f nd)" if "node_lookup (c_tree ?st1) (ipkey ?ip) = Some nd" for nd
    using that t(3) k b assms(2) by (auto simp: loadable_def loaded_simps)
  note wr = write_node_ok [of ?st1 ?ip ?f, OF t(2) f this]
  have fd: "find_node ?ip st = None" "find_node ?ip ?st1 = Some (blank_node ?ip)"
    using find_node_lookup [OF assms(1), of ?ip] find_node_lookup [OF t(2), of ?ip] t(3) k assms(3) by simp_all
  have "load_node exclude tmp (st, n) = Some (write_node ?ip ?f ?st1, n + 1)"
    using assms(2) t(1) fd unfolding load_node_def loadable_def by simp
  moreover have "node_lookup (c_tree (write_node ?ip ?f ?st1)) = (node_lookup (c_tree st))(node_key tmp \<mapsto> loaded (c_uptime st) tmp)"
    using wr(2) t(3) k b by simp
  ultimately show ?thesis
    using wr(1,3,4) by simp
qed

lemma load_nodes_new:
  "cst_ok st \<Longrightarrow> \<forall>nd \<in> set nds. loadable exclude nd \<Longrightarrow> distinct (map node_key nds) \<Longrightarrow>
    \<forall>nd \<in> set nds. node_lookup (c_tree st) (node_key nd) = None \<Longrightarrow> node_count st + int (length nds) \<le> MAX_NODES \<Longrightarrow>
    \<exists>st'. load_nodes exclude nds (st, n) = Some (st', n + int (length nds)) \<and> cst_ok st' \<and>
      node_lookup (c_tree st') = node_lookup (c_tree st) ++ map_of (map (\<lambda>nd. (node_key nd, loaded (c_uptime st) nd)) nds)"
proof (induction nds arbitrary: st n)
  case Nil
  then show ?case by simp
next
  case (Cons tmp nds)
  have "node_count st < MAX_NODES"
    using Cons.prems(5) by simp
  then obtain st1 where s1: "load_node exclude tmp (st, n) = Some (st1, n + 1)" "cst_ok st1" "c_uptime st1 = c_uptime st"
      "node_count st1 = node_count st + 1"
      "node_lookup (c_tree st1) = (node_lookup (c_tree st))(node_key tmp \<mapsto> loaded (c_uptime st) tmp)"
    using load_node_new [OF Cons.prems(1), of exclude tmp n] Cons.prems(2,4) by auto
  have "node_key tmp \<notin> node_key ` set nds"
    using Cons.prems(3) by auto
  then have "\<forall>nd \<in> set nds. node_key nd \<noteq> node_key tmp"
    by (metis imageI)
  then have "\<forall>nd \<in> set nds. node_lookup (c_tree st1) (node_key nd) = None"
    using Cons.prems(4) s1(5) by simp
  then obtain st' where st': "load_nodes exclude nds (st1, n + 1) = Some (st', n + 1 + int (length nds))" "cst_ok st'"
      "node_lookup (c_tree st') = node_lookup (c_tree st1) ++ map_of (map (\<lambda>nd. (node_key nd, loaded (c_uptime st1) nd)) nds)"
    using Cons.IH [of st1 "n + 1"] s1(2,4) Cons.prems(2,3,5) by auto
  have "node_key tmp \<notin> fst ` set (map (\<lambda>nd. (node_key nd, loaded (c_uptime st) nd)) nds)"
    using Cons.prems(3) by (auto simp: image_iff)
  then have "node_lookup (c_tree st') =
      node_lookup (c_tree st) ++ map_of (map (\<lambda>nd. (node_key nd, loaded (c_uptime st) nd)) (tmp # nds))"
    using st'(3) s1(3,5) by (simp add: map_add_upd_left dom_map_of_conv_image_fst image_image)
  moreover have "load_nodes exclude (tmp # nds) (st, n) = Some (st', n + int (length (tmp # nds)))"
    using s1(1) st'(1) by simp
  ultimately show ?case
    using st'(2) by blast
qed

lemma map_of_find: "map_of (map (\<lambda>x. (key x, g x)) xs) k = map_option g (find (\<lambda>x. key x = k) xs)"
  by (induction xs) auto

text \<open>A file that is missing, or ends within a node.\<close>

definition unreadable :: "(u8 list \<Rightarrow> node list \<times> bool) \<Rightarrow> files \<Rightarrow> string \<Rightarrow> bool" where
  "unreadable nodes_of fs fname \<longleftrightarrow> (case fs fname of None \<Rightarrow> True | Some b \<Rightarrow> \<not> snd (nodes_of b))"

lemma load_unreadable:
  "unreadable nodes_of fs fname \<Longrightarrow> load_history_to_tree nodes_of nv fs fname st = Some (st', n) \<Longrightarrow> n = - 1"
  by (auto simp: unreadable_def load_history_to_tree_def split: option.splits prod.splits)

lemma hardway_loop_unreadable:
  "unreadable nodes_of fs fname \<Longrightarrow> node_hardway_loop nodes_of nv fs (fns @ [fname]) s = Some (st', n) \<Longrightarrow> n = - 1"
proof (induction fns arbitrary: s)
  case Nil
  then show ?case by (auto simp: Option.bind_eq_Some_conv dest: load_unreadable)
next
  case (Cons fn fns)
  then show ?case by (auto simp: Option.bind_eq_Some_conv)
qed

lemma hardway_unreadable:
  "unreadable nodes_of fs fname \<Longrightarrow> node_try_hardway nodes_of nv fs fname st = Some (st', n) \<Longrightarrow> n = - 1"
  using hardway_loop_unreadable [of nodes_of fs fname nv "map (bak_name fname) (rev [1..<HI_BACK + 1])"]
  by (simp add: node_try_hardway_def hardway_names_def)

text \<open>Tables of any size, for examples.\<close>

fun filled :: "nat \<Rightarrow> cstats" where
  "filled 0 = \<lparr>c_tree = Nul, node_count = 0, c_uptime = 60\<rparr>"
| "filled (Suc n) = the (insert_new (show_nat n) (filled n))"

lemma find_word_empty: "w \<noteq> [] \<Longrightarrow> find_word [] w = None"
  by (cases w) (simp_all add: find_word_def find_word_loop.simps strstr.simps [of "[]"])

lemma ipkey_show_nat: "i < 10 ^ 16 \<Longrightarrow> ipkey (show_nat i) = map of_char (show_nat i)"
proof -
  assume "i < 10 ^ 16"
  then have "take 16 (show_nat i) = show_nat i"
    using length_show_nat [of i 15] by simp
  moreover have "takeWhile (\<lambda>c. c \<noteq> NUL) (show_nat i) = show_nat i"
    using is_cstr_show_nat [of i] by (intro takeWhile_id) (auto simp: is_cstr_def)
  ultimately show ?thesis
    by (simp only: ipkey_def ckey_def INET_ADDRSTRLEN_def)
qed

lemma ipkey_show_nat_inject: "i < 10 ^ 16 \<Longrightarrow> j < 10 ^ 16 \<Longrightarrow> ipkey (show_nat i) = ipkey (show_nat j) \<longleftrightarrow> i = j"
  by (simp add: ipkey_show_nat inj_map_eq_map [OF inj_of_char])

lemma filled_ok:
  "int n \<le> MAX_NODES \<Longrightarrow> cst_ok (filled n) \<and> node_count (filled n) = int n \<and> c_uptime (filled n) = 60 \<and>
    (\<forall>k nd. node_lookup (c_tree (filled n)) k = Some nd \<longrightarrow> (\<exists>i < n. k = ipkey (show_nat i) \<and> nd = blank_node (show_nat i)))"
proof (induction n)
  case 0
  then show ?case by (simp add: cst_ok_def tree_ok_def tree_lookup_def)
next
  case (Suc n)
  then have ih: "cst_ok (filled n)" "node_count (filled n) = int n" "c_uptime (filled n) = 60"
      "\<forall>k nd. node_lookup (c_tree (filled n)) k = Some nd \<longrightarrow> (\<exists>i < n. k = ipkey (show_nat i) \<and> nd = blank_node (show_nat i))"
    by simp_all
  have n: "n < 10 ^ 16"
    using Suc.prems by (simp add: MAX_NODES_def)
  have "node_lookup (c_tree (filled n)) (ipkey (show_nat n)) = None"
  proof (rule ccontr)
    assume "node_lookup (c_tree (filled n)) (ipkey (show_nat n)) \<noteq> None"
    then obtain i where "i < n" "ipkey (show_nat n) = ipkey (show_nat i)"
      using ih(4) by blast
    with n show False
      by (simp add: ipkey_show_nat_inject)
  qed
  then obtain t where t: "insert_new (show_nat n) (filled n) = Some ((filled n)\<lparr>c_tree := t, node_count := node_count (filled n) + 1\<rparr>)"
      "cst_ok ((filled n)\<lparr>c_tree := t, node_count := node_count (filled n) + 1\<rparr>)"
      "node_lookup t = (node_lookup (c_tree (filled n)))(ipkey (show_nat n) \<mapsto> blank_node (show_nat n))"
    using insert_new_ok [OF ih(1), of "show_nat n"] ih(2) Suc.prems by auto
  have "\<exists>i < Suc n. k = ipkey (show_nat i) \<and> nd = blank_node (show_nat i)" if "node_lookup t k = Some nd" for k nd
  proof (cases "k = ipkey (show_nat n)")
    case True
    with that t(3) show ?thesis by auto
  next
    case False
    then have "node_lookup (c_tree (filled n)) k = Some nd"
      using that t(3) by simp
    then show ?thesis
      using ih(4) less_SucI by blast
  qed
  with t(1,2) ih(2,3) show ?case
    by simp
qed

subsection \<open>Properties\<close>

text \<open>C17: the tree of \<^verbatim>\<open>cstats\<close> implements a table of addresses.  While there is room for a new node, or the
  address is known, processing the counters of an address never follows a null pointer or leaves an
  array, keeps the tree well formed, and changes the table, read as a map from addresses to nodes,
  only at this address: known addresses are sampled, unknown ones with traffic are entered if they are
  wanted, excluded ones are left alone.\<close>

theorem account_refines_map:
  assumes "cst_ok st" "\<forall>t. tm_ok (w_localtime w t)" "node_count st < MAX_NODES \<or> node_lookup (c_tree st) (ipkey ip) \<noteq> None"
  shows "\<exists>st'. account w exclude incl ip rx tx st = Some st' \<and> cst_ok st' \<and>
    node_lookup (c_tree st') = account_map w exclude incl (c_uptime st) ip rx tx (node_lookup (c_tree st))"
  using account_ok [OF assms] .

theorem account_refines_map_witness:
  "\<exists>st'. account (day_world\<lparr>w_nvram := [''cstats_all'' \<mapsto> ''1'']\<rparr>) [] [] ''10.0.0.2'' 5 7 (filled 0) = Some st' \<and> cst_ok st' \<and>
    node_lookup (c_tree st') = account_map (day_world\<lparr>w_nvram := [''cstats_all'' \<mapsto> ''1'']\<rparr>) [] [] (c_uptime (filled 0)) ''10.0.0.2'' 5 7
      (node_lookup (c_tree (filled 0)))"
  by (rule account_refines_map) (simp_all add: filled_ok MAX_NODES_def day_world_def tm_ok_def del: filled.simps)

text \<open>C30: a full table makes the program crash.  With 2000 nodes \<^verbatim>\<open>Node_new\<close> returns a null pointer for a new
  address, and \<^verbatim>\<open>TREE_INSERT\<close> compares it with the root.\<close>

theorem full_table_crashes:
  assumes "cst_ok st" "node_count st = MAX_NODES" "node_lookup (c_tree st) (ipkey ip) = None"
    "find_word exclude ip = None" "tx \<noteq> 0" "nvram_get_int (w_nvram w) ''cstats_all'' \<noteq> 0"
  shows "account w exclude incl ip rx tx st = None"
proof -
  have "c_tree st \<noteq> Nul"
    using assms(1,2) by (auto simp: cst_ok_def MAX_NODES_def)
  then have "insert_new ip st = None"
    using assms(2) by (simp add: insert_new_def Node_new_def)
  moreover have "find_node ip st = None"
    using assms(1,3) by (simp add: find_node_lookup)
  ultimately show ?thesis
    using assms(4-6) by (simp add: account_def Let_def)
qed

theorem full_table_crashes_witness:
  "account (day_world\<lparr>w_nvram := [''cstats_all'' \<mapsto> ''1'']\<rparr>) [] [] ''x'' 0 1 (filled 2000) = None"
proof (rule full_table_crashes)
  show "node_lookup (c_tree (filled 2000)) (ipkey ''x'') = None"
  proof (rule ccontr)
    assume "node_lookup (c_tree (filled 2000)) (ipkey ''x'') \<noteq> None"
    then obtain i where "i < 2000" "ipkey ''x'' = ipkey (show_nat i)"
      using filled_ok [of 2000] by (auto simp: MAX_NODES_def)
    then have "map of_char (show_nat i) = [of_char CHR ''x'' :: int]"
      by (simp add: ipkey_show_nat) (simp add: ipkey_def ckey_def INET_ADDRSTRLEN_def)
    then have "show_nat i = [CHR ''x'']"
      using inj_map_eq_map [OF inj_of_char, of "show_nat i" "[CHR ''x'']"] by auto
    then show False
      using show_nat_digits [of "CHR ''x''" i] by (simp add: isdigit_def)
  qed
  show "nvram_get_int (w_nvram (day_world\<lparr>w_nvram := [''cstats_all'' \<mapsto> ''1'']\<rparr>)) ''cstats_all'' \<noteq> 0"
    by code_simp
  show "find_word [] ''x'' = None"
    by code_simp
qed (use filled_ok [of 2000] in \<open>simp_all add: MAX_NODES_def\<close>)

text \<open>C21: what was saved is loaded.  The nodes of a well-formed table of the current version, none of them
  excluded, written to a file and read back into an empty table give the same table; nodes are marked
  as not yet synchronised, and time stamps from before a reboot are set to the present.\<close>

theorem nodes_roundtrip:
  assumes "cst_ok st" "\<forall>nd \<in> set (inorder (c_tree st)). loadable (nvram_safe_get nv ''cstats_exclude'') nd"
    "cst_ok st0" "c_tree st0 = Nul" "node_count st \<le> MAX_NODES" "fs fname = Some (gz (saved_nodes st))"
    "nodes_of (gz (saved_nodes st)) = (saved_nodes st, True)"
  shows "\<exists>st'. load_history_to_tree nodes_of nv fs fname st0 = Some (st', node_count st) \<and> cst_ok st' \<and>
    node_lookup (c_tree st') = (\<lambda>k. map_option (loaded (c_uptime st0)) (node_lookup (c_tree st) k))"
proof -
  let ?nds = "inorder (c_tree st)" and ?ex = "nvram_safe_get nv ''cstats_exclude''"
  have d: "distinct (map node_key ?nds)"
    using assms(1) strict_sorted_iff unfolding cst_ok_def tree_ok_def by blast
  have n: "node_count st = int (length ?nds)" "node_count st0 = 0" "node_lookup (c_tree st0) = Map.empty"
    using assms(1,3,4) by (auto simp: cst_ok_def tree_lookup_def fun_eq_iff)
  obtain st' where st': "load_nodes ?ex ?nds (st0, 0) = Some (st', 0 + int (length ?nds))" "cst_ok st'"
      "node_lookup (c_tree st') = node_lookup (c_tree st0) ++ map_of (map (\<lambda>nd. (node_key nd, loaded (c_uptime st0) nd)) ?nds)"
    using load_nodes_new [OF assms(3,2) d, of 0] n assms(5) by auto
  have "node_lookup (c_tree st') = (\<lambda>k. map_option (loaded (c_uptime st0)) (node_lookup (c_tree st) k))"
    using st'(3) n(3) by (simp add: map_of_find tree_lookup_def fun_eq_iff)
  moreover have "load_history_to_tree nodes_of nv fs fname st0 = Some (st', node_count st)"
    using st'(1) assms(6,7) n(1) by (simp add: load_history_to_tree_def saved_nodes_inorder)
  ultimately show ?thesis
    using st'(2) by blast
qed

lemma filled_loadable:
  assumes "int n \<le> MAX_NODES" "nd \<in> set (inorder (c_tree (filled n)))"
  shows "loadable [] nd"
proof -
  have "node_lookup (c_tree (filled n)) (node_key nd) = Some nd"
    using assms filled_ok [OF assms(1)] by (intro inorder_lookup) (simp_all add: cst_ok_def)
  then obtain i where i: "nd = blank_node (show_nat i)"
    using filled_ok [OF assms(1)] by blast
  then have "node_ok nd"
    by (simp add: blank_node_ok)
  then show ?thesis
    using i by (simp add: loadable_def blank_node_def find_word_empty INET_ADDRSTRLEN_def)
qed

theorem nodes_roundtrip_witness:
  "\<exists>st'. load_history_to_tree (\<lambda>_. (saved_nodes (filled 5), True)) Map.empty [''f'' \<mapsto> []] ''f'' (filled 0) = Some (st', node_count (filled 5)) \<and>
    cst_ok st' \<and> node_lookup (c_tree st') = (\<lambda>k. map_option (loaded (c_uptime (filled 0))) (node_lookup (c_tree (filled 5)) k))"
  by (rule nodes_roundtrip [where gz = "\<lambda>_. []"])
    (use filled_ok [of 5] filled_ok [of 0] filled_loadable [of 5] in \<open>simp_all add: MAX_NODES_def nvram_safe_get_def del: filled.simps(2)\<close>)

text \<open>Recovery from backups never reports success when the file itself is missing: the results of the
  single attempts are combined with a bitwise or, in which the \<open>-1\<close> of one failure swallows the number of
  nodes that the backups gave.\<close>

theorem hardway_never_succeeds:
  assumes "fs fname = None" "node_try_hardway nodes_of nv fs fname st = Some (st', n)"
  shows "n = - 1"
  by (rule hardway_unreadable [OF _ assms(2)]) (simp add: unreadable_def assms(1))

theorem hardway_never_succeeds_witness:
  "\<exists>st' n. node_try_hardway (\<lambda>_. ([blank_node ''10.0.0.2''], True)) Map.empty [bak_name ''/f'' 1 \<mapsto> []] ''/f'' (filled 0) = Some (st', n) \<and>
    n = - 1 \<and> node_lookup (c_tree st') (ipkey ''10.0.0.2'') \<noteq> None"
proof -
  let ?fs = "[bak_name ''/f'' 1 \<mapsto> []] :: files" and ?nd = "blank_node ''10.0.0.2''"
  let ?f = "\<lambda>_ :: u8 list. ([?nd], True)"
  have "loadable [] ?nd"
    using blank_node_ok [of "''10.0.0.2''"] by (simp add: loadable_def) (simp add: blank_node_def INET_ADDRSTRLEN_def find_word_empty)
  moreover have "node_lookup (c_tree (filled 0)) (node_key ?nd) = None"
    by (simp add: tree_lookup_def)
  ultimately obtain st' where st': "load_node [] ?nd (filled 0, 0) = Some (st', 1)" "node_lookup (c_tree st') (ipkey ''10.0.0.2'') \<noteq> None"
    using load_node_new [of "filled 0" "[]" ?nd 0] filled_ok [of 0] by (auto simp: MAX_NODES_def)
  have l: "load_history_to_tree ?f Map.empty ?fs (bak_name ''/f'' 1) (filled 0) = Some (st', 1)"
    using st'(1) by (simp add: load_history_to_tree_def nvram_safe_get_def del: filled.simps)
  have o: "load_history_to_tree ?f Map.empty ?fs q st = Some (st, - 1)" if "q \<noteq> bak_name ''/f'' 1" for q st
    using that by (simp add: load_history_to_tree_def)
  have h: "node_try_hardway ?f Map.empty ?fs ''/f'' (filled 0) = Some (st', - 1)"
    unfolding node_try_hardway_def hardway_names_def HI_BACK_def
    using l by (simp add: o upt_rec del: filled.simps One_nat_def)
  show ?thesis
    using hardway_never_succeeds [OF _ h] h st'(2) by auto
qed




text \<open>C32: freeing ends.  The loop that removes the root of a well-formed tree until there is none returns,
  with the empty table and no nodes counted.\<close>

theorem free_all_nodes_ends:
  assumes "cst_ok st"
  shows "free_all_nodes st = Some (st\<lparr>c_tree := Nul, node_count := 0\<rparr>)"
  using assms free_loop_ends by (simp add: free_all_nodes_def cst_ok_def)

theorem free_all_nodes_ends_witness: "free_all_nodes (filled 7) = Some ((filled 7)\<lparr>c_tree := Nul, node_count := 0\<rparr>)"
  by (rule free_all_nodes_ends) (use filled_ok [of 7] in \<open>simp add: MAX_NODES_def\<close>)

end
