(* ===== verification/Ndpi.thy ===== *)
theory Ndpi
  imports Records Strings "HOL-Library.List_Lexorder"
begin

section \<open>The protocol table of the nDPI match\<close>

text \<open>
  \<^verbatim>\<open>libshared/ndpi.c\<close>: which protocols the running kernel module can match, whether a stored rule names
  only those, and the migration of stored rules from names that the library has changed.  The lines of
  \<^verbatim>\<open>/proc/net/xt_ndpi/proto\<close> as \<^verbatim>\<open>fgets\<close> returns them are the argument \<open>proc\<close> of
  \<open>ndpi_proto_load\<close>; the other functions take the loaded table, \<open>None\<close> when it is not available.  The
  table is read once for a process.  Failures of \<^verbatim>\<open>malloc\<close> are left out.
\<close>

subsection \<open>Reading the table\<close>

definition NDPI_PROTO_MAX :: nat where "NDPI_PROTO_MAX = 1024"

definition line_end :: "char \<Rightarrow> bool" where
  "line_end c \<longleftrightarrow> c = CHR 10 \<or> c = CHR 13 \<or> c = CHR '' ''"

definition ndpi_line_dissector :: "string \<Rightarrow> bool" where
  "ndpi_line_dissector line =
     (let n = length (dropWhile line_end (rev line))
      in 4 \<le> n \<and> strncmp (drop (n - 4) line) '' dpi'' 4 = 0)"

text \<open>
  The conversions of \<^verbatim>\<open>sscanf(buf, "%x %31s %31s", ...)\<close>: the rest after a hexadecimal number, and a word
  of at most 31 characters with the rest.
\<close>

definition scan_x :: "string \<Rightarrow> string option" where
  "scan_x s =
     (let s = dropWhile isspace s;
          s = (if hd0 s = CHR ''+'' \<or> hd0 s = CHR ''-'' then tl s else s);
          s = (if take 1 s = ''0'' \<and> (hd0 (tl s) = CHR ''x'' \<or> hd0 (tl s) = CHR ''X'') \<and> isxdigit (hd0 (drop 2 s)) then drop 2 s else s)
      in if isxdigit (hd0 s) then Some (dropWhile isxdigit s) else None)"

definition scan_word :: "nat \<Rightarrow> string \<Rightarrow> (string \<times> string) option" where
  "scan_word n s =
     (let s = dropWhile isspace s; w = take n (takeWhile (\<lambda>c. \<not> isspace c) s)
      in if w = [] then None else Some (w, drop (length w) s))"

definition parse_proto_line :: "string \<Rightarrow> (string \<times> string) option" where
  "parse_proto_line buf =
     Option.bind (scan_x buf) (\<lambda>s.
     Option.bind (scan_word 31 s) (\<lambda>(mark, s).
     Option.bind (scan_word 31 s) (\<lambda>(name, s). Some (mark, name))))"

type_synonym ndpi_table = "(string \<times> bool) list"

text \<open>The loop over the lines, with the table so far and whether the header has been seen.\<close>

fun proto_lines :: "string list \<Rightarrow> bool \<Rightarrow> ndpi_table \<Rightarrow> bool \<times> ndpi_table" where
  "proto_lines [] hdr list = (hdr, list)"
| "proto_lines (buf # bufs) hdr list =
     (if hd0 buf = CHR ''#'' then proto_lines bufs (hdr \<or> strstr buf ''#version'' \<noteq> None) list
      else case parse_proto_line buf of
        None \<Rightarrow> proto_lines bufs hdr list
      | Some (mark, name) \<Rightarrow>
          if strncmp mark ''disable'' 7 = 0 then proto_lines bufs hdr list
          else if NDPI_PROTO_MAX \<le> length list then (hdr, list)
          else proto_lines bufs hdr (list @ [(name, ndpi_line_dissector buf)]))"

definition ndpi_proto_load :: "string list option \<Rightarrow> ndpi_table option" where
  "ndpi_proto_load proc =
     (case proc of
        None \<Rightarrow> None
      | Some bufs \<Rightarrow> (case proto_lines bufs False [] of (hdr, list) \<Rightarrow> if \<not> hdr \<or> list = [] then None else Some list))"

subsection \<open>Questions to the table\<close>

definition tolower :: "char \<Rightarrow> char" where
  "tolower c = (let n = (of_char c :: nat) in if 65 \<le> n \<and> n \<le> 90 then char_of (n + 32) else c)"

definition strcaseeq :: "string \<Rightarrow> string \<Rightarrow> bool" where
  "strcaseeq a b \<longleftrightarrow> map tolower a = map tolower b"

text \<open>Answers are 1 for yes, 0 for no and \<open>-1\<close> for no table.\<close>

definition ndpi_proto_valid :: "ndpi_table option \<Rightarrow> string \<Rightarrow> int" where
  "ndpi_proto_valid tab name =
     (if name = [] then - 1
      else case tab of None \<Rightarrow> - 1 | Some ps \<Rightarrow> if list_ex (\<lambda>p. strcaseeq (fst p) name) ps then 1 else 0)"

definition ndpi_proto_names :: "ndpi_table option \<Rightarrow> string list option" where
  "ndpi_proto_names tab =
     map_option
       (\<lambda>ps. sort_key (map (of_char :: char \<Rightarrow> nat))
          (filter (\<lambda>p. p \<noteq> ''unknown'' \<and> strncmp p ''badproto_'' 9 \<noteq> 0 \<and> strncmp p ''free'' 4 \<noteq> 0) (map fst ps))) tab"

fun list_valid_loop :: "ndpi_table option \<Rightarrow> string list \<Rightarrow> string option" where
  "list_valid_loop tab [] = None"
| "list_valid_loop tab (n # ns) =
     (let n = (if hd0 n = CHR ''-'' then tl n else n)
      in if n = [] \<or> n = ''all'' then list_valid_loop tab ns
         else if ndpi_proto_valid tab n < 0 then None
         else if ndpi_proto_valid tab n = 0 then Some n
         else list_valid_loop tab ns)"

text \<open>The name that is not usable, if there is one.\<close>

definition ndpi_proto_list_valid :: "ndpi_table option \<Rightarrow> string \<Rightarrow> string option" where
  "ndpi_proto_list_valid tab v = list_valid_loop tab (split_on (CHR '','') (strlcpy v 256))"

definition ndpi_proto_dissector :: "ndpi_table option \<Rightarrow> string \<Rightarrow> int" where
  "ndpi_proto_dissector tab name =
     (if name = [] then - 1
      else case tab of
        None \<Rightarrow> - 1
      | Some ps \<Rightarrow> (case find (\<lambda>p. strcaseeq (fst p) name) ps of None \<Rightarrow> 0 | Some p \<Rightarrow> if snd p then 1 else 0))"

fun list_dissector_loop :: "ndpi_table option \<Rightarrow> string list \<Rightarrow> bool \<times> string" where
  "list_dissector_loop tab [] = (True, [])"
| "list_dissector_loop tab (n # ns) =
     (if n = [] then list_dissector_loop tab ns
      else if hd0 n = CHR ''-'' \<or> n = ''all'' then (False, n)
      else if ndpi_proto_dissector tab n < 0 then (False, [])
      else if ndpi_proto_dissector tab n = 0 then (False, n)
      else list_dissector_loop tab ns)"

definition ndpi_proto_list_dissector :: "ndpi_table option \<Rightarrow> string \<Rightarrow> bool \<times> string" where
  "ndpi_proto_list_dissector tab v = list_dissector_loop tab (split_on (CHR '','') (strlcpy v 256))"

subsection \<open>Renamed protocols\<close>

definition ndpi_renamed :: "(string \<times> string) list" where
  "ndpi_renamed = [(''skype_teams'', ''teams''), (''skype_teamscall'', ''teamscall'')]"

fun rename_of_loop :: "ndpi_table option \<Rightarrow> string \<Rightarrow> (string \<times> string) list \<Rightarrow> string option" where
  "rename_of_loop tab name [] = None"
| "rename_of_loop tab name ((old, new) # rs) =
     (if \<not> strcaseeq name old then rename_of_loop tab name rs
      else if ndpi_proto_valid tab old = 0 \<and> ndpi_proto_valid tab new = 1 then Some new
      else None)"

definition ndpi_rename_of :: "ndpi_table option \<Rightarrow> string \<Rightarrow> string option" where
  "ndpi_rename_of tab name = rename_of_loop tab name ndpi_renamed"

text \<open>
  The loop of \<^verbatim>\<open>ndpi_rename_field\<close> over the rest \<open>p\<close> of the source, with the number of the field, the text
  written so far and whether something was renamed.  \<open>None\<close> is the early return of a buffer that
  is too small.
\<close>

abbreviation plain_char :: "char \<Rightarrow> bool" where
  "plain_char c \<equiv> c \<noteq> CHR ''<'' \<and> c \<noteq> CHR ''>''"

definition rename_token :: "(string \<Rightarrow> string option) \<Rightarrow> string \<Rightarrow> string option" where
  "rename_token ren s = (if 64 \<le> length s then None else ren s)"

definition renamed :: "(string \<Rightarrow> string option) \<Rightarrow> string \<Rightarrow> string" where
  "renamed ren s = (case rename_token ren s of None \<Rightarrow> s | Some r \<Rightarrow> r)"

function rename_loop :: "(string \<Rightarrow> string option) \<Rightarrow> nat \<Rightarrow> nat \<Rightarrow> string \<Rightarrow> nat \<Rightarrow> string \<Rightarrow> bool \<Rightarrow> (string \<times> bool) option" where
  "rename_loop ren sz field p idx dst changed =
     (if p = [] then Some (dst, changed)
      else
        let s = takeWhile plain_char p;
            (p, dst', changed) =
              (if idx = field then (dropWhile plain_char p, dst @ renamed ren s, changed \<or> rename_token ren s \<noteq> None)
               else (p, dst, changed))
        in if idx = field \<and> sz \<le> length dst' then None
           else case p of
             [] \<Rightarrow> Some (dst', changed)
           | c # q \<Rightarrow>
               if sz \<le> length dst' + 1 then None
               else rename_loop ren sz field q (if c = CHR ''<'' then idx + 1 else if c = CHR ''>'' then 0 else idx) (dst' @ [c]) changed)"
  by pat_completeness auto
termination
proof (relation "measure (\<lambda>(ren, sz, field, p, idx, dst, changed). length p)", goal_cases)
  case 1
  then show ?case by simp
next
  case (2 ren sz field p idx dst changed s x pa y dst' changed' c q)
  have "length (dropWhile plain_char p) \<le> length p"
    by (rule length_dropWhile_le)
  with 2 show ?case
    by (auto split: if_splits dest!: arg_cong [where f = length and y = "dropWhile plain_char p"])
qed

declare rename_loop.simps [simp del]

text \<open>The new text, if something was renamed and the text fits.\<close>

definition ndpi_rename_field :: "ndpi_table option \<Rightarrow> nat \<Rightarrow> string \<Rightarrow> nat \<Rightarrow> string option" where
  "ndpi_rename_field tab dst_sz src field =
     (case rename_loop (ndpi_rename_of tab) dst_sz field src 0 [] False of Some (dst, True) \<Rightarrow> Some dst | _ \<Rightarrow> None)"

subsection \<open>Migration of the stored rules\<close>

definition NDPI_MAX_NRULES :: nat where "NDPI_MAX_NRULES = 50"

definition ndpi_migrate_qos :: "ndpi_table option \<Rightarrow> nvram \<Rightarrow> nvram \<times> bool" where
  "ndpi_migrate_qos tab nv =
     (case nv ''qos_orules'' of
        None \<Rightarrow> (nv, False)
      | Some src \<Rightarrow>
          if src = [] then (nv, False)
          else case ndpi_rename_field tab (length src * 2 + 1) src 5 of
            None \<Rightarrow> (nv, False)
          | Some dst \<Rightarrow> (nv(''qos_orules'' \<mapsto> dst), True))"

text \<open>The rest after \<open>n\<close> bars.\<close>

fun after_bars :: "nat \<Rightarrow> string \<Rightarrow> string option" where
  "after_bars 0 s = Some s"
| "after_bars (Suc n) s =
     (case strchr s (CHR ''|'') of None \<Rightarrow> None | Some k \<Rightarrow> after_bars n (drop (Suc k) s))"

definition migrate_rrule_text :: "ndpi_table option \<Rightarrow> string \<Rightarrow> string option" where
  "migrate_rrule_text tab src =
     (case after_bars 5 src of
        None \<Rightarrow> None
      | Some head \<Rightarrow>
          (case strchr head (CHR ''|'') of
             None \<Rightarrow> None
           | Some t \<Rightarrow>
               map_option (\<lambda>new. take (length src - length head) src @ new @ drop t head)
                 (ndpi_rename_field tab (t * 2 + 1) (take t head) 3)))"

definition ndpi_migrate_rrule :: "ndpi_table option \<Rightarrow> string \<Rightarrow> nvram \<Rightarrow> nvram \<times> bool" where
  "ndpi_migrate_rrule tab name nv =
     (case nv name of
        None \<Rightarrow> (nv, False)
      | Some src \<Rightarrow>
          if src = [] then (nv, False)
          else case migrate_rrule_text tab src of None \<Rightarrow> (nv, False) | Some dst \<Rightarrow> (nv(name \<mapsto> dst), True))"

fun migrate_rrules :: "ndpi_table option \<Rightarrow> string list \<Rightarrow> nvram \<times> bool \<Rightarrow> nvram \<times> bool" where
  "migrate_rrules tab [] s = s"
| "migrate_rrules tab (name # names) (nv, dirty) =
     (case ndpi_migrate_rrule tab name nv of (nv, d) \<Rightarrow> migrate_rrules tab names (nv, dirty \<or> d))"

definition rrule_names :: "string list" where
  "rrule_names = map (\<lambda>n. ''rrule'' @ show_nat n) [0..<NDPI_MAX_NRULES]"

text \<open>The test that avoids loading the module: an old name occurs somewhere in a rule.\<close>

definition mentions_renamed :: "nvram \<Rightarrow> bool" where
  "mentions_renamed nv =
     list_ex (\<lambda>r. list_ex (\<lambda>name. case nv name of None \<Rightarrow> False | Some v \<Rightarrow> strstr v (fst r) \<noteq> None)
       (''qos_orules'' # rrule_names)) ndpi_renamed"

text \<open>The new variables, and whether they are committed.  The table is what loads after \<^verbatim>\<open>modprobe\<close>.\<close>

definition ndpi_migrate_rules :: "ndpi_table option \<Rightarrow> nvram \<Rightarrow> nvram \<times> bool" where
  "ndpi_migrate_rules tab nv =
     (if \<not> mentions_renamed nv then (nv, False) else migrate_rrules tab rrule_names (ndpi_migrate_qos tab nv))"

subsection \<open>Renaming a field of every record\<close>

text \<open>
  What renaming means for a table: field \<open>k\<close> of every record is replaced, where fields are
  counted from \<open>i\<close>.
\<close>

fun upd_rec :: "(string \<Rightarrow> string) \<Rightarrow> nat \<Rightarrow> nat \<Rightarrow> string list \<Rightarrow> string list" where
  "upd_rec g k i [] = []"
| "upd_rec g k i (f # fs) = (if i = k then g f else f) # upd_rec g k (Suc i) fs"

fun hit_rec :: "(string \<Rightarrow> bool) \<Rightarrow> nat \<Rightarrow> nat \<Rightarrow> string list \<Rightarrow> bool" where
  "hit_rec h k i [] = False"
| "hit_rec h k i (f # fs) = (i = k \<and> h f \<or> hit_rec h k (Suc i) fs)"

lemma upd_rec_nth: "upd_rec g k i fs = (if i \<le> k \<and> k < i + length fs then fs[k - i := g (fs ! (k - i))] else fs)"
proof (induction g k i fs rule: upd_rec.induct)
  case (1 g k i)
  then show ?case by simp
next
  case (2 g k i f fs)
  show ?case
  proof (cases "i < k")
    case True
    then have "k - i = Suc (k - Suc i)" by simp
    with 2 True show ?thesis by simp
  next
    case False
    with 2 show ?thesis by simp
  qed
qed

lemma hit_rec_nth: "hit_rec h k i fs \<longleftrightarrow> i \<le> k \<and> k < i + length fs \<and> h (fs ! (k - i))"
  by (induction h k i fs rule: hit_rec.induct) (auto simp: nth_Cons' le_Suc_eq Suc_le_eq)

lemma upd_rec_id: "\<not> hit_rec h k i fs \<Longrightarrow> (\<And>f. \<not> h f \<Longrightarrow> g f = f) \<Longrightarrow> upd_rec g k i fs = fs"
  by (induction g k i fs rule: upd_rec.induct) auto

lemma upd_rec_not_Nil [simp]: "upd_rec g k i fs = [] \<longleftrightarrow> fs = []"
  by (cases fs) auto

definition rest_text :: "(string \<Rightarrow> string option) \<Rightarrow> nat \<Rightarrow> nat \<Rightarrow> string \<Rightarrow> string" where
  "rest_text ren k i p = print_recs (upd_rec (renamed ren) k i (hd (recs p)) # map (upd_rec (renamed ren) k 0) (tl (recs p)))"

definition rest_hit :: "(string \<Rightarrow> string option) \<Rightarrow> nat \<Rightarrow> nat \<Rightarrow> string \<Rightarrow> bool" where
  "rest_hit ren k i p \<longleftrightarrow> hit_rec (\<lambda>f. rename_token ren f \<noteq> None) k i (hd (recs p)) \<or>
     (\<exists>r \<in> set (tl (recs p)). hit_rec (\<lambda>f. rename_token ren f \<noteq> None) k 0 r)"

lemma recs_append:
  "\<forall>c \<in> set s. plain_char c \<Longrightarrow> recs (s @ q) = ((s @ hd (hd (recs q))) # tl (hd (recs q))) # tl (recs q)"
proof (induction s)
  case Nil
  obtain f fs rs where "recs q = (f # fs) # rs" by (rule recs_cases)
  then show ?case by simp
next
  case (Cons c s)
  then show ?case by (simp add: recs_other)
qed

lemma plain_cases:
  obtains "\<forall>c \<in> set p. plain_char c"
  | s c q where "p = s @ c # q" "\<forall>c \<in> set s. plain_char c" "c = CHR ''<'' \<or> c = CHR ''>''"
proof (cases "\<exists>c \<in> set p. \<not> plain_char c")
  case True
  then obtain s c q where "p = s @ c # q" "\<not> plain_char c" "\<forall>c \<in> set s. \<not> \<not> plain_char c"
    by (rule split_list_first_propE)
  then show thesis by (intro that(2)) auto
next
  case False
  then show thesis by (intro that(1)) auto
qed

lemma rest_other:
  assumes "plain_char c" "i \<noteq> k"
  shows "rest_text ren k i (c # q) = c # rest_text ren k i q" "rest_hit ren k i (c # q) = rest_hit ren k i q"
proof -
  obtain f fs rs where q: "recs q = (f # fs) # rs"
    by (rule recs_cases)
  show "rest_text ren k i (c # q) = c # rest_text ren k i q" "rest_hit ren k i (c # q) = rest_hit ren k i q"
    using assms q by (simp_all add: rest_text_def rest_hit_def recs_other print_recs_prepend)
qed

lemma rest_lt:
  assumes "\<forall>c \<in> set s. plain_char c"
  shows "rest_text ren k i (s @ CHR ''<'' # q) = (if i = k then renamed ren s else s) @ CHR ''<'' # rest_text ren k (Suc i) q"
    "rest_hit ren k i (s @ CHR ''<'' # q) \<longleftrightarrow> i = k \<and> rename_token ren s \<noteq> None \<or> rest_hit ren k (Suc i) q"
proof -
  obtain r rs where q: "recs q = r # rs" "r \<noteq> []"
    using recs_cases [of q] by blast
  show "rest_text ren k i (s @ CHR ''<'' # q) = (if i = k then renamed ren s else s) @ CHR ''<'' # rest_text ren k (Suc i) q"
    using assms q by (cases rs) (simp_all add: rest_text_def recs_append recs_lt print_recs_def joined_Cons)
  show "rest_hit ren k i (s @ CHR ''<'' # q) \<longleftrightarrow> i = k \<and> rename_token ren s \<noteq> None \<or> rest_hit ren k (Suc i) q"
    using assms q by (auto simp: rest_hit_def recs_append recs_lt)
qed

lemma rest_gt:
  assumes "\<forall>c \<in> set s. plain_char c"
  shows "rest_text ren k i (s @ CHR ''>'' # q) = (if i = k then renamed ren s else s) @ CHR ''>'' # rest_text ren k 0 q"
    "rest_hit ren k i (s @ CHR ''>'' # q) \<longleftrightarrow> i = k \<and> rename_token ren s \<noteq> None \<or> rest_hit ren k 0 q"
proof -
  obtain r rs where q: "recs q = r # rs" "r \<noteq> []"
    using recs_cases [of q] by blast
  show "rest_text ren k i (s @ CHR ''>'' # q) = (if i = k then renamed ren s else s) @ CHR ''>'' # rest_text ren k 0 q"
    using assms q by (simp add: rest_text_def recs_append recs_gt print_recs_simps)
  show "rest_hit ren k i (s @ CHR ''>'' # q) \<longleftrightarrow> i = k \<and> rename_token ren s \<noteq> None \<or> rest_hit ren k 0 q"
    using assms q by (auto simp: rest_hit_def recs_append recs_gt)
qed

lemma rest_end:
  assumes "\<forall>c \<in> set s. plain_char c"
  shows "rest_text ren k i s = (if i = k then renamed ren s else s)"
    "rest_hit ren k i s \<longleftrightarrow> i = k \<and> rename_token ren s \<noteq> None"
  using recs_append [OF assms, of "[]"] by (simp_all add: rest_text_def rest_hit_def recs_Nil print_recs_def)

lemma rename_loop_Nil [simp]: "rename_loop ren sz field [] idx dst ch = Some (dst, ch)"
  by (simp add: rename_loop.simps)

lemma rename_loop_other:
  "idx \<noteq> field \<Longrightarrow> rename_loop ren sz field (c # q) idx dst ch =
    (if sz \<le> length dst + 1 then None
     else rename_loop ren sz field q (if c = CHR ''<'' then idx + 1 else if c = CHR ''>'' then 0 else idx) (dst @ [c]) ch)"
  by (subst rename_loop.simps) simp

lemma rename_loop_field:
  assumes "\<forall>c \<in> set s. plain_char c" "c = CHR ''<'' \<or> c = CHR ''>''"
  shows "rename_loop ren sz field (s @ c # q) field dst ch =
    (if sz \<le> length dst + length (renamed ren s) + 1 then None
     else rename_loop ren sz field q (if c = CHR ''<'' then field + 1 else 0) (dst @ renamed ren s @ [c])
       (ch \<or> rename_token ren s \<noteq> None))"
  using assms by (subst rename_loop.simps) (auto simp: takeWhile_append2 dropWhile_append2 Let_def)

lemma rename_loop_last:
  assumes "\<forall>c \<in> set s. plain_char c" "s \<noteq> []"
  shows "rename_loop ren sz field s field dst ch =
    (if sz \<le> length dst + length (renamed ren s) then None else Some (dst @ renamed ren s, ch \<or> rename_token ren s \<noteq> None))"
proof -
  have "takeWhile plain_char s = s" "dropWhile plain_char s = []"
    using assms(1) by (auto simp: takeWhile_eq_all_conv dropWhile_eq_Nil_conv)
  then show ?thesis
    using assms(2) by (subst rename_loop.simps) (simp add: Let_def del: takeWhile_eq_all_conv dropWhile_eq_Nil_conv)
qed

lemma rename_loop_correct:
  assumes "ren [] = None" "length dst + length (rest_text ren field idx p) < sz"
  shows "rename_loop ren sz field p idx dst ch = Some (dst @ rest_text ren field idx p, ch \<or> rest_hit ren field idx p)"
  using assms(2)
proof (induction "length p" arbitrary: p idx dst ch rule: less_induct)
  case less
  have nil: "renamed ren [] = []" "rename_token ren [] = None"
    using assms(1) by (simp_all add: renamed_def rename_token_def)
  consider "p = []" | "p \<noteq> []" "idx \<noteq> field" | "p \<noteq> []" "idx = field" by blast
  then show ?case
  proof cases
    case 1
    then show ?thesis
      using rest_end [of "[]" ren field idx] nil by simp
  next
    case 2
    then obtain c q where p: "p = c # q" by (cases p) auto
    have "length q < length p" by (simp add: p)
    note ih = less.hyps [OF this]
    consider "c = CHR ''<''" | "c = CHR ''>''" | "plain_char c" by blast
    then show ?thesis
    proof cases
      case 1
      then show ?thesis
        using less.prems ih [of "dst @ [c]" "Suc idx" ch] p 2 rest_lt [of "[]" ren field idx q] nil
        by (simp add: rename_loop_other)
    next
      case 2
      then show ?thesis
        using less.prems ih [of "dst @ [c]" 0 ch] p \<open>idx \<noteq> field\<close> rest_gt [of "[]" ren field idx q] nil
        by (simp add: rename_loop_other)
    next
      case 3
      then show ?thesis
        using less.prems ih [of "dst @ [c]" idx ch] p \<open>idx \<noteq> field\<close> rest_other [of c idx field ren q]
        by (simp add: rename_loop_other)
    qed
  next
    case 3
    show ?thesis
    proof (cases p rule: plain_cases)
      case 1
      with 3 less.prems show ?thesis
        using rest_end [of p ren field idx] by (simp add: rename_loop_last)
    next
      case (2 s c q)
      then have "length q < length p" by simp
      note ih = less.hyps [OF this, of "dst @ renamed ren s @ [c]" "if c = CHR ''<'' then Suc field else 0"
          "ch \<or> rename_token ren s \<noteq> None"]
      show ?thesis
        using ih less.prems 3(2) 2(3) rename_loop_field [OF 2(2,3)] rest_lt [OF 2(2)] rest_gt [OF 2(2)]
        unfolding 2(1) by auto
    qed
  qed
qed

subsection \<open>The renaming\<close>

lemma rename_of_loop_Some:
  "rename_of_loop tab name rs = Some r \<Longrightarrow> \<exists>old. (old, r) \<in> set rs \<and> strcaseeq name old"
  by (induction tab name rs rule: rename_of_loop.induct) (auto split: if_splits)

lemma strcaseeq_length: "strcaseeq a b \<Longrightarrow> length a = length b"
  unfolding strcaseeq_def by (metis length_map)

lemma ndpi_rename_of_Some:
  assumes "ndpi_rename_of tab name = Some r"
  shows "r = ''teams'' \<or> r = ''teamscall''" "length r < length name"
  using rename_of_loop_Some [OF assms [unfolded ndpi_rename_of_def]]
  by (auto simp: ndpi_renamed_def dest: strcaseeq_length)

lemma ndpi_rename_of_new: "r = ''teams'' \<or> r = ''teamscall'' \<Longrightarrow> ndpi_rename_of tab r = None"
  by (auto simp: ndpi_rename_of_def ndpi_renamed_def dest: strcaseeq_length)

lemma ndpi_rename_of_Nil [simp]: "ndpi_rename_of tab [] = None"
  by (auto simp: ndpi_rename_of_def ndpi_renamed_def dest: strcaseeq_length)

abbreviation new_name :: "ndpi_table option \<Rightarrow> string \<Rightarrow> string" where
  "new_name tab \<equiv> renamed (ndpi_rename_of tab)"

lemma new_name_length: "length (new_name tab f) \<le> length f"
  by (auto simp: renamed_def rename_token_def split: option.splits if_splits dest: ndpi_rename_of_Some(2))

lemma new_name_again [simp]: "rename_token (ndpi_rename_of tab) (new_name tab f) = None"
  by (auto simp: renamed_def rename_token_def split: option.splits if_splits intro!: ndpi_rename_of_new dest: ndpi_rename_of_Some(1))

lemma new_name_same [simp]: "rename_token (ndpi_rename_of tab) f = None \<Longrightarrow> new_name tab f = f"
  by (simp add: renamed_def)

lemma new_name_changes: "rename_token (ndpi_rename_of tab) f \<noteq> None \<Longrightarrow> new_name tab f \<noteq> f"
  by (auto simp: renamed_def rename_token_def split: if_splits dest: ndpi_rename_of_Some(2))

lemma new_name_chars: "c \<in> set (new_name tab f) \<Longrightarrow> c \<in> set f \<or> c \<in> set ''teamscall''"
  by (auto simp: renamed_def rename_token_def split: option.splits if_splits dest!: ndpi_rename_of_Some(1))

lemma new_name_plain: "c \<notin> set f \<Longrightarrow> c \<notin> set ''teamscall'' \<Longrightarrow> c \<notin> set (new_name tab f)"
  using new_name_chars by blast

text \<open>The table with field \<open>k\<close> renamed.\<close>

definition rename_rec :: "ndpi_table option \<Rightarrow> nat \<Rightarrow> string list \<Rightarrow> string list" where
  "rename_rec tab k r = (if k < length r then r[k := new_name tab (r ! k)] else r)"

definition rename_records :: "ndpi_table option \<Rightarrow> nat \<Rightarrow> string \<Rightarrow> string" where
  "rename_records tab k v = print_recs (map (rename_rec tab k) (recs v))"

definition names_renamed :: "ndpi_table option \<Rightarrow> nat \<Rightarrow> string \<Rightarrow> bool" where
  "names_renamed tab k v \<longleftrightarrow> (\<exists>r \<in> set (recs v). k < length r \<and> rename_token (ndpi_rename_of tab) (r ! k) \<noteq> None)"

lemma rename_rec_upd: "upd_rec (new_name tab) k 0 = rename_rec tab k"
  by (simp add: rename_rec_def upd_rec_nth fun_eq_iff)

lemma rest_text_records: "rest_text (ndpi_rename_of tab) k 0 v = rename_records tab k v"
  by (cases v rule: recs_cases) (simp add: rest_text_def rename_records_def rename_rec_upd)

lemma rest_hit_records: "rest_hit (ndpi_rename_of tab) k 0 v = names_renamed tab k v"
  by (cases v rule: recs_cases) (simp add: rest_hit_def names_renamed_def hit_rec_nth)

lemma rename_rec_length: "length (joined ''<'' (rename_rec tab k r)) \<le> length (joined ''<'' r)"
  by (rule joined_length_mono) (auto simp: rename_rec_def list_all2_conv_all_nth nth_list_update new_name_length)

lemma rename_records_length: "length (rename_records tab k v) \<le> length v"
proof -
  have "length (rename_records tab k v) \<le> length (print_recs (recs v))"
    unfolding rename_records_def print_recs_def
    by (rule joined_length_mono) (auto simp: list_all2_conv_all_nth rename_rec_length)
  then show ?thesis by simp
qed

lemma ndpi_rename_field_correct:
  assumes "length src < dst_sz"
  shows "ndpi_rename_field tab dst_sz src k = (if names_renamed tab k src then Some (rename_records tab k src) else None)"
  using rename_loop_correct [of "ndpi_rename_of tab" "[]" k 0 src dst_sz False] rename_records_length [of tab k src] assms
  by (simp add: ndpi_rename_field_def rest_text_records rest_hit_records)

lemma rename_rec_same: "k < length r \<longrightarrow> rename_token (ndpi_rename_of tab) (r ! k) = None \<Longrightarrow> rename_rec tab k r = r"
  by (auto simp: rename_rec_def list_update_same_conv)

lemma rename_records_same: "\<not> names_renamed tab k v \<Longrightarrow> rename_records tab k v = v"
proof -
  assume "\<not> names_renamed tab k v"
  then have "map (rename_rec tab k) (recs v) = recs v"
    by (intro map_idI rename_rec_same) (auto simp: names_renamed_def)
  then show ?thesis
    by (simp add: rename_records_def)
qed

lemma recs_plain: "r \<in> set (recs v) \<Longrightarrow> f \<in> set r \<Longrightarrow> CHR ''<'' \<notin> set f \<and> CHR ''>'' \<notin> set f"
  by (auto simp: recs_def dest: split_on_elem split_on_set)

lemma rename_rec_plain:
  "r \<in> set (recs v) \<Longrightarrow> rename_rec tab k r \<noteq> [] \<and> (\<forall>f \<in> set (rename_rec tab k r). CHR ''<'' \<notin> set f \<and> CHR ''>'' \<notin> set f)"
  using recs_plain [of r v] recs_not_Nil(2) [of r v] new_name_plain [of _ "r ! k" tab]
  by (auto simp: rename_rec_def dest!: set_update_subset_insert [THEN subsetD])

lemma recs_rename_records: "recs (rename_records tab k v) = map (rename_rec tab k) (recs v)"
  unfolding rename_records_def using rename_rec_plain by (intro recs_print_recs) auto

lemma names_renamed_again [simp]: "\<not> names_renamed tab k (rename_records tab k v)"
  by (auto simp: names_renamed_def recs_rename_records rename_rec_def)

lemma rename_records_changes: "names_renamed tab k v \<Longrightarrow> rename_records tab k v \<noteq> v"
  by (metis names_renamed_again)

subsection \<open>The stored rules\<close>

definition rename_rrule :: "ndpi_table option \<Rightarrow> string \<Rightarrow> string" where
  "rename_rrule tab v =
     (let ps = split_on (CHR ''|'') v
      in if 7 \<le> length ps then joined ''|'' (ps[5 := rename_records tab 3 (ps ! 5)]) else v)"

definition rrule_renamed :: "ndpi_table option \<Rightarrow> string \<Rightarrow> bool" where
  "rrule_renamed tab v \<longleftrightarrow> (let ps = split_on (CHR ''|'') v in 7 \<le> length ps \<and> names_renamed tab 3 (ps ! 5))"

lemma after_bars_split:
  "after_bars n s =
     (if n < length (split_on (CHR ''|'') s) then Some (joined ''|'' (drop n (split_on (CHR ''|'') s))) else None)"
proof (induction n arbitrary: s)
  case 0
  then show ?case by simp
next
  case (Suc n)
  have "CHR ''|'' \<noteq> NUL" by simp
  then show ?case
    by (rule strchr_cases [of _ s]) (simp_all add: Suc)
qed

lemma migrate_rrule_parts:
  assumes "7 \<le> length ps" "\<forall>p \<in> set ps. CHR ''|'' \<notin> set p" "src = joined ''|'' ps" "head = joined ''|'' (drop 5 ps)"
  shows "strchr head (CHR ''|'') = Some (length (ps ! 5))" "take (length (ps ! 5)) head = ps ! 5"
    "take (length src - length head) src @ new @ drop (length (ps ! 5)) head = joined ''|'' (ps[5 := new])"
proof -
  have d: "drop 5 ps = ps ! 5 # drop 6 ps" "drop 6 ps \<noteq> []" "take 5 ps \<noteq> []"
    using assms(1) Cons_nth_drop_Suc [of 5 ps] by auto
  then have h: "head = ps ! 5 @ ''|'' @ joined ''|'' (drop 6 ps)"
    using assms(4) by (simp add: joined_Cons)
  have src: "src = joined ''|'' (take 5 ps) @ ''|'' @ head"
    using d joined_append [of "take 5 ps" "drop 5 ps" "''|''"] unfolding assms(3,4) append_take_drop_id by simp
  have "ps[5 := new] = take 5 ps @ new # drop 6 ps"
    using assms(1) by (simp add: upd_conv_take_nth_drop)
  then show "take (length src - length head) src @ new @ drop (length (ps ! 5)) head = joined ''|'' (ps[5 := new])"
    using d src h by (simp add: joined_append joined_Cons)
  show "strchr head (CHR ''|'') = Some (length (ps ! 5))" "take (length (ps ! 5)) head = ps ! 5"
    using h assms(1,2) by (simp_all add: strchr_first)
qed

lemma migrate_rrule_text_correct:
  "migrate_rrule_text tab src = (if rrule_renamed tab src then Some (rename_rrule tab src) else None)"
proof (cases "7 \<le> length (split_on (CHR ''|'') src)")
  case True
  note parts = migrate_rrule_parts [OF True _ _ refl, of src]
  show ?thesis
    using True parts split_on_elem [of _ "CHR ''|''" src]
    by (simp add: migrate_rrule_text_def after_bars_split ndpi_rename_field_correct rrule_renamed_def rename_rrule_def Let_def)
next
  case False
  let ?ps = "split_on (CHR ''|'') src"
  have "migrate_rrule_text tab src = None"
  proof (cases "5 < length ?ps")
    case True
    with False have "drop 5 ?ps = [?ps ! 5]"
      using Cons_nth_drop_Suc [of 5 ?ps] by simp
    moreover have "strchr (?ps ! 5) (CHR ''|'') = None"
      using split_on_elem [OF nth_mem [OF True]] by (simp add: strchr_None)
    ultimately show ?thesis
      using True by (simp add: migrate_rrule_text_def after_bars_split)
  next
    case False
    then show ?thesis
      by (simp add: migrate_rrule_text_def after_bars_split)
  qed
  with False show ?thesis
    by (simp add: rrule_renamed_def Let_def)
qed

lemma rename_rrule_same: "\<not> rrule_renamed tab v \<Longrightarrow> rename_rrule tab v = v"
  by (auto simp: rrule_renamed_def rename_rrule_def rename_records_same Let_def)

lemma rename_records_chars: "c \<in> set (rename_records tab k v) \<Longrightarrow> c \<notin> set v \<Longrightarrow> c \<in> set ''<>teamscal''"
proof -
  assume c: "c \<in> set (rename_records tab k v)" "c \<notin> set v"
  have "c \<in> set ''<>'' \<or> (\<exists>r \<in> set (recs v). \<exists>f \<in> set (rename_rec tab k r). c \<in> set f)"
    using c(1) set_joined [of "''>''" "map (joined ''<'') (map (rename_rec tab k) (recs v))"] set_joined [of "''<''"]
    unfolding rename_records_def print_recs_def by fastforce
  moreover have "c \<notin> set f" if "r \<in> set (recs v)" "f \<in> set r" for r f
    using that c(2) by (auto simp: recs_def dest!: split_on_set)
  ultimately show ?thesis
    using new_name_chars [of c tab] nth_mem
    by (fastforce simp: rename_rec_def split: if_splits dest!: set_update_subset_insert [THEN subsetD])
qed

lemma rrule_renamed_again: "\<not> rrule_renamed tab (rename_rrule tab v)"
proof (cases "7 \<le> length (split_on (CHR ''|'') v)")
  case True
  let ?ps = "split_on (CHR ''|'') v"
  have "CHR ''|'' \<notin> set (rename_records tab 3 (?ps ! 5))"
    using rename_records_chars [of "CHR ''|''" tab 3 "?ps ! 5"] split_on_elem [of "?ps ! 5" "CHR ''|''" v] True by auto
  then have "split_on (CHR ''|'') (rename_rrule tab v) = ?ps[5 := rename_records tab 3 (?ps ! 5)]"
    using True split_on_elem [of _ "CHR ''|''" v]
    by (auto simp: rename_rrule_def Let_def intro!: split_on_joined dest!: set_update_subset_insert [THEN subsetD])
  with True show ?thesis
    by (simp add: rrule_renamed_def Let_def)
next
  case False
  then show ?thesis
    by (simp add: rrule_renamed_def rename_rrule_def Let_def)
qed

lemma ndpi_migrate_rrule_correct:
  "ndpi_migrate_rrule tab name nv =
    (case nv name of None \<Rightarrow> (nv, False) | Some v \<Rightarrow> (nv(name \<mapsto> rename_rrule tab v), rrule_renamed tab v))"
  by (auto simp: ndpi_migrate_rrule_def migrate_rrule_text_correct rename_rrule_same rrule_renamed_def fun_upd_idem split: option.splits)

lemma ndpi_migrate_qos_correct:
  "ndpi_migrate_qos tab nv =
    (case nv ''qos_orules'' of None \<Rightarrow> (nv, False) | Some v \<Rightarrow> (nv(''qos_orules'' \<mapsto> rename_records tab 5 v), names_renamed tab 5 v))"
  by (auto simp: ndpi_migrate_qos_def ndpi_rename_field_correct rename_records_same fun_upd_idem names_renamed_def recs_Nil split: option.splits)

lemma migrate_rrules_correct:
  "distinct names \<Longrightarrow> migrate_rrules tab names (nv, dirty) =
    (\<lambda>name. if name \<in> set names then map_option (rename_rrule tab) (nv name) else nv name,
     dirty \<or> (\<exists>name \<in> set names. \<exists>v. nv name = Some v \<and> rrule_renamed tab v))"
proof (induction names arbitrary: nv dirty)
  case Nil
  then show ?case by simp
next
  case (Cons name names)
  then show ?case
    by (cases "nv name") (auto simp: ndpi_migrate_rrule_correct fun_eq_iff, metis+)
qed

lemma rrule_names_distinct: "distinct rrule_names" "''qos_orules'' \<notin> set rrule_names"
  by (auto simp: rrule_names_def distinct_map inj_on_def)

lemma list_valid_loop_None:
  "list_valid_loop (Some ps) ns = None \<longleftrightarrow>
    (\<forall>n \<in> set ns. let n = (if hd0 n = CHR ''-'' then tl n else n)
      in n = [] \<or> n = ''all'' \<or> (\<exists>p \<in> set ps. strcaseeq (fst p) n))"
  by (induction ns) (auto simp: ndpi_proto_valid_def list_ex_iff Let_def)

text \<open>The variables after the migration.\<close>

definition migrated :: "ndpi_table option \<Rightarrow> nvram \<Rightarrow> nvram" where
  "migrated tab nv name =
     (if name = ''qos_orules'' then map_option (rename_records tab 5) (nv name)
      else if name \<in> set rrule_names then map_option (rename_rrule tab) (nv name)
      else nv name)"

definition some_renamed :: "ndpi_table option \<Rightarrow> nvram \<Rightarrow> bool" where
  "some_renamed tab nv \<longleftrightarrow> (\<exists>v. nv ''qos_orules'' = Some v \<and> names_renamed tab 5 v) \<or>
     (\<exists>name \<in> set rrule_names. \<exists>v. nv name = Some v \<and> rrule_renamed tab v)"

lemma rrule_names_not_qos: "name \<in> set rrule_names \<Longrightarrow> name \<noteq> ''qos_orules''"
  using rrule_names_distinct(2) by blast

lemma migrate_all: "migrate_rrules tab rrule_names (ndpi_migrate_qos tab nv) = (migrated tab nv, some_renamed tab nv)"
proof (cases "nv ''qos_orules''")
  case None
  then show ?thesis
    using migrate_rrules_correct [OF rrule_names_distinct(1), of tab nv False]
    by (simp add: ndpi_migrate_qos_correct migrated_def some_renamed_def fun_eq_iff)
next
  case (Some v)
  let ?nv = "nv(''qos_orules'' \<mapsto> rename_records tab 5 v)"
  have "?nv name = nv name" if "name \<in> set rrule_names" for name
    using rrule_names_not_qos [OF that] by simp
  then show ?thesis
    using migrate_rrules_correct [OF rrule_names_distinct(1), of tab ?nv "names_renamed tab 5 v"] Some rrule_names_distinct(2)
    by (simp add: ndpi_migrate_qos_correct migrated_def some_renamed_def fun_eq_iff cong: bex_cong)
qed

lemma some_renamed_iff: "some_renamed tab nv \<longleftrightarrow> migrated tab nv \<noteq> nv"
proof
  assume "some_renamed tab nv"
  then obtain name v where "nv name = Some v" "migrated tab nv name \<noteq> Some v"
    unfolding some_renamed_def
  proof (elim disjE exE bexE conjE)
    fix v
    assume "nv ''qos_orules'' = Some v" "names_renamed tab 5 v"
    then show thesis
      by (intro that [of "''qos_orules''" v]) (simp_all add: migrated_def rename_records_changes)
  next
    fix name v
    assume "name \<in> set rrule_names" "nv name = Some v" "rrule_renamed tab v"
    then show thesis
      using rrule_renamed_again [of tab v] rrule_names_not_qos [of name]
      by (intro that [of name v]) (auto simp: migrated_def)
  qed
  then show "migrated tab nv \<noteq> nv" by auto
next
  show "some_renamed tab nv" if "migrated tab nv \<noteq> nv"
  proof (rule ccontr)
    assume d: "\<not> some_renamed tab nv"
    have "migrated tab nv name = nv name" for name
      using d by (cases "nv name") (auto simp: migrated_def some_renamed_def rename_records_same rename_rrule_same)
    with that show False by auto
  qed
qed

lemma migrated_again: "migrated tab (migrated tab nv) = migrated tab nv"
  by (auto simp: migrated_def fun_eq_iff option.map_comp o_def rename_records_same rename_rrule_same rrule_renamed_again)

subsection \<open>Properties\<close>

text \<open>C10: the migration does to the stored rules what it is meant to do and nothing else.  When a rule mentions an
  old name, then in \<^verbatim>\<open>qos_orules\<close> the sixth field of every record, and in every \<^verbatim>\<open>rruleN\<close> the fourth field of
  every record of the sixth part, is replaced by the new name of its protocol; every other field, part and
  variable is as before, and the variables are committed exactly when one of them has changed.\<close>

theorem ndpi_migrate_rules_correct:
  "ndpi_migrate_rules tab nv =
     (if mentions_renamed nv then (migrated tab nv, migrated tab nv \<noteq> nv) else (nv, False))"
  by (simp add: ndpi_migrate_rules_def migrate_all some_renamed_iff)

text \<open>Running the migration again changes nothing, whatever the table and the rules.\<close>

theorem ndpi_migrate_idempotent:
  "ndpi_migrate_rules tab (fst (ndpi_migrate_rules tab nv)) = (fst (ndpi_migrate_rules tab nv), False)"
  by (simp add: ndpi_migrate_rules_def migrate_all some_renamed_iff migrated_again)

text \<open>The migration misses old names that are not written in lower case.  Names are compared without regard
  to case everywhere except in the test whether there is anything to do, so a rule for
  \<^verbatim>\<open>Skype_Teams\<close> keeps its name although it has a new one.\<close>

theorem case_variants_not_migrated:
  "let tab = Some [(''teams'', False)]; v = ''0<<-2<a<<Skype_Teams<<<4<x''; nv = [''qos_orules'' \<mapsto> v]
   in names_renamed tab 5 v \<and> ndpi_migrate_rules tab nv = (nv, False)"
proof -
  have "names_renamed (Some [(''teams'', False)]) 5 ''0<<-2<a<<Skype_Teams<<<4<x''"
    by code_simp
  moreover have "strstr ''0<<-2<a<<Skype_Teams<<<4<x'' ''skype_teams'' = None" "strstr ''0<<-2<a<<Skype_Teams<<<4<x'' ''skype_teamscall'' = None"
    by code_simp+
  ultimately show ?thesis
    using rrule_names_distinct(2)
    by (auto simp: ndpi_migrate_rules_def mentions_renamed_def ndpi_renamed_def list_ex_iff)
qed

end
