(* ===== verification/Iptables.thy ===== *)
theory Iptables
  imports Ndpi Wan
begin

section \<open>Writing firewall rules\<close>

text \<open>
  The helpers of \<^verbatim>\<open>rc/firewall.c\<close> that other parts of \<^verbatim>\<open>rc\<close> use to write rules.  Rules go to two files that \<^verbatim>\<open>iptables-restore\<close> and \<^verbatim>\<open>ip6tables-restore\<close> load as a whole;
  the model keeps their lines in a structured form whose text is given by \<open>show_line\<close>.  What
  \<^verbatim>\<open>start_firewall\<close> has put into global variables before, the protocol table and the resolver of the C
  library are the environment.  The configuration is that of the Tomato64 build:
  \<^verbatim>\<open>TCONFIG_IPV6\<close> and \<^verbatim>\<open>TCONFIG_BCMARM\<close> are set.
\<close>

datatype ipt_line =
    Chain string
  | Unchain string
  | Append string string
  | Insert string

fun show_line :: "ipt_line \<Rightarrow> string" where
  "show_line (Chain c) = '':'' @ c @ '' - [0:0]''"
| "show_line (Unchain c) = ''-X '' @ c"
| "show_line (Append c t) = ''-A '' @ c @ '' '' @ t"
| "show_line (Insert t) = ''-I '' @ t"

datatype family = AF_INET | AF_INET6 | AF_OTHER

record fwenv =
  ipv6_enabled :: bool
  wan6face :: string
  wanfaces :: "(string \<times> string) list"
  chain_in_accept :: string
  chain_out_drop :: string
  chain_out_reject :: string
  ndpi_tab :: "ndpi_table option"
  getaddrinfo :: "string \<Rightarrow> family option \<Rightarrow> family list option"
  fw_nv :: nvram

record fw =
  out4 :: "ipt_line list"
  out6 :: "ipt_line list"
  ndpi_in :: "string list"
  modules :: "string list"

definition IPT_V4 :: int where "IPT_V4 = 1"
definition IPT_V6 :: int where "IPT_V6 = 2"

definition ipt_write :: "ipt_line \<Rightarrow> fw \<Rightarrow> fw" where
  "ipt_write l f = f\<lparr>out4 := out4 f @ [l]\<rparr>"

definition ip6t_write :: "ipt_line \<Rightarrow> fw \<Rightarrow> fw" where
  "ip6t_write l f = f\<lparr>out6 := out6 f @ [l]\<rparr>"

definition ip46t_write :: "bool \<Rightarrow> ipt_line \<Rightarrow> fw \<Rightarrow> fw" where
  "ip46t_write do6 l f = (let f = ipt_write l f in if do6 then ip6t_write l f else f)"

definition ip46t_flagged_write :: "bool \<Rightarrow> int \<Rightarrow> ipt_line \<Rightarrow> fw \<Rightarrow> fw" where
  "ip46t_flagged_write do6 flags l f =
     (let f = (if flags AND IPT_V4 \<noteq> 0 then ipt_write l f else f)
      in if do6 \<and> flags AND IPT_V6 \<noteq> 0 then ip6t_write l f else f)"

definition modprobe :: "string \<Rightarrow> fw \<Rightarrow> fw" where
  "modprobe m f = f\<lparr>modules := modules f @ [m]\<rparr>"

subsection \<open>Addresses\<close>

definition host_addr_info :: "fwenv \<Rightarrow> string \<Rightarrow> int \<Rightarrow> int" where
  "host_addr_info e name af =
     (let fam = (if af AND (IPT_V4 OR IPT_V6) = IPT_V4 then Some AF_INET
                 else if af AND (IPT_V4 OR IPT_V6) = IPT_V6 then Some AF_INET6 else None)
      in case getaddrinfo e name fam of
           None \<Rightarrow> 0
         | Some res \<Rightarrow>
             foldl (\<lambda>t p. case p of AF_INET \<Rightarrow> t OR IPT_V4 | AF_INET6 \<Rightarrow> t OR IPT_V6 | AF_OTHER \<Rightarrow> t) 0 res AND af)"

definition host_addrtypes :: "fwenv \<Rightarrow> string \<Rightarrow> int \<Rightarrow> int" where
  "host_addrtypes e name af = host_addr_info e name af"

text \<open>A conversion \<^verbatim>\<open>%91[...]\<close>: at least one and at most 91 characters of the set.\<close>

definition scan_set :: "nat \<Rightarrow> (char \<Rightarrow> bool) \<Rightarrow> string \<Rightarrow> (string \<times> string) option" where
  "scan_set n P s = (let w = take n (takeWhile P s) in if w = [] then None else Some (w, drop (length w) s))"

definition is_range :: "(char \<Rightarrow> bool) \<Rightarrow> string \<Rightarrow> bool" where
  "is_range P s =
     (case scan_set 91 P s of
        None \<Rightarrow> False
      | Some (_, r) \<Rightarrow> hd0 r = CHR ''-'' \<and> scan_set 91 P (tl r) \<noteq> None)"

definition v4_char :: "char \<Rightarrow> bool" where
  "v4_char c \<longleftrightarrow> isdigit c \<or> c = CHR ''.''"

definition v6_char :: "char \<Rightarrow> bool" where
  "v6_char c \<longleftrightarrow> isxdigit c \<or> c = CHR '':''"

text \<open>The address families that can be used, and the text of the match.\<close>

definition ipt_addr :: "fwenv \<Rightarrow> nat \<Rightarrow> string \<Rightarrow> string \<Rightarrow> int \<Rightarrow> bool \<Rightarrow> int \<times> string" where
  "ipt_addr e maxlen s dir af strict =
     (let (r, addr) =
        (if s \<noteq> [] \<and> dir \<noteq> [] then
           if is_range v4_char s then (IPT_V4, strlcpy (''-m iprange --'' @ dir @ ''-range '' @ s) maxlen)
           else if is_range v6_char s then (IPT_V6, strlcpy (''-m iprange --'' @ dir @ ''-range '' @ s) maxlen)
           else
             (case scan_set 91 (\<lambda>c. c \<noteq> CHR ''/'') s of
                None \<Rightarrow> 0
              | Some (p, _) \<Rightarrow> host_addrtypes e p (if strict then af else IPT_V4 OR IPT_V6),
              strlcpy (CHR ''-'' # hd0 dir # '' '' @ s) maxlen)
         else (IPT_V4 OR IPT_V6, []))
      in (r AND af, addr))"

subsection \<open>Protocols\<close>

definition ipt_ndpi :: "fwenv \<Rightarrow> string \<Rightarrow> nat \<Rightarrow> fw \<Rightarrow> int \<times> string \<times> fw" where
  "ipt_ndpi e v sz f =
     (if v = [] then (0, [], f)
      else
        let f = modprobe ''xt_ndpi'' f
        in if ndpi_proto_list_valid (ndpi_tab e) v \<noteq> None then (- 1, [], f)
           else
             let opt = strlcpy ('' -m ndpi --proto '' @ v) sz
             in if nvram_match (fw_nv e) ''nf_ndpi_in'' ''1'' \<and> opt \<notin> set (ndpi_in f) \<and> length (ndpi_in f) < 50
                then (1, opt, f\<lparr>ndpi_in := ndpi_in f @ [opt]\<rparr>)
                else (1, opt, f))"

definition NDPI_HOSTNAME_MAX :: nat where "NDPI_HOSTNAME_MAX = 128"
definition NDPI_HOST_PROTOCOLS :: string where "NDPI_HOST_PROTOCOLS = ''tls,quic,http,dns''"

definition bad_host_char :: "char \<Rightarrow> bool" where
  "bad_host_char c \<longleftrightarrow> (of_char c :: nat) \<le> 32 \<or> 126 < (of_char c :: nat) \<or>
     c = CHR 34 \<or> c = CHR 39 \<or> c = CHR 92 \<or> c = CHR ''<'' \<or> c = CHR ''>'' \<or> c = CHR ''|''"

definition ipt_ndpi_host :: "string \<Rightarrow> string \<Rightarrow> nat \<Rightarrow> bool \<times> string" where
  "ipt_ndpi_host v opt sz =
     (if v = [] \<or> opt = [] then (False, opt)
      else if NDPI_HOSTNAME_MAX \<le> length v then (False, opt)
      else if list_ex bad_host_char v then (False, opt)
      else if sz - length opt \<le> length ('' --host '' @ v) then (False, opt)
      else (True, opt @ '' --host '' @ v))"

fun host_protocols_loop :: "ndpi_table option \<Rightarrow> nat \<Rightarrow> string list \<Rightarrow> string \<Rightarrow> string" where
  "host_protocols_loop tab sz [] out = out"
| "host_protocols_loop tab sz (name # names) out =
     (if sz \<le> length out then out
      else if ndpi_proto_dissector tab name \<noteq> 1 then host_protocols_loop tab sz names out
      else host_protocols_loop tab sz names (out @ (if out = [] then [] else '','') @ name))"

definition ndpi_host_protocols :: "ndpi_table option \<Rightarrow> nat \<Rightarrow> string" where
  "ndpi_host_protocols tab sz = host_protocols_loop tab sz (split_on (CHR '','') NDPI_HOST_PROTOCOLS) []"

definition ipt_ndpi_inprogress :: "fwenv \<Rightarrow> string \<Rightarrow> nat \<Rightarrow> string" where
  "ipt_ndpi_inprogress e v sz =
     (if v = [] then []
      else
        let v = (if v = ''all'' then ndpi_host_protocols (ndpi_tab e) 64 else v);
            opt = '' -m ndpi --inprogress '' @ v
        in if v = [] then []
           else if \<not> fst (ndpi_proto_list_dissector (ndpi_tab e) v) then []
           else if sz \<le> length opt then [] else opt)"

subsection \<open>What the helpers write\<close>

lemma ipt_write_out [simp]: "out4 (ipt_write l f) = out4 f @ [l]" "out6 (ipt_write l f) = out6 f"
  by (simp_all add: ipt_write_def)

lemma ip6t_write_out: "out4 (ip6t_write l f) = out4 f" "out6 (ip6t_write l f) = out6 f @ [l]"
  by (simp_all add: ip6t_write_def)

lemma ip46t_write_out:
  "out4 (ip46t_write b l f) = out4 f @ [l]" "out6 (ip46t_write b l f) = out6 f @ (if b then [l] else [])"
  by (simp_all add: ip46t_write_def ipt_write_def ip6t_write_def Let_def)

lemma ip46t_flagged_write_out:
  "out4 (ip46t_flagged_write b k l f) = out4 f @ (if k AND IPT_V4 \<noteq> 0 then [l] else [])"
  by (simp add: ip46t_flagged_write_def ip6t_write_out Let_def)

lemma ipt_ndpi_out [simp]: "out4 (snd (snd (ipt_ndpi e v n f))) = out4 f" "out6 (snd (snd (ipt_ndpi e v n f))) = out6 f"
  by (simp_all add: ipt_ndpi_def modprobe_def Let_def)

lemma out4_foldl:
  "(\<And>f x. out4 (g f x) = out4 f @ h x) \<Longrightarrow> out4 (foldl g f xs) = out4 f @ concat (map h xs)"
  by (induction xs arbitrary: f) simp_all

text \<open>The rules of a chain in a file of rules, and the chains that it declares.\<close>

definition chain_rules :: "string \<Rightarrow> ipt_line list \<Rightarrow> string list" where
  "chain_rules c ls = concat (map (\<lambda>l. case l of Append d t \<Rightarrow> if d = c then [t] else [] | _ \<Rightarrow> []) ls)"

lemma chain_rules_simps [simp]:
  "chain_rules c [] = []" "chain_rules c (xs @ ys) = chain_rules c xs @ chain_rules c ys"
  "chain_rules c (Append d t # ls) = (if d = c then t # chain_rules c ls else chain_rules c ls)"
  "chain_rules c (Chain d # ls) = chain_rules c ls" "chain_rules c (Insert t # ls) = chain_rules c ls"
  by (simp_all add: chain_rules_def)

definition declared_chains :: "ipt_line list \<Rightarrow> string list" where
  "declared_chains ls = concat (map (\<lambda>l. case l of Chain c \<Rightarrow> [c] | _ \<Rightarrow> []) ls)"

lemma declared_chains_simps [simp]:
  "declared_chains [] = []" "declared_chains (xs @ ys) = declared_chains xs @ declared_chains ys"
  "declared_chains (Chain c # ls) = c # declared_chains ls" "declared_chains (Append d t # ls) = declared_chains ls"
  by (simp_all add: declared_chains_def)

lemma out4_write_all [simp]: "out4 (foldl (\<lambda>f l. ipt_write l f) f ls) = out4 f @ ls"
  by (induction ls arbitrary: f) simp_all

end
