(* ===== verification/Forward.thy ===== *)
theory Forward
  imports Iptables
begin

section \<open>Port forwarding\<close>

text \<open>
  \<^verbatim>\<open>rc/forward.c\<close>: the rules for forwarded and triggered ports.  \<^verbatim>\<open>ipt_forward\<close> runs twice, once while the
  table \<^verbatim>\<open>nat\<close> is written and once while the table \<^verbatim>\<open>filter\<close> is.
\<close>

datatype ipt_table = IPT_TABLE_NAT | IPT_TABLE_FILTER

definition chain_wan_prerouting :: string where "chain_wan_prerouting = ''WANPREROUTING''"

definition tcpudp :: "string list" where "tcpudp = [''tcp'', ''udp'']"

definition mdport :: "string \<Rightarrow> string" where
  "mdport ports = (if CHR '','' \<in> set ports then ''-m multiport --dports'' else ''--dport'')"

text \<open>The protocols of a rule: bits of the first digit.\<close>

definition proto_bits :: "string \<Rightarrow> string list" where
  "proto_bits proto = map (\<lambda>i. tcpudp ! i) (filter (\<lambda>i. bit (of_char (hd0 proto) - 48 :: int) i) [0, 1])"







subsection \<open>Triggered ports\<close>

fun replace_first :: "char \<Rightarrow> char \<Rightarrow> string \<Rightarrow> string" where
  "replace_first c d [] = []"
| "replace_first c d (x # s) = (if x = c then d # s else x # replace_first c d s)"

text \<open>
  The loop over the protocols of an entry: \<^verbatim>\<open>fports\<close> is changed in place, so that the second protocol sees
  what the first has left.
\<close>

fun trigger_protos :: "string list \<Rightarrow> string \<Rightarrow> string \<Rightarrow> bool \<times> fw \<Rightarrow> bool \<times> fw" where
  "trigger_protos [] mports fports s = s"
| "trigger_protos (c # cs) mports fports (first, f) =
     (let f = (if first
               then ipt_write (Append ''wanin'' ''-j TRIGGER --trigger-type in'')
                      (ipt_write (Append ''wanout'' ''-j triggers'') (ipt_write (Chain ''triggers'') f))
               else f);
          s = replace_first (CHR '':'') (CHR ''-'') (strlcpy mports 256);
          fports = replace_first (CHR '':'') (CHR ''-'') fports;
          f = ipt_write (Append ''triggers''
                (''-p '' @ c @ '' -m '' @ c @ '' --dport '' @ mports @
                 '' -j TRIGGER --trigger-type out --trigger-proto '' @ c @ '' --trigger-match '' @ s @ '' --trigger-relate '' @ fports)) f
      in trigger_protos cs mports fports (False, f))"

definition trigger_fields :: "string \<Rightarrow> (string list \<times> string \<times> string) option" where
  "trigger_fields b =
     (case vstrsep b (CHR ''<'') 4 of
        [c, proto, mports, fports] \<Rightarrow> if hd0 c = CHR ''1'' then Some (proto_bits proto, mports, fports) else None
      | _ \<Rightarrow> None)"

fun trigger_entries :: "ipt_table \<Rightarrow> string list \<Rightarrow> bool \<times> fw \<Rightarrow> fw" where
  "trigger_entries table [] s = snd s"
| "trigger_entries table (b # bs) s =
     (case trigger_fields b of
        None \<Rightarrow> trigger_entries table bs s
      | Some (cs, mports, fports) \<Rightarrow>
          if cs \<noteq> [] \<and> table = IPT_TABLE_NAT
          then ipt_write (Append chain_wan_prerouting ''-j TRIGGER --trigger-type dnat'') (snd s)
          else trigger_entries table bs (trigger_protos cs mports fports s))"

definition ipt_triggered :: "fwenv \<Rightarrow> ipt_table \<Rightarrow> fw \<Rightarrow> fw" where
  "ipt_triggered e table f =
     trigger_entries table (split_on (CHR ''>'') (nvram_safe_get (fw_nv e) ''trigforward'')) (True, f)"

subsection \<open>Forwarding for IPv6\<close>

definition forward6_rule :: "fwenv \<Rightarrow> string \<Rightarrow> string \<Rightarrow> string \<Rightarrow> fw \<Rightarrow> string \<Rightarrow> fw" where
  "forward6_rule e src daddr dports f c =
     ip6t_write (Append ''wanin''
       (src @ '' -p '' @ c @ '' -m '' @ c @ '' '' @ (if daddr \<noteq> [] then ''-d '' else []) @ daddr @ '' '' @
        mdport dports @ '' '' @ dports @ '' -j '' @ chain_in_accept e)) f"

definition forward6_entry :: "fwenv \<Rightarrow> fw \<Rightarrow> string \<Rightarrow> fw" where
  "forward6_entry e f b =
     (case vstrsep b (CHR ''<'') 6 of
        [c, proto, saddr, daddr, dports, desc] \<Rightarrow>
          if hd0 c \<noteq> CHR ''1'' then f
          else
            let (ok, src) = ipt_addr e 128 saddr ''src'' IPT_V6 True
            in if ok = 0 then f
               else if fst (ipt_addr e 128 daddr ''dst'' IPT_V6 True) = 0 then f
               else foldl (forward6_rule e src daddr dports) f (proto_bits proto)
      | _ \<Rightarrow> f)"

definition ip6t_forward :: "fwenv \<Rightarrow> fw \<Rightarrow> fw" where
  "ip6t_forward e f = foldl (forward6_entry e) f (split_on (CHR ''>'') (nvram_safe_get (fw_nv e) ''ipv6_portforward''))"

subsection \<open>What is forwarded\<close>














subsection \<open>Properties\<close>


text \<open>An IPv6 range is accepted as a destination and written in a form that \<^verbatim>\<open>ip6tables\<close> refuses.  The check with
  \<^verbatim>\<open>ipt_addr\<close> lets a range pass, for which the match has to be \<^verbatim>\<open>-m iprange --dst-range\<close>, but the rule has the
  text of the field after \<^verbatim>\<open>-d\<close>.\<close>

theorem range_written_as_address:
  "map show_line (out6 (ip6t_forward
     \<lparr>ipv6_enabled = True, wan6face = ''eth0'', wanfaces = [], chain_in_accept = ''ACCEPT'', chain_out_drop = ''DROP'', chain_out_reject = ''REJECT'',
      ndpi_tab = None, getaddrinfo = (\<lambda>_ _. None), fw_nv = [''ipv6_portforward'' \<mapsto> ''1<1<<2001:db8::1-2001:db8::9<80<www'']\<rparr>
     \<lparr>out4 = [], out6 = [], ndpi_in = [], modules = []\<rparr>)) =
   [''-A wanin  -p tcp -m tcp -d 2001:db8::1-2001:db8::9 --dport 80 -j ACCEPT'']"
  by code_simp

end
