(* ===== verification/Restrict.thy ===== *)
theory Restrict
  imports Iptables
begin

section \<open>Access restrictions\<close>

text \<open>
  \<^verbatim>\<open>rc/restrict.c\<close>: rules that block devices, protocols or the wireless radio at certain times of the week.
  \<^verbatim>\<open>ipt_restrictions\<close> writes the chains of all enabled rules while the firewall is built; \<^verbatim>\<open>rcheck_main\<close>, run
  every fifteen minutes by \<^verbatim>\<open>cron\<close>, adds or removes the jump to the chain of a rule when its time begins or
  ends, and keeps in \<^verbatim>\<open>rrules_activated\<close> which rules are active.  Rule \<open>n\<close> is the variable \<^verbatim>\<open>rrule\<close>\<open>n\<close> with
  eight fields between bars: enabled, begin and end in minutes, days, devices, matches, web words and
  web file types.
\<close>

definition MAX_NRULES :: nat where "MAX_NRULES = 50"
definition Y2K :: int where "Y2K = 946684800"

subsection \<open>Time\<close>

definition in_sched :: "int \<Rightarrow> int \<Rightarrow> int \<Rightarrow> int \<Rightarrow> int \<Rightarrow> bool" where
  "in_sched now_mins now_dow sched_begin sched_end sched_dow =
     (if sched_begin < 0 \<or> sched_end < 0 then sched_dow AND now_dow \<noteq> 0
      else if sched_begin < sched_end then
        sched_dow AND now_dow \<noteq> 0 \<and> sched_begin \<le> now_mins \<and> now_mins < sched_end
      else if now_dow AND sched_dow \<noteq> 0 \<and> sched_begin \<le> now_mins then True
      else
        let now_dow = (if now_dow = 1 then push_bit 6 1 else drop_bit 1 now_dow)
        in now_dow AND sched_dow \<noteq> 0 \<and> now_mins < sched_end)"

subsection \<open>Checking the time\<close>

text \<open>\<^verbatim>\<open>sscanf(p, "%d|%d|%d|%d|%c", ...)\<close>: four numbers and the first character of the devices.\<close>

definition scan_bar :: "string \<Rightarrow> string option" where
  "scan_bar s = (if hd0 s = CHR ''|'' then Some (tl s) else None)"

record rule_time =
  rt_on :: int
  sched_begin :: int
  sched_end :: int
  sched_dow :: int
  rt_comp :: char

definition parse_rule_time :: "string \<Rightarrow> rule_time option" where
  "parse_rule_time p =
     Option.bind (scan_num p) (\<lambda>(n, p). Option.bind (scan_bar p) (\<lambda>p.
     Option.bind (scan_num p) (\<lambda>(b, p). Option.bind (scan_bar p) (\<lambda>p.
     Option.bind (scan_num p) (\<lambda>(e, p). Option.bind (scan_bar p) (\<lambda>p.
     Option.bind (scan_num p) (\<lambda>(d, p). Option.bind (scan_bar p) (\<lambda>p.
     if p = [] then None
     else Some \<lparr>rt_on = n, sched_begin = b, sched_end = e, sched_dow = d, rt_comp = hd p\<rparr>))))))))"

definition rrule_name :: "nat \<Rightarrow> string" where
  "rrule_name n = ''rrule'' @ show_nat n"

text \<open>The rules that take part: parsed and enabled.\<close>

definition timed_rule :: "nvram \<Rightarrow> nat \<Rightarrow> rule_time option" where
  "timed_rule nv nrule =
     (case nv (rrule_name nrule) of
        None \<Rightarrow> None
      | Some p \<Rightarrow> (case parse_rule_time p of None \<Rightarrow> None | Some t \<Rightarrow> if rt_on t = 0 then None else Some t))"

definition show2 :: "nat \<Rightarrow> string" where
  "show2 n = (if n < 10 then CHR ''0'' # show_nat n else show_nat n)"

definition rule_chain :: "nat \<Rightarrow> char \<Rightarrow> string" where
  "rule_chain nrule c = CHR ''r'' # (if c \<noteq> CHR ''|'' then ''dev'' else ''res'') @ show2 nrule"

text \<open>
  Whether a rule is to be active: \<open>None\<close> when the clock is not set and the rule is not for all times,
  in which case the rule is passed over.
\<close>

definition rule_wanted :: "int \<Rightarrow> int \<Rightarrow> int \<Rightarrow> rule_time \<Rightarrow> bool option" where
  "rule_wanted now now_mins now_dow t =
     (if now < Y2K then
        if 0 \<le> sched_begin t \<or> 0 \<le> sched_end t \<or> sched_dow t \<noteq> 0x7F then None else Some True
      else Some (in_sched now_mins now_dow (sched_begin t) (sched_end t) (sched_dow t)))"

text \<open>
  The state of the loop.  The packet filter is a state of its own; \<open>ipt_del\<close> and \<open>ipt_add\<close> run
  \<^verbatim>\<open>iptables -D restrict -j\<close> and \<^verbatim>\<open>iptables -A restrict -j\<close> with a chain and return the exit status.
\<close>

record 'k rcheck =
  rc_kernel :: 'k
  activated :: u64
  rc_count :: nat
  rc_radio :: int
  ipt_active :: nat

type_synonym 'k iptables = "string \<Rightarrow> 'k \<Rightarrow> int \<times> 'k"

text \<open>
  One rule.  \<open>None\<close> is the shift of a 32-bit 1 by 31 or more places, which has no defined result.
\<close>

definition rcheck_rule :: "'k iptables \<Rightarrow> 'k iptables \<Rightarrow> nvram \<Rightarrow> int \<Rightarrow> int \<Rightarrow> int \<Rightarrow> nat \<Rightarrow> 'k rcheck \<Rightarrow> 'k rcheck option" where
  "rcheck_rule ipt_del ipt_add nv now now_mins now_dow nrule s =
     (case timed_rule nv nrule of
        None \<Rightarrow> Some s
      | Some t \<Rightarrow>
          let s = s\<lparr>rc_count := rc_count s + 1\<rparr>
          in case rule_wanted now now_mins now_dow t of
               None \<Rightarrow> Some s
             | Some insch \<Rightarrow>
                 let s = (if insch \<and> rt_comp t \<noteq> CHR ''~'' then s\<lparr>ipt_active := ipt_active s + 1\<rparr> else s)
                 in if 31 \<le> nrule then None
                    else if insch = bit (activated s) nrule then Some s
                    else
                      let (r, s) =
                        (if rt_comp t = CHR ''~'' then
                           (0, if rc_radio s \<noteq> 0 \<and> rc_radio s \<noteq> - 2 then s\<lparr>rc_radio := if insch then 0 else 1\<rparr> else s)
                         else
                           let chain = rule_chain nrule (rt_comp t);
                               (r, k) = ipt_del chain (rc_kernel s);
                               (r, k) = (if insch then ipt_add chain k else (r, k))
                           in (r, s\<lparr>rc_kernel := k\<rparr>))
                      in if r \<noteq> 0 then Some s
                         else Some (s\<lparr>activated := (if insch then set_bit nrule (activated s) else unset_bit nrule (activated s))\<rparr>))"

fun rcheck_rules :: "'k iptables \<Rightarrow> 'k iptables \<Rightarrow> nvram \<Rightarrow> int \<Rightarrow> int \<Rightarrow> int \<Rightarrow> nat list \<Rightarrow> 'k rcheck \<Rightarrow> 'k rcheck option" where
  "rcheck_rules ipt_del ipt_add nv now now_mins now_dow [] s = Some s"
| "rcheck_rules ipt_del ipt_add nv now now_mins now_dow (n # ns) s =
     Option.bind (rcheck_rule ipt_del ipt_add nv now now_mins now_dow n s) (rcheck_rules ipt_del ipt_add nv now now_mins now_dow ns)"

text \<open>
  The program.  \<open>radio_on\<close> tells whether a wireless interface has its radio enabled, \<open>cron\<close> whether it
  was started by \<^verbatim>\<open>cron\<close>; \<open>radio_cmd\<close> is the argument of the command \<^verbatim>\<open>radio\<close>, if it is run, and \<open>fastnat\<close> what
  \<^verbatim>\<open>allow_fastnat\<close> is told.
\<close>

record 'k rsys =
  s_kernel :: 'k
  s_nv :: nvram
  s_cron :: "string \<Rightarrow> string option"
  radio_cmd :: "bool option"
  fastnat :: bool

definition start_activated :: "nvram \<Rightarrow> u64" where
  "start_activated nv = of_nat (read_hex (nvram_safe_get nv ''rrules_activated''))"

definition rcheck_main :: "'k iptables \<Rightarrow> 'k iptables \<Rightarrow> int \<Rightarrow> ltime \<Rightarrow> bool \<Rightarrow> bool \<Rightarrow> 'k rsys \<Rightarrow> 'k rsys option" where
  "rcheck_main ipt_del ipt_add now tms radio_on cron y =
     (let nv = (if now < Y2K \<and> \<not> nvram_match (s_nv y) ''rrules_timewarn'' ''1''
                then (s_nv y)(''rrules_timewarn'' \<mapsto> ''1'') else s_nv y);
          now_dow = (if now < Y2K then 0 else push_bit (lt_wday tms) 1);
          now_mins = (if now < Y2K then 0 else int (lt_hour tms) * 60 + int (lt_min tms));
          s = \<lparr>rc_kernel = s_kernel y, activated = start_activated nv, rc_count = 0,
               rc_radio = if radio_on then - 1 else - 2, ipt_active = 0\<rparr>
      in map_option
           (\<lambda>s. let nv = nv(''rrules_activated'' \<mapsto> show_hex (unat (activated s)));
                     nv = (if 0 \<le> rc_radio s then nv(''rrules_radio'' \<mapsto> (if rc_radio s \<noteq> 0 then ''0'' else ''1'')) else nv)
                 in y\<lparr>s_kernel := rc_kernel s, s_nv := nv,
                      s_cron := (if 0 < rc_count s then
                                   if cron then s_cron y else (s_cron y)(''rcheck'' \<mapsto> ''*/15 * * * * rcheck --cron'')
                                 else (s_cron y)(''rcheck'' := None)),
                      radio_cmd := (if 0 \<le> rc_radio s then Some (rc_radio s \<noteq> 0) else radio_cmd y),
                      fastnat := (ipt_active s = 0)\<rparr>)
           (rcheck_rules ipt_del ipt_add nv now now_mins now_dow [0..<MAX_NRULES] s))"

subsection \<open>The chains of a rule\<close>






subsection \<open>Web words\<close>





definition http_file_types :: "int \<Rightarrow> string" where
  "http_file_types http_file =
     (let app = (if http_file AND 1 \<noteq> 0 then strlcat [] ''.ocx$ .cab$ '' 256 else []);
          app = (if http_file AND 2 \<noteq> 0 then strlcpy ''.swf$ '' 256 else app)
      in if http_file AND 4 \<noteq> 0 then strlcat app ''.class$ .jar$'' 256 else app)"



subsection \<open>Devices\<close>


subsection \<open>All rules\<close>







subsection \<open>Times of the week\<close>

text \<open>
  What a rule means: on each of its days a window opens at the begin and closes at the end, on the
  next day if the end does not come later; without begin or end the window is the whole day.
  Time runs in minutes of the week, from midnight before Sunday.
\<close>

definition window_begin :: "int \<Rightarrow> int \<Rightarrow> int" where
  "window_begin b e = (if b < 0 \<or> e < 0 then 0 else b)"

definition window_length :: "int \<Rightarrow> int \<Rightarrow> int" where
  "window_length b e = (if b < 0 \<or> e < 0 then 1440 else if b < e then e - b else 1440 - b + e)"

definition in_window :: "int \<Rightarrow> int \<Rightarrow> int \<Rightarrow> int \<Rightarrow> bool" where
  "in_window minute b e dow \<longleftrightarrow>
     (\<exists>d < 7. bit dow d \<and> (minute - (1440 * int d + window_begin b e)) mod 10080 < window_length b e)"

lemma days_between:
  assumes "w < 7" "d < 7" "0 \<le> m" "m < 1440" "0 \<le> x" "x < 1440" "0 < n" "n \<le> 1440"
  shows "(1440 * int w + m - (1440 * int d + x)) mod 10080 < n \<longleftrightarrow>
    (d = w \<and> x \<le> m \<and> m < x + n) \<or> (Suc d mod 7 = w \<and> m + 1440 < x + n)"
proof -
  let ?v = "1440 * (int w - int d) + (m - x)"
  have eq: "1440 * int w + m - (1440 * int d + x) = ?v"
    by (simp add: algebra_simps)
  consider "d = w" "x \<le> m" | "d = w" "m < x" | "d < w" | "w < d" by linarith
  then show ?thesis
  proof cases
    case 1
    then have "?v mod 10080 = m - x"
      using assms mod_pos_pos_trivial [of "m - x" 10080] by simp
    moreover have "Suc d mod 7 \<noteq> w"
      using 1 assms(1) by (cases "w = 6") auto
    ultimately show ?thesis
      unfolding eq using 1 by auto
  next
    case 2
    then have "?v mod 10080 = 10080 + (m - x)"
      using assms mod_pos_pos_trivial [of "10080 + (m - x)" 10080] by simp
    moreover have "Suc d mod 7 \<noteq> w"
      using 2 assms(1) by (cases "w = 6") auto
    ultimately show ?thesis
      unfolding eq using 2 assms by auto
  next
    case 3
    then have "?v mod 10080 = ?v"
      using assms by (intro mod_pos_pos_trivial) auto
    moreover have "Suc d mod 7 = w \<longleftrightarrow> w = Suc d"
      using 3 assms(1) by auto
    ultimately show ?thesis
      unfolding eq using 3 assms by (cases "w = Suc d") auto
  next
    case 4
    then have "?v mod 10080 = 10080 + ?v"
      using assms mod_pos_pos_trivial [of "10080 + ?v" 10080] by auto
    moreover have "Suc d mod 7 = w \<longleftrightarrow> d = 6 \<and> w = 0"
      using 4 assms(2) by (cases "d = 6") auto
    ultimately show ?thesis
      unfolding eq using 4 assms by auto
  qed
qed

lemma dow_bit: "dow AND push_bit w 1 \<noteq> 0 \<longleftrightarrow> bit dow w" for dow :: int
  by (simp add: push_bit_eq_mult and_exp_eq_0_iff_not_bit)

definition yesterday :: "nat \<Rightarrow> nat" where
  "yesterday w = (w + 6) mod 7"

lemma rotate_dow: "w < 7 \<Longrightarrow> (if push_bit w 1 = (1 :: int) then push_bit 6 1 else drop_bit 1 (push_bit w 1)) = push_bit (yesterday w) (1 :: int)"
proof -
  assume "w < 7"
  then have "w \<in> {0, 1, 2, 3, 4, 5, 6}" by auto
  then show ?thesis
    by (auto simp: yesterday_def push_bit_eq_mult drop_bit_eq_div)
qed

lemma yesterday_iff: "w < 7 \<Longrightarrow> d < 7 \<Longrightarrow> Suc d mod 7 = w \<longleftrightarrow> d = yesterday w"
  by (auto simp: yesterday_def) presburger+

lemma in_sched_bits:
  assumes "w < 7"
  shows "in_sched m (push_bit w 1) b e dow \<longleftrightarrow>
    (if b < 0 \<or> e < 0 then bit dow w
     else if b < e then bit dow w \<and> b \<le> m \<and> m < e
     else bit dow w \<and> b \<le> m \<or> bit dow (yesterday w) \<and> m < e)"
  unfolding in_sched_def Let_def rotate_dow [OF assms] and.commute [of "push_bit _ _"] dow_bit by auto

lemma in_sched_window:
  assumes "w < 7" "0 \<le> m" "m < 1440" "b < 1440" "e < 1440"
  shows "in_sched m (push_bit w 1) b e dow \<longleftrightarrow> in_window (1440 * int w + m) b e dow"
proof -
  have x: "0 \<le> window_begin b e" "window_begin b e < 1440" "0 < window_length b e" "window_length b e \<le> 1440"
    using assms by (auto simp: window_begin_def window_length_def)
  have y: "yesterday w < 7" by (simp add: yesterday_def)
  have "in_window (1440 * int w + m) b e dow \<longleftrightarrow>
      bit dow w \<and> window_begin b e \<le> m \<and> m < window_begin b e + window_length b e \<or>
      bit dow (yesterday w) \<and> m + 1440 < window_begin b e + window_length b e"
    unfolding in_window_def using assms x y
    by (auto simp: days_between yesterday_iff)
  then show ?thesis
    unfolding in_sched_bits [OF assms(1)] using assms by (auto simp: window_begin_def window_length_def)
qed

subsection \<open>The jumps of the chain\<close>

text \<open>
  What \<^verbatim>\<open>rcheck\<close> relies on: \<^verbatim>\<open>iptables -A\<close> appends a jump, \<^verbatim>\<open>iptables -D\<close> deletes the first jump to a chain and
  fails when there is none.
\<close>

definition reliable_iptables :: "('k \<Rightarrow> string list) \<Rightarrow> 'k iptables \<Rightarrow> 'k iptables \<Rightarrow> bool" where
  "reliable_iptables jumps ipt_del ipt_add \<longleftrightarrow>
     (\<forall>c k. fst (ipt_add c k) = 0 \<and> jumps (snd (ipt_add c k)) = jumps k @ [c] \<and>
        jumps (snd (ipt_del c k)) = remove1 c (jumps k) \<and> (fst (ipt_del c k) = 0 \<longleftrightarrow> c \<in> set (jumps k)))"

definition jumps_match :: "('k \<Rightarrow> string list) \<Rightarrow> nvram \<Rightarrow> 'k \<Rightarrow> u64 \<Rightarrow> bool" where
  "jumps_match jumps nv k act \<longleftrightarrow> distinct (jumps k) \<and>
     (\<forall>i < MAX_NRULES. \<forall>t. timed_rule nv i = Some t \<longrightarrow> rt_comp t \<noteq> CHR ''~'' \<longrightarrow>
        (rule_chain i (rt_comp t) \<in> set (jumps k) \<longleftrightarrow> bit act i))"

lemma read_nat_show2: "read_nat (show2 n) = n"
proof (cases "n < 10")
  case True
  have "takeWhile isdigit (CHR ''0'' # show_nat n) = CHR ''0'' # show_nat n"
    using show_nat_digits by (intro takeWhile_all) (auto simp: isdigit_def)
  moreover have "digits_value (CHR ''0'' # show_nat n) = digits_value (show_nat n)"
    by (simp add: digits_value_def)
  ultimately show ?thesis
    using True by (simp add: show2_def read_nat_def)
next
  case False
  then show ?thesis by (simp add: show2_def)
qed

lemma rule_chain_inject: "rule_chain i c = rule_chain j d \<Longrightarrow> i = j"
  by (auto simp: rule_chain_def split: if_splits) (metis read_nat_show2)+

text \<open>What becomes of the bit of a rule.\<close>

definition next_bit :: "nvram \<Rightarrow> int \<Rightarrow> int \<Rightarrow> int \<Rightarrow> nat \<Rightarrow> bool \<Rightarrow> bool" where
  "next_bit nv now mins dow i old =
     (case timed_rule nv i of
        None \<Rightarrow> old
      | Some t \<Rightarrow> (case rule_wanted now mins dow t of None \<Rightarrow> old | Some b \<Rightarrow> b))"

lemma bit_update:
  "i < 64 \<Longrightarrow> bit (set_bit n w) i \<longleftrightarrow> n = i \<or> bit w i" "bit (unset_bit n w) i \<longleftrightarrow> n \<noteq> i \<and> bit w i" for w :: u64
  by (auto simp: bit_set_bit_iff bit_unset_bit_iff)

lemma jumps_match_update:
  assumes "jumps_match jumps nv k act" "n < 31" "timed_rule nv n = Some t" "rt_comp t \<noteq> CHR ''~''"
    "b \<noteq> bit act n" "jumps k' = (if b then jumps k @ [rule_chain n (rt_comp t)] else remove1 (rule_chain n (rt_comp t)) (jumps k))"
  shows "jumps_match jumps nv k' (if b then set_bit n act else unset_bit n act)"
  unfolding jumps_match_def
proof (intro conjI allI impI)
  let ?c = "rule_chain n (rt_comp t)"
  have d: "distinct (jumps k)" "?c \<in> set (jumps k) \<longleftrightarrow> bit act n"
    using assms(1-4) by (auto simp: jumps_match_def MAX_NRULES_def)
  then show "distinct (jumps k')"
    using assms(5,6) by auto
  fix i u
  assume i: "i < MAX_NRULES" "timed_rule nv i = Some u" "rt_comp u \<noteq> CHR ''~''"
  then have old: "rule_chain i (rt_comp u) \<in> set (jumps k) \<longleftrightarrow> bit act i"
    using assms(1) by (auto simp: jumps_match_def)
  have "rule_chain i (rt_comp u) = ?c \<longleftrightarrow> i = n"
    using rule_chain_inject i(2) assms(3) by fastforce
  then show "rule_chain i (rt_comp u) \<in> set (jumps k') \<longleftrightarrow> bit (if b then set_bit n act else unset_bit n act) i"
    using old d i(1) assms(2,5,6) by (auto simp: bit_update MAX_NRULES_def in_set_remove1)
qed

lemma jumps_match_radio:
  assumes "jumps_match jumps nv k act" "n < 31" "timed_rule nv n = Some t" "rt_comp t = CHR ''~''"
  shows "jumps_match jumps nv k (if b then set_bit n act else unset_bit n act)"
  using assms by (auto simp: jumps_match_def bit_update MAX_NRULES_def)

lemma rcheck_rule_correct:
  assumes "reliable_iptables jumps ipt_del ipt_add" "jumps_match jumps nv (rc_kernel s) (activated s)"
    "timed_rule nv n \<noteq> None \<longrightarrow> n < 31"
  shows "\<exists>s'. rcheck_rule ipt_del ipt_add nv now mins dow n s = Some s' \<and> jumps_match jumps nv (rc_kernel s') (activated s') \<and>
    (\<forall>i < 64. bit (activated s') i \<longleftrightarrow> (if i = n then next_bit nv now mins dow n (bit (activated s) i) else bit (activated s) i))"
proof (cases "timed_rule nv n")
  case None
  then show ?thesis
    using assms(2) by (auto simp: rcheck_rule_def next_bit_def)
next
  case t: (Some t)
  show ?thesis
  proof (cases "rule_wanted now mins dow t")
    case None
    then show ?thesis
      using t assms(2) by (auto simp: rcheck_rule_def next_bit_def Let_def)
  next
    case (Some b)
    have n: "n < 31" using assms(3) t by simp
    let ?act = "if b then set_bit n (activated s) else unset_bit n (activated s)"
    have nb: "next_bit nv now mins dow n old = b" for old
      using t Some by (simp add: next_bit_def)
    have new: "\<forall>i < 64. bit ?act i \<longleftrightarrow> (if i = n then b else bit (activated s) i)"
      by (auto simp: bit_update)
    consider (same) "b = bit (activated s) n" | (radio) "b \<noteq> bit (activated s) n" "rt_comp t = CHR ''~''"
      | (chain) "b \<noteq> bit (activated s) n" "rt_comp t \<noteq> CHR ''~''" by blast
    then show ?thesis
    proof cases
      case same
      then show ?thesis
        using t Some n assms(2) by (auto simp: rcheck_rule_def nb Let_def)
    next
      case radio
      then show ?thesis
        using t Some n new jumps_match_radio [OF assms(2) n t, of b]
        by (auto simp: rcheck_rule_def nb Let_def)
    next
      case chain
      let ?c = "rule_chain n (rt_comp t)"
      have c: "?c \<in> set (jumps (rc_kernel s)) \<longleftrightarrow> bit (activated s) n"
        using assms(2) t chain(2) n by (auto simp: jumps_match_def MAX_NRULES_def)
      obtain r k where d: "ipt_del ?c (rc_kernel s) = (r, k)" by (cases "ipt_del ?c (rc_kernel s)")
      obtain r' k' where a: "ipt_add ?c k = (r', k')" by (cases "ipt_add ?c k")
      have j: "r = 0 \<longleftrightarrow> ?c \<in> set (jumps (rc_kernel s))" "jumps k = remove1 ?c (jumps (rc_kernel s))" "r' = 0" "jumps k' = jumps k @ [?c]"
        using assms(1) d a unfolding reliable_iptables_def by (metis fst_conv snd_conv)+
      have "jumps_match jumps nv (if b then k' else k) ?act"
        using chain c j by (intro jumps_match_update [OF assms(2) n t]) (auto simp: remove1_idem)
      moreover have "rcheck_rule ipt_del ipt_add nv now mins dow n s =
          Some (s\<lparr>rc_count := rc_count s + 1, ipt_active := ipt_active s + (if b then 1 else 0), rc_kernel := if b then k' else k, activated := ?act\<rparr>)"
        using t Some n chain c j d a by (auto simp: rcheck_rule_def Let_def)
      ultimately show ?thesis
        using new nb by simp
    qed
  qed
qed

lemma rcheck_rules_correct:
  assumes "reliable_iptables jumps ipt_del ipt_add" "\<forall>n \<in> set ns. timed_rule nv n \<noteq> None \<longrightarrow> n < 31" "distinct ns"
    "jumps_match jumps nv (rc_kernel s) (activated s)"
  shows "\<exists>s'. rcheck_rules ipt_del ipt_add nv now mins dow ns s = Some s' \<and> jumps_match jumps nv (rc_kernel s') (activated s') \<and>
    (\<forall>i < 64. bit (activated s') i \<longleftrightarrow> (if i \<in> set ns then next_bit nv now mins dow i (bit (activated s) i) else bit (activated s) i))"
  using assms(2-4)
proof (induction ns arbitrary: s)
  case Nil
  then show ?case by simp
next
  case (Cons n ns)
  obtain s1 where s1: "rcheck_rule ipt_del ipt_add nv now mins dow n s = Some s1" "jumps_match jumps nv (rc_kernel s1) (activated s1)"
      "\<forall>i < 64. bit (activated s1) i \<longleftrightarrow> (if i = n then next_bit nv now mins dow n (bit (activated s) i) else bit (activated s) i)"
    using rcheck_rule_correct [OF assms(1) Cons.prems(3)] Cons.prems(1) by (metis list.set_intros(1))
  from Cons.IH [OF _ _ s1(2)] Cons.prems obtain s' where
    "rcheck_rules ipt_del ipt_add nv now mins dow ns s1 = Some s'" "jumps_match jumps nv (rc_kernel s') (activated s')"
      "\<forall>i < 64. bit (activated s') i \<longleftrightarrow> (if i \<in> set ns then next_bit nv now mins dow i (bit (activated s1) i) else bit (activated s1) i)"
    by auto
  then show ?case
    using s1 Cons.prems(2) by auto
qed

lemma rrule_name_other: "rrule_name i \<noteq> ''rrules_'' @ x"
proof
  assume "rrule_name i = ''rrules_'' @ x"
  then obtain r where "show_nat i = CHR ''s'' # r"
    by (auto simp: rrule_name_def)
  then show False
    using show_nat_digits [of "CHR ''s''" i] by (simp add: isdigit_def)
qed

lemma timed_rule_upd [simp]: "timed_rule (nv(''rrules_'' @ x := v)) i = timed_rule nv i"
  using rrule_name_other [of i x] by (simp add: timed_rule_def)

lemmas timed_rule_state [simp] =
  timed_rule_upd [of _ "''activated''", simplified] timed_rule_upd [of _ "''radio''", simplified]
  timed_rule_upd [of _ "''timewarn''", simplified]

lemma start_activated_upd [simp]:
  "start_activated (nv(''rrules_activated'' \<mapsto> show_hex (unat a))) = a"
  "start_activated (nv(''rrules_radio'' \<mapsto> v)) = start_activated nv"
  "start_activated (nv(''rrules_timewarn'' \<mapsto> v)) = start_activated nv"
  by (simp_all add: start_activated_def nvram_safe_get_def)

text \<open>The state between two runs: the stored bits tell which rules are linked.\<close>

definition consistent :: "('k \<Rightarrow> string list) \<Rightarrow> 'k rsys \<Rightarrow> bool" where
  "consistent jumps y \<longleftrightarrow> jumps_match jumps (s_nv y) (s_kernel y) (start_activated (s_nv y))"

lemma jumps_match_upd [simp]:
  "jumps_match jumps (nv(''rrules_activated'' := v)) k a = jumps_match jumps nv k a"
  "jumps_match jumps (nv(''rrules_radio'' := v)) k a = jumps_match jumps nv k a"
  "jumps_match jumps (nv(''rrules_timewarn'' := v)) k a = jumps_match jumps nv k a"
  by (simp_all add: jumps_match_def)

lemma rcheck_main_correct:
  assumes "reliable_iptables jumps ipt_del ipt_add" "consistent jumps y"
    "\<forall>n < MAX_NRULES. timed_rule (s_nv y) n \<noteq> None \<longrightarrow> n < 31" "Y2K \<le> now"
  shows "\<exists>y'. rcheck_main ipt_del ipt_add now tms radio_on cron y = Some y' \<and> consistent jumps y' \<and>
    (\<forall>i. timed_rule (s_nv y') i = timed_rule (s_nv y) i) \<and>
    (\<forall>i < MAX_NRULES. bit (start_activated (s_nv y')) i \<longleftrightarrow>
      next_bit (s_nv y) now (int (lt_hour tms) * 60 + int (lt_min tms)) (push_bit (lt_wday tms) 1) i (bit (start_activated (s_nv y)) i))"
proof -
  let ?mins = "int (lt_hour tms) * 60 + int (lt_min tms)" and ?dow = "push_bit (lt_wday tms) (1 :: int)"
  let ?s = "\<lparr>rc_kernel = s_kernel y, activated = start_activated (s_nv y), rc_count = 0, rc_radio = if radio_on then - 1 else - 2, ipt_active = 0\<rparr>"
  obtain s' where s': "rcheck_rules ipt_del ipt_add (s_nv y) now ?mins ?dow [0..<MAX_NRULES] ?s = Some s'"
      "jumps_match jumps (s_nv y) (rc_kernel s') (activated s')"
      "\<forall>i < 64. bit (activated s') i \<longleftrightarrow> (if i < MAX_NRULES then next_bit (s_nv y) now ?mins ?dow i (bit (start_activated (s_nv y)) i)
        else bit (start_activated (s_nv y)) i)"
    using rcheck_rules_correct [OF assms(1), of "[0..<MAX_NRULES]" "s_nv y" ?s now ?mins ?dow] assms(2,3)
    by (auto simp: consistent_def)
  let ?nv = "(s_nv y)(''rrules_activated'' \<mapsto> show_hex (unat (activated s')))"
  let ?nv' = "if 0 \<le> rc_radio s' then ?nv(''rrules_radio'' \<mapsto> (if rc_radio s' \<noteq> 0 then ''0'' else ''1'')) else ?nv"
  obtain y' where y': "rcheck_main ipt_del ipt_add now tms radio_on cron y = Some y'" "s_kernel y' = rc_kernel s'" "s_nv y' = ?nv'"
    using assms(4) s'(1) by (auto simp: rcheck_main_def Let_def simp del: push_bit_of_1)
  have "start_activated (s_nv y') = activated s'" "timed_rule (s_nv y') = timed_rule (s_nv y)"
    by (auto simp: y'(3) fun_eq_iff)
  moreover have "consistent jumps y'"
    using s'(2) calculation(1) by (simp add: consistent_def y')
  moreover have "i < 64" if "i < MAX_NRULES" for i
    using that by (simp add: MAX_NRULES_def)
  ultimately show ?thesis
    using y'(1) s'(3) by auto
qed

subsection \<open>Declared chains\<close>

text \<open>
  What \<^verbatim>\<open>iptables-restore\<close> asks of the lines of a table, which it loads as a whole or not at all: a chain is
  declared once, rules are appended to chains that are there, and a chain is deleted only while it is empty.
  The state is the set of the chains and the set of those that have got rules.
\<close>

fun run_line :: "string set \<times> string set \<Rightarrow> ipt_line \<Rightarrow> (string set \<times> string set) option" where
  "run_line (D, U) (Chain c) = (if c \<in> D then None else Some (insert c D, U))"
| "run_line (D, U) (Unchain c) = (if c \<in> D \<and> c \<notin> U then Some (D - {c}, U) else None)"
| "run_line (D, U) (Append c t) = (if c \<in> D then Some (D, insert c U) else None)"
| "run_line (D, U) (Insert t) = Some (D, U)"

fun run_lines :: "string set \<times> string set \<Rightarrow> ipt_line list \<Rightarrow> (string set \<times> string set) option" where
  "run_lines s [] = Some s"
| "run_lines s (l # ls) = Option.bind (run_line s l) (\<lambda>s. run_lines s ls)"

lemma run_lines_append [simp]: "run_lines s (ls @ ls') = Option.bind (run_lines s ls) (\<lambda>s. run_lines s ls')"
  by (induction ls arbitrary: s) (auto simp: Option.bind_assoc split: Option.bind_split)









text \<open>A match writes rules for the chain, and nothing when it does not count.\<close>

definition quiet :: "fw \<Rightarrow> fw \<Rightarrow> bool" where
  "quiet f f' \<longleftrightarrow> out4 f' = out4 f \<and> out6 f' = out6 f"

lemma quiet_refl [simp]: "quiet f f"
  by (simp add: quiet_def)
































subsection \<open>Properties\<close>

text \<open>C20: the test of the time is right.  For every minute of the week, every set of days and every pair of begin
  and end, \<^verbatim>\<open>in_sched\<close> is true exactly when the minute lies in a window that opens on one of the days, also
  when the window runs over midnight or over the end of the week.\<close>

theorem in_sched_correct:
  assumes "w < 7" "0 \<le> m" "m < 1440" "b < 1440" "e < 1440"
  shows "in_sched m (push_bit w 1) b e dow \<longleftrightarrow> in_window (1440 * int w + m) b e dow"
  by (rule in_sched_window [OF assms])

theorem in_sched_correct_witness:
  "in_sched 30 (push_bit 0 1) 1320 60 0x40 \<longleftrightarrow> in_window (1440 * int 0 + 30) 1320 60 0x40"
  by (rule in_sched_correct) simp_all

text \<open>C1: after a run of \<^verbatim>\<open>rcheck\<close> with the clock set, the chain of a rule is linked exactly when the present minute
  lies in a window of the rule, and the stored bits tell again which rules are linked.  This holds as
  long as no rule with a number of 31 or more is in use, and \<^verbatim>\<open>iptables\<close> does what it is told.\<close>

theorem rcheck_links_rules:
  assumes "reliable_iptables jumps ipt_del ipt_add" "consistent jumps y"
    "\<forall>n < MAX_NRULES. timed_rule (s_nv y) n \<noteq> None \<longrightarrow> n < 31" "Y2K \<le> now"
    "lt_wday tms < 7" "lt_hour tms < 24" "lt_min tms < 60"
    "i < MAX_NRULES" "timed_rule (s_nv y) i = Some t" "rt_comp t \<noteq> CHR ''~''" "sched_begin t < 1440" "sched_end t < 1440"
  shows "\<exists>y'. rcheck_main ipt_del ipt_add now tms radio_on cron y = Some y' \<and> consistent jumps y' \<and>
    (rule_chain i (rt_comp t) \<in> set (jumps (s_kernel y')) \<longleftrightarrow>
      in_window (1440 * int (lt_wday tms) + (int (lt_hour tms) * 60 + int (lt_min tms))) (sched_begin t) (sched_end t) (sched_dow t))"
proof -
  let ?mins = "int (lt_hour tms) * 60 + int (lt_min tms)"
  obtain y' where y': "rcheck_main ipt_del ipt_add now tms radio_on cron y = Some y'" "consistent jumps y'"
      "\<forall>i. timed_rule (s_nv y') i = timed_rule (s_nv y) i"
      "\<forall>i < MAX_NRULES. bit (start_activated (s_nv y')) i \<longleftrightarrow>
        next_bit (s_nv y) now ?mins (push_bit (lt_wday tms) 1) i (bit (start_activated (s_nv y)) i)"
    using rcheck_main_correct [OF assms(1-4)] by blast
  have "rule_chain i (rt_comp t) \<in> set (jumps (s_kernel y')) \<longleftrightarrow> bit (start_activated (s_nv y')) i"
    using y'(2,3) assms(8-10) by (simp add: consistent_def jumps_match_def)
  also have "\<dots> \<longleftrightarrow> in_sched ?mins (push_bit (lt_wday tms) 1) (sched_begin t) (sched_end t) (sched_dow t)"
    using y'(4) assms(4,8,9) unfolding next_bit_def rule_wanted_def by simp
  also have "\<dots> \<longleftrightarrow> in_window (1440 * int (lt_wday tms) + ?mins) (sched_begin t) (sched_end t) (sched_dow t)"
    using assms(5-7,11,12) by (intro in_sched_window) auto
  finally show ?thesis
    using y'(1,2) by blast
qed

text \<open>An example: one rule for every night, and a list as packet filter.\<close>

definition night_rules :: nvram where
  "night_rules = [''rrule0'' \<mapsto> ''1|1320|360|127||||0'']"

definition night_rule :: rule_time where
  "night_rule = \<lparr>rt_on = 1, sched_begin = 1320, sched_end = 360, sched_dow = 127, rt_comp = CHR ''|''\<rparr>"

definition list_del :: "string list iptables" where
  "list_del c k = (if c \<in> set k then 0 else 1, remove1 c k)"

definition list_add :: "string list iptables" where
  "list_add c k = (0, k @ [c])"

lemma night_rules_timed: "timed_rule night_rules n = (if n = 0 then Some night_rule else None)"
proof (cases "n = 0")
  case True
  have "timed_rule night_rules 0 = Some night_rule" by code_simp
  with True show ?thesis by simp
next
  case False
  then have "rrule_name n \<noteq> ''rrule'' @ show_nat 0"
    by (simp add: rrule_name_def)
  moreover have "show_nat 0 = ''0''" by code_simp
  ultimately show ?thesis
    using False by (simp add: timed_rule_def night_rules_def)
qed

theorem rcheck_links_rules_witness:
  "\<exists>y'. rcheck_main list_del list_add (Y2K + 5) \<lparr>lt_min = 30, lt_hour = 23, lt_mday = 1, lt_mon = 0, lt_wday = 6\<rparr> True False
      \<lparr>s_kernel = [], s_nv = night_rules, s_cron = Map.empty, radio_cmd = None, fastnat = True\<rparr> = Some y' \<and> consistent id y' \<and>
    (rule_chain 0 (CHR ''|'') \<in> set (id (s_kernel y')) \<longleftrightarrow> in_window (1440 * int 6 + (int 23 * 60 + int 30)) 1320 360 127)"
proof -
  let ?y = "\<lparr>s_kernel = [], s_nv = night_rules, s_cron = Map.empty, radio_cmd = None, fastnat = True\<rparr> :: string list rsys"
  let ?t = "\<lparr>lt_min = 30, lt_hour = 23, lt_mday = 1, lt_mon = 0, lt_wday = 6\<rparr>"
  have "reliable_iptables id list_del list_add"
    by (auto simp: reliable_iptables_def list_del_def list_add_def remove1_idem)
  moreover have "start_activated night_rules = 0"
    by code_simp
  then have "consistent id ?y"
    by (simp add: consistent_def jumps_match_def)
  ultimately show ?thesis
    using rcheck_links_rules [of id list_del list_add ?y "Y2K + 5" ?t 0 night_rule True False]
    by (simp add: night_rules_timed MAX_NRULES_def) (simp add: night_rule_def)
qed






text \<open>Blocking Flash files takes away the block of ActiveX files.  The file types of the second bit are copied over
  those of the first, so that the first bit has no effect when the second is set.\<close>

theorem flash_replaces_activex:
  assumes "bit hf 1"
  shows "http_file_types (set_bit 0 hf) = http_file_types (unset_bit 0 hf)"
proof -
  have "bit (set_bit 0 hf) 1" "bit (unset_bit 0 hf) 1" "bit (set_bit 0 hf) 2 = bit (unset_bit 0 hf) 2"
    using assms by (simp_all add: bit_set_bit_iff bit_unset_bit_iff)
  moreover have "x AND 2 \<noteq> 0 \<longleftrightarrow> bit x 1" "x AND 4 \<noteq> 0 \<longleftrightarrow> bit x 2" for x :: int
    using and_exp_eq_0_iff_not_bit [of x 1] and_exp_eq_0_iff_not_bit [of x 2] by simp_all
  ultimately show ?thesis
    by (simp add: http_file_types_def Let_def)
qed

theorem flash_replaces_activex_witness:
  "http_file_types (set_bit 0 2) = http_file_types (unset_bit 0 2) \<and> http_file_types 1 = ''.ocx$ .cab$ ''"
proof -
  have "http_file_types 1 = ''.ocx$ .cab$ ''" by code_simp
  then show ?thesis
    using flash_replaces_activex [of 2] by (simp add: bit_simps)
qed

end
