(* ===== verification/Sched.thy ===== *)
theory Sched
  imports Records
begin

section \<open>Scheduled tasks\<close>

text \<open>
  \<^verbatim>\<open>rc/sched.c\<close>: reboot, reconnection and five custom commands at set times.  A task is a variable with three
  numbers: whether it is enabled, a minute of the day or, negative, a period in minutes, and a set of
  days.  Tasks become entries in the table of \<^verbatim>\<open>cron\<close>, which is a map from their names to lines here; periods
  of more than five minutes are entered for their next time and again after each run.  \<^verbatim>\<open>localtime\<close> is the
  parameter \<open>lt\<close>.  Numbers are unbounded.
\<close>

type_synonym cron = "string \<Rightarrow> string option"

definition unsched :: "string \<Rightarrow> cron \<Rightarrow> cron" where
  "unsched key tab = tab(key := None)"

definition scan_comma :: "string \<Rightarrow> string option" where
  "scan_comma s = (if hd0 s = CHR '','' then Some (tl s) else None)"

definition parse_task :: "string \<Rightarrow> (int \<times> int \<times> int) option" where
  "parse_task s =
     Option.bind (scan_num s) (\<lambda>(en, s). Option.bind (scan_comma s) (\<lambda>s.
     Option.bind (scan_num s) (\<lambda>(t, s). Option.bind (scan_comma s) (\<lambda>s.
     Option.bind (scan_num s) (\<lambda>(dow, s). Some (en, t, dow))))))"

definition day_list :: "int \<Rightarrow> string" where
  "day_list dow = joined '','' (map show_nat (filter (\<lambda>i. bit dow i) [0..<7]))"

text \<open>The loop that goes on by a minute until the day is one of the days of the task.\<close>

partial_function (option) day_loop :: "(int \<Rightarrow> ltime) \<Rightarrow> int \<Rightarrow> int \<Rightarrow> int option" where
  "day_loop lt dow tt = (if bit dow (lt_wday (lt tt)) then Some tt else day_loop lt dow (tt + 60))"

text \<open>The time from which the loop starts, for a period of \<open>t\<close> seconds.\<close>

definition period_start :: "int \<Rightarrow> int \<Rightarrow> int \<Rightarrow> int" where
  "period_start now qq t = (let tt = now + 59; tt = (if tt < qq + t then qq else tt) in tt + t)"

definition cron_line :: "string \<Rightarrow> string \<Rightarrow> string" where
  "cron_line when key = strlcpy (when @ '' sched '' @ key) 64"

definition task_days :: "int \<Rightarrow> int" where
  "task_days dow = (if dow AND 0x7F = 0 then 0x7F else dow)"

definition cron_time :: "ltime \<Rightarrow> string" where
  "cron_time m =
     show_nat (lt_min m) @ '' '' @ show_nat (lt_hour m) @ '' '' @ show_nat (lt_mday m) @ '' '' @ show_nat (lt_mon m + 1) @ '' *''"

text \<open>The variables with the time of this run, if there is one, and the time of the last run that they hold.\<close>

definition last_var :: "string \<Rightarrow> string" where
  "last_var key = strlcpy (key @ ''_last'') 64"

definition note_run :: "int \<Rightarrow> string \<Rightarrow> bool \<Rightarrow> nvram \<Rightarrow> nvram" where
  "note_run now key resched nv = (if resched then nv(last_var key \<mapsto> show_int now) else nv)"

definition last_run :: "string \<Rightarrow> nvram \<Rightarrow> int" where
  "last_run key nv = atoi (nvram_safe_get nv (last_var key))"

text \<open>The variables and the table afterwards; \<open>None\<close> when the loop does not end.\<close>

definition sched :: "(int \<Rightarrow> ltime) \<Rightarrow> int \<Rightarrow> string \<Rightarrow> bool \<Rightarrow> nvram \<times> cron \<Rightarrow> (nvram \<times> cron) option" where
  "sched lt now key resched s =
     (case parse_task (nvram_safe_get (fst s) key) of
        None \<Rightarrow> Some (fst s, unsched key (snd s))
      | Some (en, t, dow) \<Rightarrow>
          if en = 0 then Some (fst s, unsched key (snd s))
          else
            let nv = note_run now key resched (fst s); dow = task_days dow; tab = snd s
            in if resched \<and> - 5 \<le> t then Some (nv, tab)
               else if 0 \<le> t then
                 Some (nv, tab(key \<mapsto> cron_line (show_int (t mod 60) @ '' '' @ show_int (t div 60) @ '' * * '' @ day_list dow) key))
               else if - t \<le> 5 then
                 Some (nv, tab(key \<mapsto> cron_line (''*/'' @ show_int (- t) @ '' * * * '' @ day_list dow) key))
               else
                 map_option (\<lambda>tt. (nv, tab(key \<mapsto> cron_line (cron_time (lt tt)) key)))
                   (day_loop lt dow (period_start now (last_run key nv) (- t * 60))))"

definition is_sched :: "nvram \<Rightarrow> string \<Rightarrow> bool" where
  "is_sched nv key \<longleftrightarrow> hd0 (nvram_safe_get nv key) = CHR ''1''"

datatype action = Reboot | Restart_wan | Run_script string

fun sched_all :: "(int \<Rightarrow> ltime) \<Rightarrow> int \<Rightarrow> string list \<Rightarrow> nvram \<times> cron \<Rightarrow> (nvram \<times> cron) option" where
  "sched_all lt now [] s = Some s"
| "sched_all lt now (key # keys) s = Option.bind (sched lt now key False s) (sched_all lt now keys)"

definition task_names :: "string list" where
  "task_names = [''sch_rboot'', ''sch_rcon'', ''sch_c1'', ''sch_c2'', ''sch_c3'', ''sch_c4'', ''sch_c5'']"

text \<open>The program with one argument, and what it runs.\<close>

definition sched_main :: "(int \<Rightarrow> ltime) \<Rightarrow> int \<Rightarrow> string \<Rightarrow> nvram \<times> cron \<Rightarrow> ((nvram \<times> cron) \<times> action list) option" where
  "sched_main lt now arg s =
     (if strncmp arg ''sch_'' 4 = 0 then
        if is_sched (fst s) arg then
          if arg = ''sch_rboot'' then Some (s, [Reboot])
          else if arg = ''sch_rcon'' then map_option (\<lambda>s. (s, [Restart_wan])) (sched lt now arg True s)
          else if strncmp arg ''sch_c'' 5 = 0 then
            let n = atoi (drop 5 arg)
            in if 1 \<le> n \<and> n \<le> 5 then map_option (\<lambda>s. (s, [Run_script (strlcpy (arg @ ''_cmd'') 64)])) (sched lt now arg True s)
               else Some (s, [])
          else Some (s, [])
        else Some ((fst s, unsched arg (snd s)), [])
      else if arg = ''start'' then map_option (\<lambda>s. (s, [])) (sched_all lt now task_names s)
      else Some (s, []))"

definition stop_sched :: "cron \<Rightarrow> cron" where
  "stop_sched tab =
     foldl (\<lambda>tab key. unsched key tab) tab
       [''sch_rboot'', ''sch_rcon'', ''sch_sc1'', ''sch_sc2'', ''sch_sc3'', ''sch_sc4'', ''sch_sc5'']"

subsection \<open>The next day\<close>







subsection \<open>Properties\<close>



text \<open>Stopping the scheduler leaves the custom tasks in the table: they are entered under the names \<^verbatim>\<open>sch_c1\<close> to
  \<^verbatim>\<open>sch_c5\<close>, and \<^verbatim>\<open>stop_sched\<close> removes \<^verbatim>\<open>sch_sc1\<close> to \<^verbatim>\<open>sch_sc5\<close>.\<close>

lemma custom_tasks_survive:
  "key \<in> {''sch_c1'', ''sch_c2'', ''sch_c3'', ''sch_c4'', ''sch_c5''} \<Longrightarrow> key \<in> set task_names \<and> stop_sched tab key = tab key"
  by (auto simp: stop_sched_def unsched_def task_names_def)

end
