(* ===== verification/Escape.thy ===== *)
theory Escape
  imports Prelude
begin

section \<open>Text in scripts and pages\<close>

text \<open>
  \<^verbatim>\<open>httpd/utf8.c\<close> and the two functions of \<^verbatim>\<open>httpd/misc.c\<close> that make bytes safe to put into a
  script or a page.  A text is the list of its bytes without the final zero.  A value of
  \<^verbatim>\<open>uint32_t\<close> or \<^verbatim>\<open>uint16_t\<close> is a natural number: none of the expressions reaches the limit of its type.
  \<^verbatim>\<open>malloc\<close> succeeds; \<^verbatim>\<open>isprint\<close> is that of the C locale.
\<close>

unbundle bit_operations_syntax

definition isprint :: "nat \<Rightarrow> bool" where
  "isprint n \<longleftrightarrow> 0x20 \<le> n \<and> n \<le> 0x7E"

text \<open>Element \<open>i\<close> of a text, with the zero after its end.\<close>

definition bt :: "string \<Rightarrow> nat \<Rightarrow> nat" where
  "bt s i = (if i < length s then of_char (s ! i) else 0)"

definition pad0 :: "nat \<Rightarrow> string \<Rightarrow> string" where
  "pad0 w s = replicate (w - length s) CHR ''0'' @ s"

subsection \<open>Decoding\<close>

fun size_loop :: "string \<Rightarrow> nat \<Rightarrow> int" where
  "size_loop [] n = int n"
| "size_loop (c # s) n =
     (let byte = (of_char c :: nat); n = n + 1
      in if 0xC0 \<le> byte then
           if 0xF5 \<le> byte then - 1
           else if s = [] then int n
           else if tl s = [] then int n
           else let s' = (if 0xE0 \<le> byte then tl (tl s) else tl s)
             in if s' = [] then int n
                else if 0xF0 \<le> byte then size_loop (tl s') (n + 1)
                else size_loop s' n
         else size_loop s n)"

definition utf8_to_utf16_size :: "string \<Rightarrow> int" where
  "utf8_to_utf16_size s = size_loop s 0"

definition cont :: "nat \<Rightarrow> bool" where
  "cont b \<longleftrightarrow> b AND 0xC0 = 0x80"

text \<open>The value and the number of bytes; \<open>None\<close> is the result -1.\<close>

definition utf8_to_unicode :: "string \<Rightarrow> (nat \<times> nat) option" where
  "utf8_to_unicode s =
     (let byte = bt s 0
      in if byte = 0 then Some (0, 0)
         else if byte < 0x80 then Some (byte, 1)
         else if byte < 0xC2 then None
         else if byte < 0xE0 then
           if cont (bt s 1) then Some (push_bit 6 (byte AND 0x1F) OR (bt s 1 AND 0x3F), 2) else None
         else if byte < 0xF0 then
           if cont (bt s 1) \<and> cont (bt s 2) then
             let wc = push_bit 12 (byte AND 0x0F) OR push_bit 6 (bt s 1 AND 0x3F) OR (bt s 2 AND 0x3F)
             in if 0x800 \<le> wc \<and> wc \<le> 0xD7FF \<or> 0xE000 \<le> wc \<and> wc \<le> 0xFFFF then Some (wc, 3) else None
           else None
         else if byte < 0xF5 then
           if cont (bt s 1) \<and> cont (bt s 2) \<and> cont (bt s 3) then
             let wc = push_bit 18 (byte AND 0x07) OR push_bit 12 (bt s 1 AND 0x3F) OR push_bit 6 (bt s 2 AND 0x3F) OR (bt s 3 AND 0x3F)
             in if wc \<le> 0x10FFFF \<and> 0x10000 \<le> wc then Some (wc, 4) else None
           else None
         else None)"

subsection \<open>Writing\<close>

text \<open>\<^verbatim>\<open>snprintf\<close> into a buffer with room for \<open>rem\<close> bytes and the test of its result.\<close>

definition fits :: "string \<Rightarrow> nat \<Rightarrow> string option" where
  "fits s rem = (if rem \<le> length s then None else Some s)"

text \<open>What a conversion adds to the buffer; \<open>None\<close> is the null pointer.\<close>

type_synonym utf16_conv = "nat \<Rightarrow> nat \<Rightarrow> string option"

definition js_utf16_char :: utf16_conv where
  "js_utf16_char u rem =
     (let c = u mod 256
      in if u \<le> 0xFF then
           if c = 0x22 \<or> c = 0x27 \<or> c = 0x5C \<or> \<not> isprint c then fits (CHR 0x5C # ''x'' @ pad0 2 (show_hex c)) rem
           else if rem < 2 then None else Some [char_of c]
         else fits (CHR 0x5C # ''u'' @ pad0 4 (show_hex u)) rem)"

definition html_utf16_char :: utf16_conv where
  "html_utf16_char u rem =
     (let c = u mod 256
      in if 0xFF < u \<or> c = 0x26 \<or> c = 0x3C \<or> c = 0x3E \<or> c = 0x22 \<or> c = 0x27 \<or> \<not> isprint c
         then fits (''&#'' @ show_nat u @ '';'') rem
         else if rem < 2 then None else Some [char_of c])"

definition put_unit :: "utf16_conv \<Rightarrow> nat \<Rightarrow> nat \<Rightarrow> string \<Rightarrow> string option" where
  "put_unit conv out_size u outs = map_option ((@) outs) (conv u (out_size - length outs))"

definition put_char :: "utf16_conv \<Rightarrow> nat \<Rightarrow> nat \<Rightarrow> string \<Rightarrow> string option" where
  "put_char conv out_size wc outs =
     (if wc < 0x10000 then put_unit conv out_size wc outs
      else let wc = wc - 0x10000
        in Option.bind (put_unit conv out_size (drop_bit 10 wc + 0xD800) outs) (put_unit conv out_size ((wc AND 0x3FF) + 0xDC00)))"

function conv_loop :: "utf16_conv \<Rightarrow> nat \<Rightarrow> string \<Rightarrow> string \<Rightarrow> string option" where
  "conv_loop conv out_size t outs =
     (case utf8_to_unicode t of
        None \<Rightarrow> None
      | Some (wc, m) \<Rightarrow>
          if m = 0 then Some outs
          else case put_char conv out_size wc outs of
                 None \<Rightarrow> None
               | Some outs \<Rightarrow> conv_loop conv out_size (drop m t) outs)"
  by pat_completeness auto
termination
proof (relation "measure (\<lambda>(conv, out_size, t, outs). length t)", simp)
  fix conv out_size t outs x wc m outs'
  assume "utf8_to_unicode t = Some x" "(wc, m) = x" "m \<noteq> 0"
  then have "t \<noteq> []"
    by (auto simp: utf8_to_unicode_def bt_def)
  then show "((conv, out_size, drop m t, outs'), conv, out_size, t, outs) \<in> measure (\<lambda>(conv, out_size, t, outs). length t)"
    using \<open>m \<noteq> 0\<close> by simp
qed

definition SIZE_MAX :: nat where
  "SIZE_MAX = 2 ^ 64 - 1"

definition utf8_to_string :: "string \<Rightarrow> nat \<Rightarrow> utf16_conv \<Rightarrow> string option" where
  "utf8_to_string ins csize conv =
     (let shorts = utf8_to_utf16_size ins
      in if shorts \<le> 0 \<or> csize = 0 then None
         else if (SIZE_MAX - 1) div csize - 1 < nat shorts then None
         else conv_loop conv ((nat shorts + 1) * csize + 1) ins [])"

definition utf8_to_js_string :: "string \<Rightarrow> string option" where
  "utf8_to_js_string ins = utf8_to_string ins 6 js_utf16_char"

definition utf8_to_html_string :: "string \<Rightarrow> string option" where
  "utf8_to_html_string ins = utf8_to_string ins 8 html_utf16_char"

definition js_char :: "char \<Rightarrow> string" where
  "js_char c =
     (let n = (of_char c :: nat)
      in if n = 0x22 \<or> n = 0x27 \<or> n = 0x5C \<or> \<not> isprint n
         then [CHR 0x5C, CHR ''x'', hex_digit (drop_bit 4 n), hex_digit (n AND 0x0F)] else [c])"

definition js_string :: "string \<Rightarrow> string option" where
  "js_string s = (if (SIZE_MAX - 1) div 4 < length s then None else Some (concat (map js_char s)))"

definition html_char :: "char \<Rightarrow> string" where
  "html_char c =
     (let n = (of_char c :: nat)
      in if n = 0x26 \<or> n = 0x3C \<or> n = 0x3E \<or> n = 0x22 \<or> n = 0x27 \<or> \<not> isprint n then ''&#'' @ show_nat n @ '';'' else [c])"

text \<open>A reference of a byte has at most six characters, so \<^verbatim>\<open>snprintf\<close> with room for seven never fails.\<close>

definition html_string :: "string \<Rightarrow> string option" where
  "html_string s = (if (SIZE_MAX - 1) div 6 < length s then None else Some (concat (map html_char s)))"

subsection \<open>The encoding as it is specified\<close>

text \<open>Scalar values of Unicode, their bytes and their units of sixteen bits.\<close>

definition scalar :: "nat \<Rightarrow> bool" where
  "scalar u \<longleftrightarrow> 0 < u \<and> u \<le> 0x10FFFF \<and> \<not> (0xD800 \<le> u \<and> u \<le> 0xDFFF)"

definition utf8_enc :: "nat \<Rightarrow> string" where
  "utf8_enc u = map char_of
     (if u < 0x80 then [u]
      else if u < 0x800 then [0xC0 + u div 64, 0x80 + u mod 64]
      else if u < 0x10000 then [0xE0 + u div 4096, 0x80 + u div 64 mod 64, 0x80 + u mod 64]
      else [0xF0 + u div 262144, 0x80 + u div 4096 mod 64, 0x80 + u div 64 mod 64, 0x80 + u mod 64])"

definition utf8_text :: "nat list \<Rightarrow> string" where
  "utf8_text us = concat (map utf8_enc us)"

definition utf16 :: "nat \<Rightarrow> nat list" where
  "utf16 u = (if u < 0x10000 then [u] else [0xD800 + (u - 0x10000) div 1024, 0xDC00 + (u - 0x10000) mod 1024])"

text \<open>What a reader of scripts takes from the inside of a quoted text.\<close>

fun js_read :: "string \<Rightarrow> nat list" where
  "js_read [] = []"
| "js_read (c # s) =
     (if c = CHR 0x5C then
        if hd0 s = CHR ''x'' then xdigits_value (take 2 (tl s)) # js_read (drop 3 s)
        else if hd0 s = CHR ''u'' then xdigits_value (take 4 (tl s)) # js_read (drop 5 s)
        else js_read s
      else of_char c # js_read s)"

text \<open>What a reader of pages takes from text with numeric references.\<close>

function html_read :: "string \<Rightarrow> nat list" where
  "html_read [] = []"
| "html_read (c # s) =
     (if c = CHR ''&'' \<and> hd0 s = CHR ''#''
      then digits_value (takeWhile isdigit (tl s)) # html_read (drop 1 (dropWhile isdigit (tl s)))
      else of_char c # html_read s)"
  by pat_completeness auto
termination
proof (relation "measure length", simp_all)
  fix s :: string
  show "length (dropWhile isdigit (tl s)) - Suc 0 < Suc (length s)"
    using length_dropWhile_le [of isdigit "tl s"] by (simp only: length_tl)
qed

subsection \<open>Bits\<close>

lemma or_shift: "b < 2 ^ n \<Longrightarrow> push_bit n a OR b = a * 2 ^ n + b" for a b :: nat
proof -
  assume "b < 2 ^ n"
  then have "bit b k \<Longrightarrow> k < n" for k
    using bit_take_bit_iff [of n b k] by (simp add: take_bit_nat_eq_self)
  then have "push_bit n a + b = push_bit n a OR b"
    by (intro disjunctive_add_eq_or) (force simp: bit_eq_iff bit_simps)
  then show ?thesis
    by (simp add: push_bit_eq_mult)
qed

lemma low_bits:
  "b AND 0x1F = b mod 32" "b AND 0x0F = b mod 16" "b AND 0x07 = b mod 8" "b AND 0x3F = b mod 64" "b AND 0x3FF = b mod 1024" for b :: nat
  using take_bit_eq_mask [of 5 b] take_bit_eq_mask [of 4 b] take_bit_eq_mask [of 3 b] take_bit_eq_mask [of 6 b] take_bit_eq_mask [of 10 b]
  by (simp_all add: take_bit_eq_mod mask_eq_exp_minus_1)

lemma cont_iff: "b < 256 \<Longrightarrow> cont b \<longleftrightarrow> 0x80 \<le> b \<and> b < 0xC0"
proof -
  assume b: "b < 256"
  have "b AND push_bit 6 3 = push_bit 6 (drop_bit 6 b AND 3)"
    by (rule bit_eqI) (auto simp: bit_simps simp del: push_bit_numeral)
  moreover have "drop_bit 6 b AND 3 = b div 64"
    using b take_bit_eq_mask [of 2 "drop_bit 6 b"] by (simp add: take_bit_eq_mod mask_eq_exp_minus_1 drop_bit_eq_div)
  ultimately have "b AND 0xC0 = b div 64 * 64"
    by (simp add: push_bit_eq_mult)
  then show ?thesis
    by (auto simp: cont_def)
qed

lemma bt_less [simp]: "bt s i < 256"
  by (simp add: bt_def)

lemma mod64_le: "x mod 64 \<le> 63" for x :: nat
  using mod_less_divisor [of 64 x] by linarith

lemma or2: "push_bit 6 a OR (b mod 64) = a * 64 + b mod 64" for a b :: nat
  using or_shift [of "b mod 64" 6 a] by simp

lemma or3: "push_bit 12 a OR push_bit 6 (b mod 64) OR (c mod 64) = a * 4096 + (b mod 64) * 64 + c mod 64" for a b c :: nat
proof -
  have "(b mod 64) * 64 + c mod 64 < 4096"
    using mod64_le [of b] mod64_le [of c] by linarith
  then show ?thesis
    using or_shift [of "(b mod 64) * 64 + c mod 64" 12 a] by (simp add: or.assoc or2)
qed

lemma or4: "push_bit 18 a OR push_bit 12 (b mod 64) OR push_bit 6 (c mod 64) OR (d mod 64) =
    a * 262144 + (b mod 64) * 4096 + (c mod 64) * 64 + d mod 64" for a b c d :: nat
proof -
  have "(b mod 64) * 4096 + (c mod 64) * 64 + d mod 64 < 262144"
    using mod64_le [of b] mod64_le [of c] mod64_le [of d] by linarith
  then show ?thesis
    using or_shift [of "(b mod 64) * 4096 + (c mod 64) * 64 + d mod 64" 18 a] or3 [of "b mod 64" c d] by (simp add: or.assoc)
qed

text \<open>The decoder in terms of numbers.\<close>

lemma utf8_to_unicode_num:
  "utf8_to_unicode s =
     (let b0 = bt s 0; b1 = bt s 1; b2 = bt s 2; b3 = bt s 3
      in if b0 = 0 then Some (0, 0)
         else if b0 < 0x80 then Some (b0, 1)
         else if b0 < 0xC2 then None
         else if b0 < 0xE0 then if cont b1 then Some ((b0 mod 32) * 64 + b1 mod 64, 2) else None
         else if b0 < 0xF0 then
           let wc = (b0 mod 16) * 4096 + (b1 mod 64) * 64 + b2 mod 64
           in if cont b1 \<and> cont b2 \<and> (0x800 \<le> wc \<and> wc \<le> 0xD7FF \<or> 0xE000 \<le> wc \<and> wc \<le> 0xFFFF) then Some (wc, 3) else None
         else if b0 < 0xF5 then
           let wc = (b0 mod 8) * 262144 + (b1 mod 64) * 4096 + (b2 mod 64) * 64 + b3 mod 64
           in if cont b1 \<and> cont b2 \<and> cont b3 \<and> wc \<le> 0x10FFFF \<and> 0x10000 \<le> wc then Some (wc, 4) else None
         else None)"
  unfolding utf8_to_unicode_def Let_def low_bits unfolding or4 unfolding or3 unfolding or2
  by (cases "cont (bt s 1)"; cases "cont (bt s 2)"; cases "cont (bt s 3)") (simp_all only: simp_thms if_True if_False if_cancel)

subsection \<open>The decoder against the specification\<close>

lemma of_char_nat_0: "(of_char c :: nat) = 0 \<longleftrightarrow> c = NUL"
  using of_char_eq_iff [where 'a = nat, of c NUL] by simp

lemma bt_Cons: "bt (c # s) i = (if i = 0 then of_char c else bt s (i - 1))"
  by (cases i) (simp_all add: bt_def)

lemma lead_mod:
  "(192 + a) mod 32 = a mod 32" "(224 + a) mod 16 = a mod 16" "(240 + a) mod 8 = a mod 8" "(128 + a) mod 64 = a mod 64" for a :: nat
  using mod_mult_self3 [of 6 32 a] mod_mult_self3 [of 14 16 a] mod_mult_self3 [of 30 8 a] mod_mult_self3 [of 2 64 a] by simp_all

lemma six_bits:
  "u div 64 * 64 + u mod 64 = u"
  "u div 4096 * 4096 + u div 64 mod 64 * 64 + u mod 64 = u"
  "u div 262144 * 262144 + u div 4096 mod 64 * 4096 + u div 64 mod 64 * 64 + u mod 64 = u" for u :: nat
proof -
  have "u div 64 div 64 = u div 4096" "u div 4096 div 64 = u div 262144"
    by (simp_all add: div_mult2_eq [symmetric])
  with div_mult_mod_eq [of u 64] div_mult_mod_eq [of "u div 64" 64] div_mult_mod_eq [of "u div 4096" 64]
  show "u div 64 * 64 + u mod 64 = u"
    "u div 4096 * 4096 + u div 64 mod 64 * 64 + u mod 64 = u"
    "u div 262144 * 262144 + u div 4096 mod 64 * 4096 + u div 64 mod 64 * 64 + u mod 64 = u"
    by linarith+
qed

lemma decode_enc: "scalar u \<Longrightarrow> utf8_to_unicode (utf8_enc u @ r) = Some (u, length (utf8_enc u))"
proof -
  assume u: "scalar u"
  consider "u < 0x80" | "0x80 \<le> u" "u < 0x800" | "0x800 \<le> u" "u < 0x10000" | "0x10000 \<le> u" by linarith
  then show ?thesis
  proof cases
    case 1
    then show ?thesis
      using u by (simp add: utf8_to_unicode_num utf8_enc_def bt_Cons scalar_def Let_def)
  next
    case 2
    define a b where "a = u div 64" and "b = u mod 64"
    have "2 \<le> a" "a < 32" "b < 64" "a * 64 + b = u" using 2 six_bits(1) [of u] by (auto simp: a_def b_def)
    then show ?thesis
      using 2 by (simp add: utf8_to_unicode_num utf8_enc_def bt_Cons cont_iff lead_mod Let_def flip: a_def b_def)
  next
    case 3
    define a b c where "a = u div 4096" and "b = u div 64 mod 64" and "c = u mod 64"
    have "a < 16" "b < 64" "c < 64" "a * 4096 + b * 64 + c = u" using 3 six_bits(2) [of u] by (auto simp: a_def b_def c_def)
    then show ?thesis
      using 3 u by (simp add: utf8_to_unicode_num utf8_enc_def bt_Cons cont_iff lead_mod scalar_def Let_def flip: a_def b_def c_def) linarith
  next
    case 4
    define a b c d where "a = u div 262144" and "b = u div 4096 mod 64" and "c = u div 64 mod 64" and "d = u mod 64"
    have "a < 5" "b < 64" "c < 64" "d < 64" "a * 262144 + b * 4096 + c * 64 + d = u"
      using 4 u six_bits(3) [of u] by (auto simp: a_def b_def c_def d_def scalar_def)
    then show ?thesis
      using 4 u by (simp add: utf8_to_unicode_num utf8_enc_def bt_Cons cont_iff lead_mod scalar_def Let_def flip: a_def b_def c_def d_def)
  qed
qed

lemma bt_prefix: "(\<forall>i < k. bt s i \<noteq> 0) \<Longrightarrow> k \<le> length s \<and> take k s = map (\<lambda>i. char_of (bt s i)) [0..<k]"
proof (induction k)
  case (Suc k)
  then have "bt s k \<noteq> 0" by blast
  then have "k < length s"
    by (auto simp: bt_def split: if_splits)
  with Suc show ?case
    by (simp add: take_Suc_conv_app_nth bt_def)
qed simp

lemma enc_split:
  "2 \<le> a \<Longrightarrow> a < 32 \<Longrightarrow> b < 64 \<Longrightarrow> utf8_enc (a * 64 + b) = map char_of [192 + a, 128 + b]"
  "0x800 \<le> a * 4096 + b * 64 + c \<Longrightarrow> a < 16 \<Longrightarrow> b < 64 \<Longrightarrow> c < 64 \<Longrightarrow>
    utf8_enc (a * 4096 + b * 64 + c) = map char_of [224 + a, 128 + b, 128 + c]"
  "0x10000 \<le> a * 262144 + b * 4096 + c * 64 + d \<Longrightarrow> b < 64 \<Longrightarrow> c < 64 \<Longrightarrow> d < 64 \<Longrightarrow>
    utf8_enc (a * 262144 + b * 4096 + c * 64 + d) = map char_of [240 + a, 128 + b, 128 + c, 128 + d]"
proof -
  assume "2 \<le> a" "a < 32" "b < 64"
  then show "utf8_enc (a * 64 + b) = map char_of [192 + a, 128 + b]"
    by (simp add: utf8_enc_def)
next
  assume *: "0x800 \<le> a * 4096 + b * 64 + c" "a < 16" "b < 64" "c < 64"
  let ?u = "a * 4096 + b * 64 + c"
  have u: "?u = (a * 64 + b) * 64 + c" by simp
  have "?u div 64 = a * 64 + b" using *(4) by (intro div_nat_eqI) simp_all
  moreover have "?u mod 64 = c" unfolding u mod_mult_self3 using *(4) by simp
  moreover have "\<not> ?u < 0x80" "\<not> ?u < 0x800" "?u < 0x10000" using *(1-4) by linarith+
  moreover have "?u div 4096 = a" using *(3,4) by (intro div_nat_eqI) simp_all
  moreover have "(a * 64 + b) mod 64 = b" using *(3) by simp
  ultimately show "utf8_enc ?u = map char_of [224 + a, 128 + b, 128 + c]"
    unfolding utf8_enc_def by (simp only: if_True if_False)
next
  assume *: "0x10000 \<le> a * 262144 + b * 4096 + c * 64 + d" "b < 64" "c < 64" "d < 64"
  let ?u = "a * 262144 + b * 4096 + c * 64 + d"
  have u: "?u = ((a * 64 + b) * 64 + c) * 64 + d" by simp
  have "?u div 64 = (a * 64 + b) * 64 + c" "?u div 262144 = a" "?u div 4096 = a * 64 + b"
    using *(2-4) by (auto intro!: div_nat_eqI)
  moreover have "?u mod 64 = d" unfolding u mod_mult_self3 using *(4) by simp
  moreover have "\<not> ?u < 0x80" "\<not> ?u < 0x800" "\<not> ?u < 0x10000" using *(1) by linarith+
  moreover have "(a * 64 + b) mod 64 = b" "((a * 64 + b) * 64 + c) mod 64 = c" unfolding mod_mult_self3 using *(2,3) by (simp_all only: mod_less)
  ultimately show "utf8_enc ?u = map char_of [240 + a, 128 + b, 128 + c, 128 + d]"
    unfolding utf8_enc_def by (simp only: if_True if_False)
qed

lemma enc_decode:
  assumes "utf8_to_unicode s = Some (u, m)" "m \<noteq> 0"
  shows "scalar u \<and> m \<le> length s \<and> take m s = utf8_enc u"
proof -
  define b0 b1 b2 b3 where b: "b0 = bt s 0" "b1 = bt s 1" "b2 = bt s 2" "b3 = bt s 3"
  have b': "bt s (Suc 0) = b1" "bt s (Suc (Suc 0)) = b2" "bt s (Suc (Suc (Suc 0))) = b3"
    by (simp_all add: b numeral_2_eq_2 numeral_3_eq_3)
  have lt: "b0 < 256" "b1 < 256" "b2 < 256" "b3 < 256"
    by (simp_all add: b)
  consider "b0 \<noteq> 0" "b0 < 0x80" "u = b0" "m = 1"
    | "0xC2 \<le> b0" "b0 < 0xE0" "cont b1" "u = (b0 mod 32) * 64 + b1 mod 64" "m = 2"
    | "0xE0 \<le> b0" "b0 < 0xF0" "cont b1" "cont b2" "u = (b0 mod 16) * 4096 + (b1 mod 64) * 64 + b2 mod 64"
      "0x800 \<le> u \<and> u \<le> 0xD7FF \<or> 0xE000 \<le> u \<and> u \<le> 0xFFFF" "m = 3"
    | "0xF0 \<le> b0" "b0 < 0xF5" "cont b1" "cont b2" "cont b3" "u = (b0 mod 8) * 262144 + (b1 mod 64) * 4096 + (b2 mod 64) * 64 + b3 mod 64"
      "0x10000 \<le> u" "u \<le> 0x10FFFF" "m = 4"
    using assms unfolding utf8_to_unicode_num b [symmetric] Let_def by (auto split: if_splits)
  then show ?thesis
  proof cases
    case 1
    then show ?thesis
      using bt_prefix [of 1 s] by (simp add: b scalar_def utf8_enc_def)
  next
    case 2
    define a b where ab: "a = b0 - 0xC0" "b = b1 - 0x80"
    with 2 lt have r: "b0 = 192 + a" "b1 = 128 + b" "2 \<le> a" "a < 32" "b < 64"
      by (auto simp: cont_iff)
    then show ?thesis
      using 2 bt_prefix [of 2 s] enc_split(1) [of a b]
      by (simp add: lead_mod scalar_def b' upt_rec less_Suc_eq numeral_2_eq_2 flip: \<open>b0 = bt s 0\<close>)
  next
    case 3
    define a b c where ab: "a = b0 - 0xE0" "b = b1 - 0x80" "c = b2 - 0x80"
    with 3(1-4) lt have r: "b0 = 224 + a" "b1 = 128 + b" "b2 = 128 + c" "a < 16" "b < 64" "c < 64"
      by (auto simp: cont_iff)
    have "scalar u" "0x800 \<le> u" using 3(6) by (auto simp: scalar_def)
    with r show ?thesis
      using 3(1-5,7) bt_prefix [of 3 s] enc_split(2) [of a b c]
      by (simp add: lead_mod b' upt_rec less_Suc_eq numeral_3_eq_3 flip: \<open>b0 = bt s 0\<close>)
  next
    case 4
    define a b c d where ab: "a = b0 - 0xF0" "b = b1 - 0x80" "c = b2 - 0x80" "d = b3 - 0x80"
    with 4(1-5) lt have r: "b0 = 240 + a" "b1 = 128 + b" "b2 = 128 + c" "b3 = 128 + d" "a < 8" "b < 64" "c < 64" "d < 64"
      by (auto simp: cont_iff)
    have "bt s i \<noteq> 0" if "i < 4" for i
    proof -
      from that consider "i = 0" | "i = 1" | "i = 2" | "i = 3" by linarith
      then show ?thesis
        using r by cases (simp_all add: b' flip: b)
    qed
    moreover have "scalar u" using 4(7,8) by (simp add: scalar_def)
    ultimately show ?thesis
      using r 4 bt_prefix [of 4 s] enc_split(3) [of a b c d]
      by (simp add: lead_mod b' upt_rec flip: \<open>b0 = bt s 0\<close>)
  qed
qed

lemma enc_nonempty [simp]: "utf8_enc u \<noteq> []"
  by (simp add: utf8_enc_def)

lemma size_loop_enc: "scalar u \<Longrightarrow> size_loop (utf8_enc u @ r) n = size_loop r (n + length (utf16 u))"
proof -
  assume u: "scalar u"
  consider "u < 0x80" | "0x80 \<le> u" "u < 0x800" | "0x800 \<le> u" "u < 0x10000" | "0x10000 \<le> u" by linarith
  then show ?thesis
  proof cases
    case 2
    then have "2 \<le> u div 64" "u div 64 < 32" by auto
    with 2 show ?thesis by (cases r) (simp_all add: utf8_enc_def utf16_def)
  next
    case 3
    then have "u div 4096 < 16" by auto
    with 3 show ?thesis by (cases r) (simp_all add: utf8_enc_def utf16_def)
  next
    case 4
    then have "u div 262144 < 5" using u by (auto simp: scalar_def)
    with 4 show ?thesis by (cases r) (simp_all add: utf8_enc_def utf16_def)
  qed (simp add: utf8_enc_def utf16_def)
qed

lemma utf8_text_simps [simp]:
  "utf8_text [] = []" "utf8_text (u # us) = utf8_enc u @ utf8_text us" "utf8_text us = [] \<longleftrightarrow> us = []"
  by (simp_all add: utf8_text_def concat_eq_Nil_conv)

lemma size_text: "list_all scalar us \<Longrightarrow> size_loop (utf8_text us) n = int (n + length (concat (map utf16 us)))"
  by (induction us arbitrary: n) (simp_all add: size_loop_enc)

lemma units_le_bytes: "length (concat (map utf16 us)) \<le> length (utf8_text us)"
proof (induction us)
  case (Cons u us)
  have "length (utf16 u) \<le> length (utf8_enc u)"
    by (simp add: utf16_def utf8_enc_def)
  with Cons show ?case by simp
qed simp

lemma utf16_small: "scalar u \<Longrightarrow> v \<in> set (utf16 u) \<Longrightarrow> v < 0x10000"
  by (auto simp: utf16_def scalar_def split: if_splits)

lemma units_pos: "us \<noteq> [] \<Longrightarrow> 0 < length (concat (map utf16 us))"
  by (cases us) (simp_all add: utf16_def)

subsection \<open>The loop over the text\<close>

text \<open>What the loop needs of a conversion: a text of at most \<^verbatim>\<open>csize\<close> characters for each unit, written when it fits
  with its final zero, that a reader takes as this unit whatever follows it.\<close>

locale unit_text =
  fixes conv :: utf16_conv and csize :: nat and esc :: "nat \<Rightarrow> string" and reader :: "string \<Rightarrow> nat list"
    and safe :: "char \<Rightarrow> bool"
  assumes conv_eq: "u < 0x10000 \<Longrightarrow> conv u rem = fits (esc u) rem"
    and short: "u < 0x10000 \<Longrightarrow> length (esc u) \<le> csize"
    and csize_pos: "0 < csize"
    and reader_nil: "reader [] = []"
    and reader_esc: "u < 0x10000 \<Longrightarrow> reader (esc u @ r) = u # reader r"
    and esc_safe: "u < 0x10000 \<Longrightarrow> list_all safe (esc u)"
begin

lemma put_unit_ok: "u < 0x10000 \<Longrightarrow> length outs + csize < sz \<Longrightarrow> put_unit conv sz u outs = Some (outs @ esc u)"
  using short [of u] by (simp add: put_unit_def conv_eq fits_def)

lemma esc_length: "(\<And>u. u \<in> set units \<Longrightarrow> u < 0x10000) \<Longrightarrow> length (concat (map esc units)) \<le> csize * length units"
  by (induction units) (auto simp: add_mono short)

lemma put_char_ok:
  assumes "scalar u" "length outs + csize * length (utf16 u) < sz"
  shows "put_char conv sz u outs = Some (outs @ concat (map esc (utf16 u)))"
proof (cases "u < 0x10000")
  case True
  then show ?thesis
    using assms put_unit_ok [of u outs sz] by (simp add: put_char_def utf16_def)
next
  case False
  let ?h = "0xD800 + (u - 0x10000) div 1024" and ?l = "0xDC00 + (u - 0x10000) mod 1024"
  have units: "?h < 0x10000" "?l < 0x10000"
    using utf16_small [OF assms(1)] False by (auto simp: utf16_def)
  have bits: "drop_bit 10 (u - 0x10000) + 0xD800 = ?h" "((u - 0x10000) AND 0x3FF) + 0xDC00 = ?l"
    by (simp_all add: drop_bit_eq_div low_bits)
  have "length (outs @ esc ?h) + csize < sz"
    using assms(2) False short [OF units(1)] by (simp add: utf16_def)
  then show ?thesis
    using False put_unit_ok [OF units(1), of outs sz] put_unit_ok [OF units(2), of "outs @ esc ?h" sz]
    unfolding put_char_def Let_def bits by (simp add: utf16_def)
qed

lemma conv_loop_ok:
  "list_all scalar us \<Longrightarrow> length outs + csize * length (concat (map utf16 us)) < sz \<Longrightarrow>
    conv_loop conv sz (utf8_text us) outs = Some (outs @ concat (map esc (concat (map utf16 us))))"
proof (induction us arbitrary: outs)
  case Nil
  then show ?case
    by (simp add: conv_loop.simps [of conv sz "[]"] utf8_to_unicode_def bt_def)
next
  case (Cons u us)
  have u: "scalar u" "list_all scalar us" using Cons.prems(1) by simp_all
  let ?o = "outs @ concat (map esc (utf16 u))"
  have "length ?o + csize * length (concat (map utf16 us)) < sz" "length outs + csize * length (utf16 u) < sz"
    using Cons.prems(2) esc_length [of "utf16 u"] utf16_small [OF u(1)] by (simp_all add: distrib_left)
  with Cons.IH [OF u(2), of ?o] put_char_ok [OF u(1)] show ?case
    by (simp add: conv_loop.simps [of conv sz "utf8_enc u @ utf8_text us"] decode_enc [OF u(1)])
qed

lemma conv_loop_accepts:
  "conv_loop conv sz t outs = Some r \<Longrightarrow> is_cstr t \<Longrightarrow> \<exists>us. list_all scalar us \<and> t = utf8_text us"
proof (induction conv sz t outs rule: conv_loop.induct)
  case (1 conv sz t outs)
  from 1(2) obtain wc m where d: "utf8_to_unicode t = Some (wc, m)"
    by (subst (asm) conv_loop.simps) (auto split: option.splits)
  show ?case
  proof (cases "m = 0")
    case True
    then have "t = []"
      using d 1(3) unfolding utf8_to_unicode_num Let_def
      by (cases t) (auto simp: bt_def is_cstr_def of_char_nat_0 split: if_splits)
    then show ?thesis
      by (intro exI [of _ "[]"]) simp
  next
    case False
    with d 1(2) obtain outs' where p: "put_char conv sz wc outs = Some outs'" "conv_loop conv sz (drop m t) outs' = Some r"
      by (subst (asm) conv_loop.simps) (auto split: option.splits)
    have "is_cstr (drop m t)"
      using 1(3) by (auto simp: is_cstr_def dest: in_set_dropD)
    with 1(1) [OF d _ False p] obtain us where "list_all scalar us" "drop m t = utf8_text us"
      by auto
    moreover have "t = take m t @ drop m t" by simp
    ultimately show ?thesis
      using enc_decode [OF d False] by (intro exI [of _ "wc # us"]) (simp del: append_take_drop_id)
  qed
qed

lemma reader_units: "\<forall>u \<in> set units. u < 0x10000 \<Longrightarrow> reader (concat (map esc units)) = units"
  by (induction units) (simp_all add: reader_nil reader_esc)

lemma utf8_to_string_text:
  assumes "us \<noteq> []" "list_all scalar us" "csize * (length (utf8_text us) + 2) < SIZE_MAX"
  shows "utf8_to_string (utf8_text us) csize conv = Some (concat (map esc (concat (map utf16 us))))"
proof -
  let ?n = "length (concat (map utf16 us))"
  have n: "utf8_to_utf16_size (utf8_text us) = int ?n" "0 < ?n" "?n \<le> length (utf8_text us)"
    using size_text [OF assms(2), of 0] units_le_bytes [of us] units_pos [OF assms(1)] by (simp_all only: utf8_to_utf16_size_def add_0)
  have "csize * (?n + 1) \<le> SIZE_MAX - 1"
    using assms(3) n(3) mult_le_mono2 [of "?n + 1" "length (utf8_text us) + 2" csize] by linarith
  then have "?n + 1 \<le> (SIZE_MAX - 1) div csize"
    using csize_pos by (simp add: less_eq_div_iff_mult_less_eq mult.commute)
  moreover have "csize * ?n < (?n + 1) * csize + 1" by simp
  ultimately show ?thesis
    using n csize_pos conv_loop_ok [OF assms(2), of "[]" "(?n + 1) * csize + 1"]
    by (simp add: utf8_to_string_def Let_def)
qed

theorem utf8_to_string_correct:
  assumes "is_cstr s" "csize * (length s + 2) < SIZE_MAX"
  shows "case utf8_to_string s csize conv of
      None \<Rightarrow> \<nexists>us. us \<noteq> [] \<and> list_all scalar us \<and> s = utf8_text us
    | Some r \<Rightarrow> \<exists>us. us \<noteq> [] \<and> list_all scalar us \<and> s = utf8_text us \<and> reader r = concat (map utf16 us) \<and> list_all safe r"
proof (cases "\<exists>us. us \<noteq> [] \<and> list_all scalar us \<and> s = utf8_text us")
  case True
  then obtain us where us: "us \<noteq> []" "list_all scalar us" "s = utf8_text us" by blast
  then have "utf8_to_string s csize conv = Some (concat (map esc (concat (map utf16 us))))"
    using utf8_to_string_text assms(2) by blast
  moreover have small: "\<forall>u \<in> set (concat (map utf16 us)). u < 0x10000"
    using us(2) utf16_small by (auto simp: list_all_iff)
  moreover have "list_all safe (concat (map esc (concat (map utf16 us))))"
    using small esc_safe by (auto simp: list_all_iff)
  ultimately show ?thesis
    using us by (auto simp: reader_units)
next
  case False
  have "utf8_to_string s csize conv = None"
  proof (rule ccontr)
    assume "utf8_to_string s csize conv \<noteq> None"
    then have "0 < utf8_to_utf16_size s" "\<exists>sz r. conv_loop conv sz s [] = Some r"
      by (auto simp: utf8_to_string_def Let_def split: if_splits)
    then show False
      using conv_loop_accepts [OF _ assms(1)] False by (force simp: utf8_to_utf16_size_def)
  qed
  with False show ?thesis by simp
qed

end

subsection \<open>The two conversions\<close>

definition js_esc :: "nat \<Rightarrow> string" where
  "js_esc u =
     (if u \<le> 0xFF then
        if u = 0x22 \<or> u = 0x27 \<or> u = 0x5C \<or> \<not> isprint u then CHR 0x5C # ''x'' @ pad0 2 (show_hex u) else [char_of u]
      else CHR 0x5C # ''u'' @ pad0 4 (show_hex u))"

definition html_esc :: "nat \<Rightarrow> string" where
  "html_esc u =
     (if 0xFF < u \<or> u = 0x26 \<or> u = 0x3C \<or> u = 0x3E \<or> u = 0x22 \<or> u = 0x27 \<or> \<not> isprint u then ''&#'' @ show_nat u @ '';'' else [char_of u])"

definition js_safe :: "char \<Rightarrow> bool" where
  "js_safe c \<longleftrightarrow> (let n = of_char c in isprint n \<and> n \<noteq> 0x22 \<and> n \<noteq> 0x27)"

definition html_safe :: "char \<Rightarrow> bool" where
  "html_safe c \<longleftrightarrow> (let n = of_char c in isprint n \<and> n \<noteq> 0x3C \<and> n \<noteq> 0x3E \<and> n \<noteq> 0x22 \<and> n \<noteq> 0x27)"

lemma show_hex_length: "n < 16 ^ Suc k \<Longrightarrow> length (show_hex n) \<le> Suc k"
proof (induction k arbitrary: n)
  case (Suc k)
  then have "n div 16 < 16 ^ Suc k" by (simp add: less_mult_imp_div_less)
  with Suc.IH show ?case by (cases "n < 16") (simp_all add: show_hex.simps [of n])
qed (simp add: show_hex.simps)

lemma pad0_hex:
  assumes "n < 16 ^ Suc k"
  shows "length (pad0 (Suc k) (show_hex n)) = Suc k" "xdigits_value (pad0 (Suc k) (show_hex n)) = n"
    "c \<in> set (pad0 (Suc k) (show_hex n)) \<Longrightarrow> isxdigit c"
proof -
  have "xdigits_value (replicate i CHR ''0'' @ s) = xdigits_value s" for i s
    by (induction i) (simp_all add: xdigits_value_def xdigit_value_def isdigit_def)
  then show "xdigits_value (pad0 (Suc k) (show_hex n)) = n"
    by (simp add: pad0_def xdigits_value_show_hex)
  show "length (pad0 (Suc k) (show_hex n)) = Suc k"
    using show_hex_length [OF assms] by (simp add: pad0_def)
  show "c \<in> set (pad0 (Suc k) (show_hex n)) \<Longrightarrow> isxdigit c"
    by (auto simp: pad0_def isxdigit_def isdigit_def dest: show_hex_digits)
qed

lemma pad0_hex2:
  assumes "n < 256"
  shows "length (pad0 2 (show_hex n)) = 2" "xdigits_value (pad0 2 (show_hex n)) = n" "c \<in> set (pad0 2 (show_hex n)) \<Longrightarrow> isxdigit c"
  using assms pad0_hex(1,2) [of n 1] pad0_hex(3) [of n 1 c] by (simp_all add: numeral_2_eq_2)

lemmas pad0_hex4 = pad0_hex [where k = 3, simplified]

lemma isprint_digits: "isxdigit c \<Longrightarrow> js_safe c" "isdigit c \<Longrightarrow> html_safe c"
  by (auto simp: isxdigit_def isdigit_def js_safe_def html_safe_def isprint_def Let_def)

lemma js_read_plain: "c \<noteq> CHR 0x5C \<Longrightarrow> js_read (c # s) = of_char c # js_read s"
  by simp

lemma js_read_x: "length d = 2 \<Longrightarrow> js_read (CHR 0x5C # ''x'' @ d @ r) = xdigits_value d # js_read r"
  and js_read_u: "length d = 4 \<Longrightarrow> js_read (CHR 0x5C # ''u'' @ d @ r) = xdigits_value d # js_read r"
  by (simp_all add: hd0_def)

lemma html_read_ref: "html_read (''&#'' @ show_nat u @ '';'' @ r) = u # html_read r"
  using show_nat_digits by (simp add: hd0_def takeWhile_append2 dropWhile_append2) (simp add: isdigit_def)

lemma char_of_neq: "u \<le> 0xFF \<Longrightarrow> u \<noteq> of_char c \<Longrightarrow> char_of u \<noteq> c" for u :: nat
  by auto

lemma js_safe_plain: "u \<le> 0xFF \<Longrightarrow> isprint u \<Longrightarrow> u \<noteq> 0x22 \<Longrightarrow> u \<noteq> 0x27 \<Longrightarrow> js_safe (char_of u)"
  and html_safe_plain: "u \<le> 0xFF \<Longrightarrow> isprint u \<Longrightarrow> u \<noteq> 0x3C \<Longrightarrow> u \<noteq> 0x3E \<Longrightarrow> u \<noteq> 0x22 \<Longrightarrow> u \<noteq> 0x27 \<Longrightarrow> html_safe (char_of u)"
  by (simp_all add: js_safe_def html_safe_def)

lemma esc_marks: "js_safe CHR 0x5C" "js_safe CHR ''x''" "js_safe CHR ''u''" "html_safe CHR ''&''" "html_safe CHR ''#''" "html_safe CHR '';''"
  by (simp_all add: js_safe_def html_safe_def isprint_def)

interpretation js: unit_text js_utf16_char 6 js_esc js_read js_safe
proof
  fix u :: nat and rem :: nat and r :: string
  assume u: "u < 0x10000"
  show "js_utf16_char u rem = fits (js_esc u) rem"
    by (auto simp: js_utf16_char_def js_esc_def fits_def Let_def)
  show "length (js_esc u) \<le> 6"
    using u pad0_hex2(1) [of u] pad0_hex4(1) [of u] by (auto simp: js_esc_def)
  show "js_read (js_esc u @ r) = u # js_read r"
    using u pad0_hex2(1,2) [of u] pad0_hex4(1,2) [of u] js_read_x [of "pad0 2 (show_hex u)" r] js_read_u [of "pad0 4 (show_hex u)" r]
      js_read_plain [of "char_of u" r] char_of_neq [of u "CHR 0x5C"]
    by (auto simp: js_esc_def)
  show "list_all js_safe (js_esc u)"
    using u pad0_hex2(3) [of u] pad0_hex4(3) [of u] js_safe_plain [of u]
    by (auto simp: js_esc_def list_all_iff isprint_digits esc_marks)
qed simp_all

interpretation html: unit_text html_utf16_char 8 html_esc html_read html_safe
proof
  fix u :: nat and rem :: nat and r :: string
  assume u: "u < 0x10000"
  show "html_utf16_char u rem = fits (html_esc u) rem"
    by (auto simp: html_utf16_char_def html_esc_def fits_def Let_def)
  show "length (html_esc u) \<le> 8"
    using u length_show_nat [of u 4] by (auto simp: html_esc_def)
  show "html_read (html_esc u @ r) = u # html_read r"
    using html_read_ref [of u r] char_of_neq [of u "CHR ''&''"] by (auto simp: html_esc_def)
  show "list_all html_safe (html_esc u)"
    using show_nat_digits [of _ u] html_safe_plain [of u]
    by (auto simp: html_esc_def list_all_iff isprint_digits esc_marks)
qed simp_all

lemma byte_le: "(of_char c :: nat) \<le> 0xFF"
  using nat_of_char_less_256 [of c] by linarith

lemma js_char_esc: "js_char c = js_esc (of_char c)"
proof -
  have "drop_bit 4 n = n div 16" "n AND 0x0F = n mod 16" for n :: nat
    by (simp_all add: drop_bit_eq_div low_bits)
  moreover have "pad0 2 (show_hex n) = [hex_digit (n div 16), hex_digit (n mod 16)]" if "n < 256" for n
  proof -
    from that have "n div 16 < 16" by (simp add: less_mult_imp_div_less)
    then show ?thesis
      by (simp add: pad0_def show_hex.simps [of n] show_hex.simps [of "n div 16"]) (simp add: hex_digit_def char_of_def bit_0)
  qed
  ultimately show ?thesis
    using byte_le [of c] by (simp add: js_char_def js_esc_def Let_def)
qed

lemma html_char_esc: "html_char c = html_esc (of_char c)"
  using byte_le [of c] by (auto simp: html_char_def html_esc_def Let_def)

lemma bytes_small: "\<forall>u \<in> set (map of_char s). u < (0x10000 :: nat)"
  by (auto intro: le_less_trans [OF byte_le])

subsection \<open>Properties\<close>

text \<open>C9: \<^verbatim>\<open>utf8_to_js_string\<close> accepts exactly the non-empty texts in well-formed UTF-8, and never fails for want of room
  in its buffer.  What it returns has no quotes and only printable characters, so that it cannot end the quoted text it is
  put into, and a reader of scripts gets the units of sixteen bits of the text back.\<close>

theorem utf8_to_js_string_correct:
  assumes "is_cstr s" "length s < 2 ^ 31"
  shows "case utf8_to_js_string s of
      None \<Rightarrow> \<nexists>us. us \<noteq> [] \<and> list_all scalar us \<and> s = utf8_text us
    | Some r \<Rightarrow> \<exists>us. us \<noteq> [] \<and> list_all scalar us \<and> s = utf8_text us \<and> js_read r = concat (map utf16 us) \<and> list_all js_safe r"
  using js.utf8_to_string_correct [OF assms(1)] assms(2) by (simp add: utf8_to_js_string_def SIZE_MAX_def)

theorem utf8_to_js_string_correct_witness:
  "case utf8_to_js_string (map char_of [0x61, 0x22, 0xC3, 0xA9, 0xE2, 0x82, 0xAC, 0xF0, 0x9F, 0x98, 0x80 :: nat]) of
      None \<Rightarrow> \<nexists>us. us \<noteq> [] \<and> list_all scalar us \<and>
        map char_of [0x61, 0x22, 0xC3, 0xA9, 0xE2, 0x82, 0xAC, 0xF0, 0x9F, 0x98, 0x80 :: nat] = utf8_text us
    | Some r \<Rightarrow> \<exists>us. us \<noteq> [] \<and> list_all scalar us \<and>
        map char_of [0x61, 0x22, 0xC3, 0xA9, 0xE2, 0x82, 0xAC, 0xF0, 0x9F, 0x98, 0x80 :: nat] = utf8_text us \<and>
        js_read r = concat (map utf16 us) \<and> list_all js_safe r"
  by (rule utf8_to_js_string_correct) (simp_all add: is_cstr_def char_of_def bit_0)

text \<open>\<^verbatim>\<open>js_string\<close> makes any bytes safe for a quoted text in a script, and a reader gets the bytes back.\<close>

theorem js_string_correct:
  assumes "length s < 2 ^ 31"
  shows "\<exists>r. js_string s = Some r \<and> js_read r = map of_char s \<and> list_all js_safe r \<and> length r \<le> 4 * length s"
proof -
  have esc: "map js_char s = map js_esc (map of_char s)"
    by (simp add: js_char_esc)
  have "length (js_char c) \<le> 4" for c
    by (simp add: js_char_def Let_def)
  then have "length (concat (map js_char s)) \<le> 4 * length s"
    by (induction s) (auto intro: add_mono [of _ 4, simplified])
  moreover have "js_string s = Some (concat (map js_char s))"
    using assms by (simp add: js_string_def SIZE_MAX_def)
  moreover have "list_all js_safe (concat (map js_char s))"
    using js.esc_safe bytes_small [of s] unfolding esc by (auto simp: list_all_iff)
  ultimately show ?thesis
    using js.reader_units [OF bytes_small [of s]] by (simp add: esc)
qed

theorem js_string_correct_witness:
  "\<exists>r. js_string ''a>b'' = Some r \<and> js_read r = map of_char ''a>b'' \<and> list_all js_safe r \<and> length r \<le> 4 * length ''a>b''"
  by (rule js_string_correct) simp

text \<open>The same for pages.\<close>

lemma utf8_to_html_string_correct:
  assumes "is_cstr s" "length s < 2 ^ 31"
  shows "case utf8_to_html_string s of
      None \<Rightarrow> \<nexists>us. us \<noteq> [] \<and> list_all scalar us \<and> s = utf8_text us
    | Some r \<Rightarrow> \<exists>us. us \<noteq> [] \<and> list_all scalar us \<and> s = utf8_text us \<and> html_read r = concat (map utf16 us) \<and> list_all html_safe r"
  using html.utf8_to_string_correct [OF assms(1)] assms(2) by (simp add: utf8_to_html_string_def SIZE_MAX_def)

lemma html_string_correct:
  assumes "length s < 2 ^ 31"
  shows "\<exists>r. html_string s = Some r \<and> html_read r = map of_char s \<and> list_all html_safe r"
proof -
  have esc: "map html_char s = map html_esc (map of_char s)"
    by (simp add: html_char_esc)
  have "html_string s = Some (concat (map html_char s))"
    using assms by (simp add: html_string_def SIZE_MAX_def)
  moreover have "list_all html_safe (concat (map html_char s))"
    using html.esc_safe bytes_small [of s] unfolding esc by (auto simp: list_all_iff)
  ultimately show ?thesis
    using html.reader_units [OF bytes_small [of s]] by (simp add: esc)
qed

text \<open>A character outside of the first 65536 is written into a page as two references to surrogates, which are not characters:
  HTML replaces each of them.\<close>

lemma html_surrogates:
  "utf8_to_html_string (utf8_text [0x1F600]) = Some ''&#55357;&#56832;''"
proof -
  have "concat (map html_esc (concat (map utf16 [0x1F600]))) = ''&#55357;&#56832;''"
    by (simp add: html_esc_def utf16_def show_nat.simps digit_char_def char_of_def bit_0)
  moreover have "length (utf8_text [0x1F600]) \<le> 4" "list_all scalar [0x1F600]"
    by (simp_all add: utf8_enc_def scalar_def)
  ultimately show ?thesis
    using html.utf8_to_string_text [of "[0x1F600]"] by (simp add: utf8_to_html_string_def SIZE_MAX_def)
qed

end
