(* ===== verification/Cgi.thy ===== *)
theory Cgi
  imports Records
begin

section \<open>Form data\<close>

text \<open>
  \<^verbatim>\<open>httpd/cgi.c\<close>: the names and values of a request.  The text is changed in place in C; here a function returns what is
  left of it up to the first zero.  The hash table of the C library is a map; one that does not exist is empty.
\<close>

type_synonym cgi = "string \<Rightarrow> string option"

fun unescape :: "string \<Rightarrow> string" where
  "unescape [] = []"
| "unescape (c # s) =
     (if c = CHR ''%'' then
        if 2 \<le> length s \<and> isxdigit (s ! 0) \<and> isxdigit (s ! 1) then
          let c = xdigits_value (take 2 s) in if c = 0 then [] else char_of c # unescape (drop 2 s)
        else []
      else if c = CHR ''+'' then CHR '' '' # unescape s
      else c # unescape s)"

text \<open>The loop of \<^verbatim>\<open>str_replace\<close>: what lies before \<^verbatim>\<open>ptr\<close> and after it.\<close>

function replace_loop :: "nat \<Rightarrow> string \<Rightarrow> string \<Rightarrow> string \<Rightarrow> string \<Rightarrow> int \<times> string" where
  "replace_loop str_size src des pre ptr =
     (case strstr ptr src of
        None \<Rightarrow> (0, pre @ ptr)
      | Some off \<Rightarrow>
          if src = [] then (- 1, pre @ ptr)
          else if length src < length des \<and> str_size \<le> length (pre @ ptr) + (length des - length src) then (- 1, pre @ ptr)
          else replace_loop str_size src des (pre @ take off ptr @ des) (drop (off + length src) ptr))"
  by pat_completeness auto

termination
proof (relation "measure (\<lambda>(str_size, src, des, pre, ptr). length ptr)", simp)
  fix str_size src des pre ptr off
  assume "strstr ptr src = Some off" "src \<noteq> []"
  then show "((str_size, src, des, pre @ take off ptr @ des, drop (off + length src) ptr), str_size, src, des, pre, ptr)
      \<in> measure (\<lambda>(str_size, src, des, pre, ptr). length ptr)"
    using strstr_Some [of ptr src off] by (cases src) auto
qed

definition str_replace :: "string \<Rightarrow> nat \<Rightarrow> string \<Rightarrow> string \<Rightarrow> int \<times> string" where
  "str_replace str str_size str_src str_des =
     (if str_size = 0 \<or> str_src = [] then (- 1, str)
      else if str_size \<le> length str then (- 1, str)
      else replace_loop str_size str_src str_des [] str)"

definition webcgi_get :: "cgi \<Rightarrow> string \<Rightarrow> string option" where
  "webcgi_get htab name = htab name"

definition webcgi_safeget :: "cgi \<Rightarrow> string \<Rightarrow> string \<Rightarrow> string" where
  "webcgi_safeget htab key def = (case webcgi_get htab key of None \<Rightarrow> def | Some v \<Rightarrow> v)"

definition webcgi_set :: "string \<Rightarrow> string \<Rightarrow> cgi \<Rightarrow> cgi" where
  "webcgi_set name value htab = htab(name \<mapsto> value)"

text \<open>The pieces that repeated calls of \<^verbatim>\<open>strsep\<close> with two separators leave.\<close>

fun pieces :: "string \<Rightarrow> string list" where
  "pieces [] = [[]]"
| "pieces (d # s) =
     (if d = CHR ''&'' \<or> d = CHR '';'' then [] # pieces s
      else case pieces s of [] \<Rightarrow> [[d]] | w # ws \<Rightarrow> (d # w) # ws)"

definition cgi_piece :: "cgi \<Rightarrow> string \<Rightarrow> cgi" where
  "cgi_piece htab value =
     (let value = snd (str_replace value (length value + 1) ''%u'' ''~u'');
          value = unescape value
      in case strchr value (CHR ''='') of
           None \<Rightarrow> htab
         | Some k \<Rightarrow> webcgi_set (take k value) (drop (Suc k) value) htab)"

definition webcgi_init :: "string option \<Rightarrow> cgi" where
  "webcgi_init query = (case query of None \<Rightarrow> Map.empty | Some query \<Rightarrow> foldl cgi_piece Map.empty (pieces query))"

subsection \<open>Replacing\<close>

declare replace_loop.simps [simp del]

lemma replace_loop_bound: "length (pre @ ptr) < str_size \<Longrightarrow> length (snd (replace_loop str_size src des pre ptr)) < str_size"
proof (induction str_size src des pre ptr rule: replace_loop.induct)
  case (1 str_size src des pre ptr)
  show ?case
  proof (cases "strstr ptr src")
    case None
    with 1(2) show ?thesis by (simp add: replace_loop.simps [of str_size src])
  next
    case (Some off)
    have "off + length src \<le> length ptr"
      using strstr_Some [OF Some] by blast
    then show ?thesis
      using 1(1) [OF Some] 1(2) by (subst replace_loop.simps) (auto simp: Some)
  qed
qed

lemma str_replace_bound: "length str < str_size \<Longrightarrow> length (snd (str_replace str str_size src des)) < str_size"
  by (simp add: str_replace_def replace_loop_bound)

lemma str_replace_absent: "strstr str src = None \<Longrightarrow> snd (str_replace str sz src des) = str"
  by (simp add: str_replace_def replace_loop.simps)

subsection \<open>What a client sends\<close>

definition is_ascii_alnum :: "char \<Rightarrow> bool" where
  "is_ascii_alnum c \<longleftrightarrow>
     (let n = (of_char c :: nat) in 65 \<le> n \<and> n \<le> 90 \<or> 97 \<le> n \<and> n \<le> 122 \<or> 48 \<le> n \<and> n \<le> 57)"

text \<open>The encoding of a form: bytes other than letters and digits as a percent sign and two digits, names and values
  joined by equals signs, pairs by ampersands.\<close>

definition enc_char :: "char \<Rightarrow> string" where
  "enc_char c =
     (if is_ascii_alnum c then [c]
      else CHR ''%'' # [hex_digit (of_char c div 16), hex_digit (of_char c mod 16)])"

definition urlenc :: "string \<Rightarrow> string" where
  "urlenc s = concat (map enc_char s)"

definition form_text :: "(string \<times> string) list \<Rightarrow> string" where
  "form_text ps = joined ''&'' (map (\<lambda>(n, v). urlenc n @ ''='' @ urlenc v) ps)"

lemma hex_digits_value: "n < 256 \<Longrightarrow> xdigits_value [hex_digit (n div 16), hex_digit (n mod 16)] = n"
  using hex_digit_value [of "n div 16"] hex_digit_value [of "n mod 16"] by (simp add: xdigits_value_def less_mult_imp_div_less)

lemma unescape_urlenc: "is_cstr s \<Longrightarrow> unescape (urlenc s @ r) = s @ unescape r"
proof (induction s)
  case (Cons c s)
  let ?n = "of_char c :: nat"
  have IH: "unescape (urlenc s @ r) = s @ unescape r"
    using Cons by (simp add: is_cstr_def)
  show ?case
  proof (cases "is_ascii_alnum c")
    case True
    then have "c \<noteq> CHR ''%''" "c \<noteq> CHR ''+''"
      by (auto simp: is_ascii_alnum_def)
    with True IH show ?thesis by (simp add: urlenc_def enc_char_def)
  next
    case False
    have n: "?n < 256" "?n \<noteq> 0"
      using Cons.prems of_char_eq_iff [where 'a = nat, of c NUL] by (auto simp: is_cstr_def)
    then have "isxdigit (hex_digit (?n div 16))" "isxdigit (hex_digit (?n mod 16))"
      by (simp_all add: hex_digit_value less_mult_imp_div_less)
    with False IH n hex_digits_value [OF n(1)] show ?thesis
      by (simp add: urlenc_def enc_char_def numeral_2_eq_2)
  qed
qed (simp add: urlenc_def)

text \<open>A percent sign is never followed by the letter that \<^verbatim>\<open>webcgi_init\<close> looks for.\<close>

fun no_unicode_escape :: "string \<Rightarrow> bool" where
  "no_unicode_escape [] \<longleftrightarrow> True"
| "no_unicode_escape (c # s) \<longleftrightarrow> \<not> (c = CHR ''%'' \<and> hd0 s = CHR ''u'') \<and> no_unicode_escape s"

lemma strstr_no_unicode: "no_unicode_escape s \<Longrightarrow> strstr s ''%u'' = None"
proof (induction s)
  case (Cons c s)
  then have "\<not> prefix ''%u'' (c # s)" by (cases s) auto
  with Cons show ?case by (simp add: strstr.simps [of "c # s"])
qed (simp add: strstr.simps)

lemma enc_no_unicode: "no_unicode_escape r \<Longrightarrow> no_unicode_escape (urlenc s @ r)"
proof (induction s)
  case (Cons c s)
  have "hex_digit d \<noteq> CHR ''%''" "hex_digit d \<noteq> CHR ''u''" if "d < 16" for d
    using hex_digit_value [OF that] by (auto simp: isxdigit_def isdigit_def)
  moreover have "of_char c div 16 < (16 :: nat)" "of_char c mod 16 < (16 :: nat)"
    by (simp_all add: less_mult_imp_div_less)
  moreover have "is_ascii_alnum c \<Longrightarrow> c \<noteq> CHR ''%''"
    by (auto simp: is_ascii_alnum_def)
  ultimately show ?case
    using Cons by (simp add: urlenc_def enc_char_def)
qed (simp add: urlenc_def)

lemma urlenc_chars: "c \<in> set (urlenc s) \<Longrightarrow> is_ascii_alnum c \<or> c = CHR ''%''"
proof -
  have "is_ascii_alnum (hex_digit d)" if "d < 16" for d
    using hex_digit_value [OF that] by (auto simp: isxdigit_def isdigit_def is_ascii_alnum_def Let_def)
  moreover have "of_char d div 16 < (16 :: nat)" "of_char d mod 16 < (16 :: nat)" for d
    by (simp_all add: less_mult_imp_div_less)
  ultimately show "c \<in> set (urlenc s) \<Longrightarrow> is_ascii_alnum c \<or> c = CHR ''%''"
    by (auto simp: urlenc_def enc_char_def split: if_splits)
qed

lemma pieces_single: "CHR ''&'' \<notin> set w \<Longrightarrow> CHR '';'' \<notin> set w \<Longrightarrow> pieces w = [w]"
  by (induction w) auto

lemma pieces_append: "CHR ''&'' \<notin> set w \<Longrightarrow> CHR '';'' \<notin> set w \<Longrightarrow> pieces (w @ CHR ''&'' # s) = w # pieces s"
  by (induction w) auto

lemma pieces_joined:
  "ws \<noteq> [] \<Longrightarrow> list_all (\<lambda>w. CHR ''&'' \<notin> set w \<and> CHR '';'' \<notin> set w) ws \<Longrightarrow> pieces (joined ''&'' ws) = ws"
proof (induction ws)
  case (Cons w ws)
  then show ?case
    by (cases "ws = []") (auto simp: pieces_single pieces_append joined_Cons)
qed simp

lemma cgi_piece_pair:
  assumes "is_cstr n" "is_cstr v" "CHR ''='' \<notin> set n"
  shows "cgi_piece htab (urlenc n @ ''='' @ urlenc v) = htab(n \<mapsto> v)"
proof -
  have "unescape (urlenc n @ ''='' @ urlenc v) = n @ CHR ''='' # v"
    using assms unescape_urlenc [of n "''='' @ urlenc v"] unescape_urlenc [of v "[]"] by simp
  moreover have "no_unicode_escape (urlenc n @ ''='' @ urlenc v)"
    using enc_no_unicode [of "[]" v] by (intro enc_no_unicode) simp
  moreover have "takeWhile (\<lambda>d. d \<noteq> CHR ''='') (n @ CHR ''='' # v) = n"
    using assms(3) by (subst takeWhile_append2) auto
  ultimately show ?thesis
    by (simp add: cgi_piece_def str_replace_absent strstr_no_unicode strchr_def webcgi_set_def)
qed

lemma foldl_updates: "foldl (\<lambda>h (n, v). h(n \<mapsto> v)) h ps = h ++ map_of (rev ps)"
  by (induction ps arbitrary: h) (auto simp: map_add_def fun_eq_iff split: option.splits)

subsection \<open>Properties\<close>

text \<open>C35: reading the encoded form of a list of names and values gives exactly this list, the last value of a name
  counting, for all bytes in the values and names without equals signs.\<close>

theorem form_roundtrip:
  assumes "list_all (\<lambda>(n, v). is_cstr n \<and> is_cstr v \<and> CHR ''='' \<notin> set n) ps"
  shows "webcgi_init (Some (form_text ps)) = map_of (rev ps)"
proof (cases "ps = []")
  case True
  then show ?thesis
    by (simp add: webcgi_init_def form_text_def cgi_piece_def str_replace_absent strstr.simps strchr_def)
next
  case False
  let ?w = "\<lambda>(n, v). urlenc n @ ''='' @ urlenc v"
  have "list_all (\<lambda>w. CHR ''&'' \<notin> set w \<and> CHR '';'' \<notin> set w) (map ?w ps)"
    by (auto simp: list_all_iff is_ascii_alnum_def dest!: urlenc_chars)
  then have "pieces (form_text ps) = map ?w ps"
    unfolding form_text_def using False by (intro pieces_joined) auto
  moreover have "foldl cgi_piece h (map ?w ps) = foldl (\<lambda>h (n, v). h(n \<mapsto> v)) h ps" for h
    using assms by (induction ps arbitrary: h) (auto simp: cgi_piece_pair simp del: append_Cons append_Nil)
  ultimately show ?thesis
    by (simp add: webcgi_init_def foldl_updates)
qed

theorem form_roundtrip_witness:
  "webcgi_init (Some (form_text [(''a'', ''1&2''), (''b'', ''%'')])) = map_of (rev [(''a'', ''1&2''), (''b'', ''%'')])"
  by (rule form_roundtrip) (simp add: is_cstr_def)

text \<open>A name with an equals sign is lost: the piece is decoded before it is split.\<close>

lemma encoded_equals_splits:
  "webcgi_init (Some (form_text [(''a=b'', ''c'')])) = [''a'' \<mapsto> ''b=c'']"
proof -
  have "form_text [(''a=b'', ''c'')] = ''a%3db=c''"
    by code_simp
  moreover have "pieces ''a%3db=c'' = [''a%3db=c'']" "strstr ''a%3db=c'' ''%u'' = None" "unescape ''a%3db=c'' = ''a=b=c''"
    by code_simp+
  ultimately show ?thesis
    by (simp add: webcgi_init_def cgi_piece_def str_replace_absent webcgi_set_def strchr_def)
qed

end
