(* ===== verification/Forms.thy ===== *)
theory Forms
  imports Cgi Wan
begin

section \<open>Saving settings\<close>

text \<open>
  The handler of \<^verbatim>\<open>tomato.cgi\<close> in \<^verbatim>\<open>httpd/tomato.c\<close>: it checks every posted variable that is in the table
  \<^verbatim>\<open>nvset_list\<close>, stores them, and tells \<^verbatim>\<open>init\<close> which services to restart.  The table is an argument, and so is
  the test of IPv6 addresses of the C library.  In this build the per-interface wireless variables are compiled out
  and the fast reboot is compiled in; output goes to a page that is named.
\<close>

datatype vtype =
    VT_NONE
  | VT_LENGTH nat nat
  | VT_TEXT nat nat
  | VT_RANGE int int
  | VT_IP bool
  | VT_MAC
  | VT_IPV6 bool
  | VT_TEMP

record nvset =
  nv_name :: string
  nv_vtype :: vtype

subsection \<open>Checking one value\<close>

definition unix_string :: "string \<Rightarrow> string" where
  "unix_string s = filter (\<lambda>c. c \<noteq> CHR 13) s"

text \<open>The conversion \<^verbatim>\<open>%3u\<close>: at most three characters with the sign; a negative number wraps around.\<close>

definition scan_u3 :: "string \<Rightarrow> (nat \<times> string) option" where
  "scan_u3 s =
     (let s = dropWhile isspace s;
          sign = hd0 s = CHR ''-'' \<or> hd0 s = CHR ''+'';
          r = (if sign then tl s else s);
          d = take (if sign then 2 else 3) (takeWhile isdigit r);
          n = digits_value d
      in if d = [] then None
         else Some (if hd0 s = CHR ''-'' \<and> n \<noteq> 0 then 2 ^ 32 - n else n, drop (length d) r))"

fun scan_quad :: "nat \<Rightarrow> string \<Rightarrow> bool" where
  "scan_quad n s =
     (case scan_u3 s of
        None \<Rightarrow> False
      | Some (u, r) \<Rightarrow>
          u \<le> 255 \<and> (case n of 0 \<Rightarrow> r = [] | Suc m \<Rightarrow> hd0 r = CHR ''.'' \<and> scan_quad m (tl r)))"

definition negative_field :: "string \<Rightarrow> bool" where
  "negative_field s = (let s = dropWhile isspace s in hd0 s = CHR ''-'' \<and> hd0 (tl s) \<noteq> CHR ''0'')"

fun scan_mac_u :: "nat \<Rightarrow> string \<Rightarrow> bool" where
  "scan_mac_u 0 s = True"
| "scan_mac_u (Suc n) s =
     (case scan_hh s of
        None \<Rightarrow> False
      | Some r \<Rightarrow> \<not> negative_field s \<and> (n = 0 \<or> (hd0 r = CHR '':'' \<and> scan_mac_u n (tl r))))"

text \<open>The value to store, or \<open>None\<close> when the value posted is not allowed.\<close>

definition check_value :: "(string \<Rightarrow> bool) \<Rightarrow> vtype \<Rightarrow> string \<Rightarrow> string option" where
  "check_value pton6 t p =
     (case t of
        VT_TEXT a b \<Rightarrow> let p = unix_string p in if length p < a \<or> b < length p then None else Some p
      | VT_LENGTH a b \<Rightarrow> if length p < a \<or> b < length p then None else Some p
      | VT_RANGE a b \<Rightarrow>
          (case scan_num p of None \<Rightarrow> None | Some (l, e) \<Rightarrow> if e \<noteq> [] \<or> l < a \<or> b < l then None else Some p)
      | VT_IP req \<Rightarrow> if (p \<noteq> [] \<or> req) \<and> \<not> scan_quad 3 p then None else Some p
      | VT_MAC \<Rightarrow> if scan_mac_u 6 p then Some p else None
      | VT_IPV6 req \<Rightarrow> if (p \<noteq> [] \<or> req) \<and> \<not> pton6 p then None else Some p
      | _ \<Rightarrow> Some p)"

text \<open>The results of the C function: -1, 0 and 1.\<close>

definition webcgi_nvram_set :: "(string \<Rightarrow> bool) \<Rightarrow> cgi \<Rightarrow> bool \<Rightarrow> nvset \<Rightarrow> nvram \<Rightarrow> int \<times> nvram" where
  "webcgi_nvram_set pton6 htab write v nv =
     (case webcgi_get htab (nv_name v) of
        None \<Rightarrow> (0, nv)
      | Some p \<Rightarrow>
          (case check_value pton6 (nv_vtype v) p of
             None \<Rightarrow> (- 1, nv)
           | Some p \<Rightarrow>
               if write \<and> \<not> nvram_match nv (nv_name v) p
               then (if nv_vtype v = VT_TEMP then 0 else 1, nv(nv_name v \<mapsto> p))
               else (0, nv)))"

subsection \<open>Saving all variables\<close>

definition invalid_msg :: "string \<Rightarrow> string" where
  "invalid_msg name = strlcpy (''The field '' @ [CHR 34] @ name @ [CHR 34] @ '' is invalid. Please report this problem.'') 256"

fun save_list :: "(string \<Rightarrow> bool) \<Rightarrow> cgi \<Rightarrow> bool \<Rightarrow> nvset list \<Rightarrow> bool \<Rightarrow> nvram \<Rightarrow> (string + bool) \<times> nvram" where
  "save_list pton6 htab write [] dirty nv = (Inr dirty, nv)"
| "save_list pton6 htab write (v # vs) dirty nv =
     (let (ok, nv) = webcgi_nvram_set pton6 htab write v nv
      in if ok < 0 then (Inl (invalid_msg (nv_name v)), nv)
         else save_list pton6 htab write vs (dirty \<or> ok \<noteq> 0) nv)"

definition save_password :: "cgi \<Rightarrow> bool \<Rightarrow> bool \<Rightarrow> nvram \<Rightarrow> (string + bool) \<times> nvram" where
  "save_password htab write dirty nv =
     (case webcgi_get htab ''set_password_1'' of
        None \<Rightarrow> (Inr dirty, nv)
      | Some p1 \<Rightarrow>
          if p1 = ''**********'' then (Inr dirty, nv)
          else if webcgi_get htab ''set_password_2'' = Some p1 then
            if write \<and> \<not> nvram_match nv ''http_passwd'' p1 then (Inr True, nv(''http_passwd'' \<mapsto> p1)) else (Inr dirty, nv)
          else (Inl (invalid_msg ''password''), nv))"

definition rule_var :: "nat \<Rightarrow> string" where
  "rule_var n = ''rrule'' @ show_nat n"

fun save_rules :: "cgi \<Rightarrow> bool \<Rightarrow> nat list \<Rightarrow> bool \<Rightarrow> nvram \<Rightarrow> (string + bool) \<times> nvram" where
  "save_rules htab write [] dirty nv = (Inr dirty, nv)"
| "save_rules htab write (n # ns) dirty nv =
     (let s = rule_var n
      in case webcgi_get htab s of
           None \<Rightarrow> save_rules htab write ns dirty nv
         | Some p \<Rightarrow>
             if 2048 < length p then (Inl (invalid_msg s), nv)
             else if write \<and> \<not> nvram_match nv s p then save_rules htab write ns True (nv(s \<mapsto> p))
             else save_rules htab write ns dirty nv)"

text \<open>The message of the first error, or the result.\<close>

definition save_variables :: "(string \<Rightarrow> bool) \<Rightarrow> nvset list \<Rightarrow> cgi \<Rightarrow> bool \<Rightarrow> nvram \<Rightarrow> (string + bool) \<times> nvram" where
  "save_variables pton6 nvset_list htab write nv =
     (case save_list pton6 htab write nvset_list False nv of
        (Inl msg, nv) \<Rightarrow> (Inl msg, nv)
      | (Inr dirty, nv) \<Rightarrow>
          (case save_password htab write dirty nv of
             (Inl msg, nv) \<Rightarrow> (Inl msg, nv)
           | (Inr dirty, nv) \<Rightarrow>
               (case save_rules htab write [0..<50] dirty nv of
                  (Inl msg, nv) \<Rightarrow> (Inl msg, nv)
                | (Inr dirty, nv) \<Rightarrow> (Inr (if write then dirty else True), nv))))"

subsection \<open>The handler\<close>

datatype page = No_page | Message string | Error_asp | Reboot_asp | Reboot_fast_asp | Saved_moved_asp | Saved_asp

datatype wo_action =
    Commit nvram
  | Restart_all
  | Exec_service string
  | Sleep int
  | Redirect string
  | Kill_init
  | Fast_reboot

text \<open>The page, the variables afterwards and what was done, in order.  \<^verbatim>\<open>exec_service\<close> stores the name of the service for
  \<^verbatim>\<open>init\<close> and signals it.\<close>

definition cgi_int :: "cgi \<Rightarrow> string \<Rightarrow> string \<Rightarrow> int" where
  "cgi_int htab key def = atoi (webcgi_safeget htab key def)"

definition shown_page :: "cgi \<Rightarrow> string \<Rightarrow> page" where
  "shown_page htab msg =
     (if cgi_int htab ''_reboot'' ''0'' \<noteq> 0 then Reboot_asp
      else if cgi_int htab ''_fastreboot'' ''0'' \<noteq> 0 then Reboot_fast_asp
      else if cgi_int htab ''_ajax'' ''0'' \<noteq> 0 then Message msg
      else if cgi_int htab ''_moveip'' ''0'' \<noteq> 0 \<or> cgi_int htab ''dhcp_moveip'' ''0'' \<noteq> 0 then Saved_moved_asp
      else if webcgi_safeget htab ''_redirect'' [] = [] then Saved_asp
      else No_page)"

definition exec_service :: "string \<Rightarrow> nvram \<Rightarrow> nvram" where
  "exec_service action nv = nv(''action_service'' \<mapsto> action)"

definition run_service :: "cgi \<Rightarrow> nvram \<Rightarrow> nvram \<times> wo_action list" where
  "run_service htab nv =
     (case webcgi_get htab ''_service'' of
        None \<Rightarrow> (nv, [])
      | Some v \<Rightarrow>
          if v = [] then (nv, [])
          else if hd v = CHR ''*'' then (nv, [Sleep 1, Restart_all])
          else (exec_service v nv, [Sleep 1, Exec_service v]))"

definition last_actions :: "cgi \<Rightarrow> wo_action list" where
  "last_actions htab =
     (let redir = webcgi_safeget htab ''_redirect'' []
      in [Sleep (max 0 (cgi_int htab ''_sleep'' ''0''))] @ (if redir \<noteq> [] then [Redirect redir] else []) @
         (if cgi_int htab ''_reboot'' ''0'' \<noteq> 0 then [Sleep 1, Kill_init] else []) @
         (if cgi_int htab ''_fastreboot'' ''0'' \<noteq> 0 then [Fast_reboot] else []))"

definition nvram_commit_x :: "nvram \<Rightarrow> wo_action list" where
  "nvram_commit_x nv = (if nvram_get_int nv ''debug_nocommit'' = 0 then [Commit nv] else [])"

definition wo_finish :: "cgi \<Rightarrow> bool \<Rightarrow> string \<Rightarrow> nvram \<Rightarrow> page \<times> nvram \<times> wo_action list" where
  "wo_finish htab commit msg nv =
     (let (nv', acts) = run_service htab nv
      in (shown_page htab msg, nv',
          (if commit \<or> cgi_int htab ''_force_commit'' ''0'' \<noteq> 0 then nvram_commit_x nv else []) @ acts @ last_actions htab))"

definition wo_tomato :: "(string \<Rightarrow> bool) \<Rightarrow> nvset list \<Rightarrow> cgi \<Rightarrow> nvram \<Rightarrow> page \<times> nvram \<times> wo_action list" where
  "wo_tomato pton6 nvset_list htab nv =
     (let commit = cgi_int htab ''_commit'' ''1'' \<noteq> 0
      in if cgi_int htab ''_nvset'' ''1'' \<noteq> 0 then
           (case save_variables pton6 nvset_list htab False nv of
              (Inl msg, nv) \<Rightarrow> (if cgi_int htab ''_ajax'' ''0'' \<noteq> 0 then Message msg else Error_asp, nv, [])
            | (Inr _, nv) \<Rightarrow>
                (case save_variables pton6 nvset_list htab True nv of
                   (Inl msg, nv) \<Rightarrow> wo_finish htab False ''Settings saved.'' nv
                 | (Inr dirty, nv) \<Rightarrow> wo_finish htab (dirty \<and> commit) ''Settings saved.'' nv))
         else wo_finish htab commit (webcgi_safeget htab ''resmsg'' []) nv)"

subsection \<open>What a form asks for\<close>

text \<open>The names and values that a form asks to store, and whether a change of them has to be committed.\<close>

definition table_requests :: "(string \<Rightarrow> bool) \<Rightarrow> nvset list \<Rightarrow> cgi \<Rightarrow> (string \<times> string \<times> bool) list" where
  "table_requests pton6 ts htab = concat (map (\<lambda>v. case htab (nv_name v) of
       None \<Rightarrow> []
     | Some p \<Rightarrow> (case check_value pton6 (nv_vtype v) p of None \<Rightarrow> [] | Some q \<Rightarrow> [(nv_name v, q, nv_vtype v \<noteq> VT_TEMP)])) ts)"

definition password_requests :: "cgi \<Rightarrow> (string \<times> string \<times> bool) list" where
  "password_requests htab =
     (case htab ''set_password_1'' of None \<Rightarrow> [] | Some p \<Rightarrow> if p = ''**********'' then [] else [(''http_passwd'', p, True)])"

definition rule_requests :: "nat list \<Rightarrow> cgi \<Rightarrow> (string \<times> string \<times> bool) list" where
  "rule_requests ns htab =
     concat (map (\<lambda>n. case htab (rule_var n) of None \<Rightarrow> [] | Some p \<Rightarrow> [(rule_var n, p, True)]) ns)"

definition requested :: "(string \<Rightarrow> bool) \<Rightarrow> nvset list \<Rightarrow> cgi \<Rightarrow> (string \<times> string \<times> bool) list" where
  "requested pton6 ts htab = table_requests pton6 ts htab @ password_requests htab @ rule_requests [0..<50] htab"

definition table_valid :: "(string \<Rightarrow> bool) \<Rightarrow> nvset list \<Rightarrow> cgi \<Rightarrow> bool" where
  "table_valid pton6 ts htab =
     list_all (\<lambda>v. case htab (nv_name v) of None \<Rightarrow> True | Some p \<Rightarrow> check_value pton6 (nv_vtype v) p \<noteq> None) ts"

definition password_valid :: "cgi \<Rightarrow> bool" where
  "password_valid htab \<longleftrightarrow> htab ''set_password_1'' \<in> {None, Some ''**********''} \<or> htab ''set_password_2'' = htab ''set_password_1''"

definition rules_valid :: "nat list \<Rightarrow> cgi \<Rightarrow> bool" where
  "rules_valid ns htab = list_all (\<lambda>n. case htab (rule_var n) of None \<Rightarrow> True | Some p \<Rightarrow> length p \<le> 2048) ns"

definition form_valid :: "(string \<Rightarrow> bool) \<Rightarrow> nvset list \<Rightarrow> cgi \<Rightarrow> bool" where
  "form_valid pton6 ts htab \<longleftrightarrow> table_valid pton6 ts htab \<and> password_valid htab \<and> rules_valid [0..<50] htab"

definition store :: "bool \<times> nvram \<Rightarrow> string \<times> string \<times> bool \<Rightarrow> bool \<times> nvram" where
  "store s r = (let (dirty, nv) = s; (n, v, c) = r in (dirty \<or> c \<and> nv n \<noteq> Some v, nv(n \<mapsto> v)))"

lemma nvram_match_iff: "nvram_match nv n v \<longleftrightarrow> nv n = Some v"
  by (simp add: nvram_match_def split: option.split)

lemma store_eq: "store (dirty, nv) (n, v, c) = (dirty \<or> c \<and> nv n \<noteq> Some v, nv(n \<mapsto> v))"
  by (simp add: store_def)

lemmas save_defs = webcgi_nvram_set_def webcgi_get_def nvram_match_iff store_eq Let_def

lemma upd_same: "nv n = Some v \<Longrightarrow> nv(n \<mapsto> v) = nv"
  by (simp add: fun_upd_idem)

lemma save_list_dry:
  "snd (save_list pton6 htab False ts dirty nv) = nv"
  "\<not> isl (fst (save_list pton6 htab False ts dirty nv)) \<longleftrightarrow> table_valid pton6 ts htab"
  by (induction ts arbitrary: dirty) (auto simp: table_valid_def save_defs split: option.splits prod.splits)

lemma save_list_write:
  "table_valid pton6 ts htab \<Longrightarrow>
    save_list pton6 htab True ts dirty nv = (let (d, nv) = foldl store (dirty, nv) (table_requests pton6 ts htab) in (Inr d, nv))"
proof (induction ts arbitrary: dirty nv)
  case (Cons v ts)
  then show ?case
    by (auto simp: table_valid_def table_requests_def save_defs upd_same split: option.splits)
qed (simp add: table_requests_def)

lemma save_rules_dry:
  "snd (save_rules htab False ns dirty nv) = nv"
  "\<not> isl (fst (save_rules htab False ns dirty nv)) \<longleftrightarrow> rules_valid ns htab"
  by (induction ns arbitrary: dirty) (auto simp: rules_valid_def save_defs split: option.splits prod.splits)

lemma save_rules_write:
  "rules_valid ns htab \<Longrightarrow>
    save_rules htab True ns dirty nv = (let (d, nv) = foldl store (dirty, nv) (rule_requests ns htab) in (Inr d, nv))"
proof (induction ns arbitrary: dirty nv)
  case (Cons v ts)
  then show ?case
    by (auto simp: rules_valid_def rule_requests_def save_defs upd_same split: option.splits)
qed (simp add: rule_requests_def)

lemma save_password_dry:
  "save_password htab False dirty nv = (if password_valid htab then Inr dirty else Inl (invalid_msg ''password''), nv)"
  by (auto simp: save_password_def password_valid_def save_defs split: option.splits)

lemma save_password_write:
  "password_valid htab \<Longrightarrow>
    save_password htab True dirty nv = (let (d, nv) = foldl store (dirty, nv) (password_requests htab) in (Inr d, nv))"
  by (auto simp: save_password_def password_valid_def password_requests_def save_defs upd_same split: option.splits)

lemma save_variables_dry:
  "snd (save_variables pton6 ts htab False nv) = nv"
  "\<not> isl (fst (save_variables pton6 ts htab False nv)) \<longleftrightarrow> form_valid pton6 ts htab"
proof -
  obtain r where r: "save_list pton6 htab False ts False nv = (r, nv)" "\<not> isl r \<longleftrightarrow> table_valid pton6 ts htab"
    using save_list_dry [of pton6 htab ts False nv] by (metis prod.collapse)
  have rules: "\<exists>q. save_rules htab False [0..<50] d nv = (q, nv) \<and> (\<not> isl q \<longleftrightarrow> rules_valid [0..<50] htab)" for d
    using save_rules_dry [of htab "[0..<50]" d nv] by (metis prod.collapse)
  have "\<exists>q. save_variables pton6 ts htab False nv = (q, nv) \<and> (\<not> isl q \<longleftrightarrow> form_valid pton6 ts htab)"
  proof (cases r)
    case (Inl msg)
    with r show ?thesis by (simp add: save_variables_def form_valid_def)
  next
    case (Inr d)
    obtain q where "save_rules htab False [0..<50] d nv = (q, nv)" "\<not> isl q \<longleftrightarrow> rules_valid [0..<50] htab"
      using rules by blast
    with r Inr show ?thesis
      by (cases q) (auto simp: save_variables_def form_valid_def save_password_dry)
  qed
  then show "snd (save_variables pton6 ts htab False nv) = nv"
    "\<not> isl (fst (save_variables pton6 ts htab False nv)) \<longleftrightarrow> form_valid pton6 ts htab"
    by auto
qed

lemma save_variables_write:
  "form_valid pton6 ts htab \<Longrightarrow>
    save_variables pton6 ts htab True nv = (let (d, nv) = foldl store (False, nv) (requested pton6 ts htab) in (Inr d, nv))"
  by (simp add: save_variables_def form_valid_def save_list_write save_password_write save_rules_write requested_def Let_def case_prod_beta)

lemma foldl_store:
  "distinct (map fst rs) \<Longrightarrow> foldl store (dirty, nv) rs =
    (dirty \<or> (\<exists>(n, v, c) \<in> set rs. c \<and> nv n \<noteq> Some v), nv ++ map_of (map (\<lambda>(n, v, c). (n, v)) rs))"
proof (induction rs arbitrary: dirty nv)
  case (Cons r rs)
  obtain n v c where r: "r = (n, v, c)" by (metis prod_cases3)
  with Cons.prems have n: "n \<notin> fst ` set rs" "distinct (map fst rs)" by auto
  have "(\<exists>(m, w, c) \<in> set rs. c \<and> (nv(n \<mapsto> v)) m \<noteq> Some w) \<longleftrightarrow> (\<exists>(m, w, c) \<in> set rs. c \<and> nv m \<noteq> Some w)"
    using n(1) by (force simp: image_iff)
  moreover have "map_of (map (\<lambda>(n, v, c). (n, v)) rs) n = None"
    using n(1) by (force simp: map_of_eq_None_iff)
  then have "nv(n \<mapsto> v) ++ map_of (map (\<lambda>(n, v, c). (n, v)) rs) = nv ++ (map_of (map (\<lambda>(n, v, c). (n, v)) rs))(n \<mapsto> v)"
    by (auto simp: map_add_def fun_eq_iff split: option.splits)
  moreover have "foldl store (dirty, nv) (r # rs) = foldl store (dirty \<or> c \<and> nv n \<noteq> Some v, nv(n \<mapsto> v)) rs"
    by (simp add: r store_eq)
  ultimately show ?case
    unfolding Cons.IH [OF n(2)] by (simp add: r) (simp add: map_add_def fun_eq_iff)
qed simp

subsection \<open>Properties\<close>

text \<open>C7: the settings of a form are stored all or none.  When a value is not allowed, the two passwords differ or a rule is too
  long, no variable changes and nothing is committed or restarted.  Otherwise every posted variable of the table has
  its new value and no other variable changes, up to the order for \<^verbatim>\<open>init\<close>; the variables with all the new values are
  committed if some variable that is not temporary has changed and the form asks for it, or when it insists.\<close>

theorem settings_all_or_none:
  assumes "cgi_int htab ''_nvset'' ''1'' \<noteq> 0" "distinct (map fst (requested pton6 ts htab))"
  shows "let rs = requested pton6 ts htab;
             nv1 = nv ++ map_of (map (\<lambda>(n, v, c). (n, v)) rs);
             changed = (\<exists>(n, v, c) \<in> set rs. c \<and> nv n \<noteq> Some v);
             (page, nv', acts) = wo_tomato pton6 ts htab nv
    in if form_valid pton6 ts htab then
         nv' = fst (run_service htab nv1) \<and>
         acts = (if changed \<and> cgi_int htab ''_commit'' ''1'' \<noteq> 0 \<or> cgi_int htab ''_force_commit'' ''0'' \<noteq> 0 then nvram_commit_x nv1 else []) @
           snd (run_service htab nv1) @ last_actions htab
       else nv' = nv \<and> acts = []"
proof (cases "form_valid pton6 ts htab")
  case True
  with save_variables_dry [of pton6 ts htab nv] obtain d where "save_variables pton6 ts htab False nv = (Inr d, nv)"
    by (metis isl_def prod.collapse sum.exhaust)
  then show ?thesis
    using assms True save_variables_write [OF True, of nv] foldl_store [OF assms(2), of False nv]
    by (simp add: wo_tomato_def wo_finish_def Let_def case_prod_beta)
next
  case False
  with save_variables_dry [of pton6 ts htab nv] obtain msg where "save_variables pton6 ts htab False nv = (Inl msg, nv)"
    by (metis isl_def prod.collapse)
  then show ?thesis
    using assms False by (simp add: wo_tomato_def Let_def)
qed

theorem settings_all_or_none_witness:
  "let ts = [\<lparr>nv_name = ''wan_mtu'', nv_vtype = VT_RANGE 576 1500\<rparr>, \<lparr>nv_name = ''router_name'', nv_vtype = VT_TEXT 0 32\<rparr>];
       htab = [''wan_mtu'' \<mapsto> ''1492'', ''router_name'' \<mapsto> ''home'', ''_service'' \<mapsto> ''wan-restart''];
       nv = [''wan_mtu'' \<mapsto> ''1500''];
       rs = requested (\<lambda>_. False) ts htab;
       nv1 = nv ++ map_of (map (\<lambda>(n, v, c). (n, v)) rs);
       changed = (\<exists>(n, v, c) \<in> set rs. c \<and> nv n \<noteq> Some v);
       (page, nv', acts) = wo_tomato (\<lambda>_. False) ts htab nv
    in if form_valid (\<lambda>_. False) ts htab then
         nv' = fst (run_service htab nv1) \<and>
         acts = (if changed \<and> cgi_int htab ''_commit'' ''1'' \<noteq> 0 \<or> cgi_int htab ''_force_commit'' ''0'' \<noteq> 0 then nvram_commit_x nv1 else []) @
           snd (run_service htab nv1) @ last_actions htab
       else nv' = nv \<and> acts = []"
proof -
  let ?ts = "[\<lparr>nv_name = ''wan_mtu'', nv_vtype = VT_RANGE 576 1500\<rparr>, \<lparr>nv_name = ''router_name'', nv_vtype = VT_TEXT 0 32\<rparr>]"
    and ?htab = "[''wan_mtu'' \<mapsto> ''1492'', ''router_name'' \<mapsto> ''home'', ''_service'' \<mapsto> ''wan-restart'']"
  have set: "cgi_int ?htab ''_nvset'' ''1'' \<noteq> 0"
    by code_simp
  have dist: "distinct (map fst (requested (\<lambda>_. False) ?ts ?htab))"
    by code_simp
  show ?thesis
    unfolding Let_def by (rule settings_all_or_none [OF set dist, unfolded Let_def])
qed

end
