(* ===== verification/Qos.thy ===== *)
theory Qos
  imports Iptables
begin

section \<open>Quality of service\<close>

text \<open>
  \<^verbatim>\<open>rc/qos.c\<close>: \<^verbatim>\<open>ipt_qos\<close> writes the rules that mark connections with the number of a class, \<^verbatim>\<open>start_qos\<close> writes
  and runs a script that makes the classes of one WAN unit and directs packets to them by their mark.  The state
  of the system that \<^verbatim>\<open>check_wanup\<close> reads is a parameter.  Values of type \<^verbatim>\<open>unsigned long\<close> are
  numbers modulo \<open>2 ^ 64\<close>, values of type \<^verbatim>\<open>unsigned int\<close> modulo \<open>2 ^ 32\<close>.
\<close>

definition CLASSES_NUM :: nat where "CLASSES_NUM = 10"

definition disabled_classification_rules :: string where
  "disabled_classification_rules = ''0<<-2<a<<0<<<<0<Default''"

definition rate_part :: string where
  "rate_part = ''5-100,0-0,0-0,0-0,0-0,0-0,0-0,0-0,0-0,0-0,''"

definition build_disabled_classification_rates :: "nat \<Rightarrow> string" where
  "build_disabled_classification_rates mwan_count = butlast (concat (replicate mwan_count rate_part))"

text \<open>The static variables of the file.\<close>

record qosst =
  qosfn :: string
  qosdev :: string
  qos_wan_num :: int
  qos_rate_start_index :: int

definition prep_qosstr :: "string \<Rightarrow> qosst \<Rightarrow> qosst" where
  "prep_qosstr pre st =
     foldl (\<lambda>st i.
       if pre = get_wan_prefix i then
         st\<lparr>qosfn := strlcpy (strlcpy (if i = 1 then ''/etc/wan_qos'' else ''/etc/wan'' @ show_int i @ ''_qos'') 8) 14,
            qos_wan_num := i,
            qos_rate_start_index := (i - 1) * 10,
            qosdev := strlcpy (strlcpy (''ifb'' @ show_int (i - 1)) 8) 5\<rparr>
       else st) st [1..MWAN_MAX]"

subsection \<open>Numbers in rules\<close>

text \<open>\<^verbatim>\<open>strtoul\<close> in base 10: the number and what follows it; without digits, zero and the whole text.\<close>

definition strtoul :: "string \<Rightarrow> nat \<times> string" where
  "strtoul s =
     (let r = dropWhile isspace s;
          neg = hd0 r = CHR ''-'';
          r = (if neg \<or> hd0 r = CHR ''+'' then tl r else r);
          n = read_nat r; n = (if 2 ^ 64 \<le> n then 2 ^ 64 - 1 else if neg then (2 ^ 64 - n) mod 2 ^ 64 else n)
      in if isdigit (hd0 r) then (n, dropWhile isdigit r) else (0, s))"

text \<open>\<^verbatim>\<open>strtoul\<close> with base 0, as far as \<^verbatim>\<open>ipt_dscp\<close> uses it: decimal, octal after a zero, hexadecimal after \<^verbatim>\<open>0x\<close>.\<close>

definition isodigit :: "char \<Rightarrow> bool" where
  "isodigit c \<longleftrightarrow> isdigit c \<and> c \<noteq> CHR ''8'' \<and> c \<noteq> CHR ''9''"

definition strtoul0 :: "string \<Rightarrow> nat" where
  "strtoul0 s =
     (let r = dropWhile isspace s;
          neg = hd0 r = CHR ''-'';
          r = (if neg \<or> hd0 r = CHR ''+'' then tl r else r);
          n = (if hd0 r = CHR ''0'' \<and> hd0 (tl r) \<in> {CHR ''x'', CHR ''X''} \<and> isxdigit (hd0 (tl (tl r))) then read_hex (tl (tl r))
               else if hd0 r = CHR ''0'' then foldl (\<lambda>a c. a * 8 + (of_char c - 48)) 0 (takeWhile isodigit r)
               else read_nat r)
      in if 2 ^ 64 \<le> n then 2 ^ 64 - 1 else if neg then (2 ^ 64 - n) mod 2 ^ 64 else n)"

definition HEX_digit :: "nat \<Rightarrow> char" where
  "HEX_digit d = (if d < 10 then char_of (48 + d) else char_of (55 + d))"

definition ipt_dscp :: "string \<Rightarrow> nat \<Rightarrow> fw \<Rightarrow> bool \<times> string \<times> fw" where
  "ipt_dscp v sz f =
     (if v = [] then (False, [], f)
      else
        let n = strtoul0 v mod 2 ^ 32; n = (if 63 < n then 63 else n)
        in (True, strlcpy ('' -m dscp --dscp 0x'' @ [HEX_digit (n div 16), HEX_digit (n mod 16)]) sz, modprobe ''xt_dscp'' f))"

text \<open>The conversions \<^verbatim>\<open>%u-%u\<close>.\<close>

definition scan_rates :: "string \<Rightarrow> (nat \<times> nat) option" where
  "scan_rates p =
     (case strtoul p of
        (rate, r) \<Rightarrow>
          if r = p \<or> hd0 r \<noteq> CHR ''-'' then None
          else (case strtoul (tl r) of (ceil, r') \<Rightarrow> if r' = tl r then None else Some (rate mod 2 ^ 32, ceil mod 2 ^ 32)))"

subsection \<open>Rules that mark\<close>

text \<open>What the loop over the rules keeps.\<close>

record qst =
  q_fw :: fw
  inuse :: int
  class_flag :: int
  sizegroup :: int
  sizechain :: bool
  prev_max :: nat

definition on_fw :: "(fw \<Rightarrow> fw) \<Rightarrow> qst \<Rightarrow> qst" where
  "on_fw g st = st\<lparr>q_fw := g (q_fw st)\<rparr>"

definition size_chain :: "fwenv \<Rightarrow> fw \<Rightarrow> fw" where
  "size_chain e f =
     foldl (\<lambda>f l. ip46t_write (ipv6_enabled e) l f) f
       [Chain ''QOSSIZE'',
        Insert ''QOSO 2 -m connmark ! --mark 0/0xff000 -j QOSSIZE'',
        Insert ''QOSO 3 -m connmark ! --mark 0/0xff000 -m connmark ! --mark 0xff000/0xff000 -j RETURN'',
        Insert ''QOSO2 2 -m connmark ! --mark 0/0xff000 -j QOSSIZE'',
        Insert ''QOSO2 3 -m connmark ! --mark 0/0xff000 -m connmark ! --mark 0xff000/0xff000 -j RETURN'']"

definition show_hexi :: "int \<Rightarrow> string" where
  "show_hexi n = ''0x'' @ show_hex (nat n)"

definition size_rules :: "fwenv \<Rightarrow> int \<Rightarrow> int \<Rightarrow> nat \<Rightarrow> fw \<Rightarrow> fw" where
  "size_rules e v4v6_ok grp mx f =
     foldl (\<lambda>f l. ip46t_flagged_write (ipv6_enabled e) v4v6_ok l f) f
       [Append ''QOSSIZE'' (''-m connmark --mark '' @ show_hexi (push_bit 12 grp) @
          ''/0xff000 -m connbytes --connbytes-mode bytes --connbytes-dir both --connbytes '' @ show_nat (mx * 1024 mod 2 ^ 64) @
          '': -j CONNMARK --set-mark 0xff000/0xff00f''),
        Append ''QOSSIZE'' (''-m connmark --mark 0xff000/0xff000 -m connbytes --connbytes-mode bytes --connbytes-dir both --connbytes '' @
          show_nat (mx * 1024 mod 2 ^ 64) @ '': -j RETURN'')]"

text \<open>The match for a number of bytes: the text of the match so far, and the state.\<close>

definition size_match :: "fwenv \<Rightarrow> int \<Rightarrow> string \<Rightarrow> string \<Rightarrow> qst \<Rightarrow> string \<times> qst" where
  "size_match e v4v6_ok bcount saddr st =
     (if bcount = [] then (saddr, st)
      else
        let (mn, p) = strtoul bcount
        in if p = [] then (saddr, st)
           else
             let saddr = strlcat saddr '' -m connbytes --connbytes-mode bytes --connbytes-dir both --connbytes '' 256; p = tl p
             in if p = [] then (strlcat saddr (show_nat (mn * 1024 mod 2 ^ 64) @ '':'') 256, st)
                else
                  let mx = fst (strtoul p);
                      saddr = strlcat saddr (show_nat (mn * 1024 mod 2 ^ 64) @ '':'' @
                        show_nat ((mx * 1024 + 2 ^ 64 - 1) mod 2 ^ 64)) 256;
                      st = (if sizechain st then st else on_fw (size_chain e) (st\<lparr>sizechain := True\<rparr>))
                  in if mx \<noteq> prev_max st \<and> sizegroup st < 255 then
                       let g = sizegroup st + 1
                       in (saddr, on_fw (size_rules e v4v6_ok g mx) (st\<lparr>sizegroup := g, class_flag := push_bit 12 g, prev_max := mx\<rparr>))
                     else (saddr, st\<lparr>class_flag := push_bit 12 (sizegroup st)\<rparr>))"

text \<open>A rule that sets the mark and one that returns, in the chain for forwarded packets and, unless the rule is for a
  hardware address, in the one for packets of the router.\<close>

definition mark_rules :: "fwenv \<Rightarrow> int \<Rightarrow> bool \<Rightarrow> string \<Rightarrow> string \<Rightarrow> fw \<Rightarrow> fw" where
  "mark_rules e v4v6_ok usemacsrc match end f =
     foldl (\<lambda>f l. ip46t_flagged_write (ipv6_enabled e) v4v6_ok l f) f
       ([Append ''QOSO'' (match @ '' '' @ end), Append ''QOSO'' (match @ '' -j RETURN'')] @
        (if usemacsrc then [] else [Append ''QOSO2'' (match @ '' '' @ end), Append ''QOSO2'' (match @ '' -j RETURN'')]))"

definition port_match :: "string \<Rightarrow> string \<Rightarrow> string" where
  "port_match port_type port =
     (let t = (if hd0 port_type = CHR ''s'' then ''s'' else if hd0 port_type = CHR ''d'' then ''d'' else [])
      in if hd0 port_type = CHR ''a'' then []
         else if hd0 port_type = CHR ''x'' \<or> CHR '','' \<in> set port then strlcpy (''-m multiport --'' @ t @ ''ports '' @ port) 192
         else strlcpy (''--'' @ t @ ''port '' @ port) 192)"

definition rule_matches :: "string \<Rightarrow> string \<Rightarrow> string \<Rightarrow> string \<Rightarrow> string list" where
  "rule_matches proto port_type port saddr =
     (let n = atoi proto; sport = port_match port_type port
      in if - 2 < n then
           if n = 6 \<or> n = 17 \<or> n = - 1 then
             (if n \<noteq> 6 then [''-p udp '' @ sport @ '' '' @ saddr] else []) @
             (if n \<noteq> 17 then [''-p tcp '' @ sport @ '' '' @ saddr] else [])
           else [''-p '' @ show_int n @ '' '' @ saddr]
         else [saddr])"

definition set_mark :: "int \<Rightarrow> string" where
  "set_mark n = '' -j CONNMARK --set-mark '' @ show_hexi n @ ''/0xff00f''"

text \<open>The match of the address: the families left, the text and whether it is for a hardware address.\<close>

definition addr_match :: "fwenv \<Rightarrow> string \<Rightarrow> string \<Rightarrow> int \<times> string \<times> bool" where
  "addr_match e addr_type addr =
     (let ok = (if ipv6_enabled e then IPT_V4 OR IPT_V6 else IPT_V4)
      in if hd0 addr_type = CHR ''1'' \<or> hd0 addr_type = CHR ''2'' then
           let (r, saddr) = ipt_addr e 256 addr (if hd0 addr_type = CHR ''1'' then ''dst'' else ''src'') ok (ok = IPT_V4)
           in (ok AND r, saddr, False)
         else if hd0 addr_type = CHR ''3'' then (ok, strlcpy (''-m mac --mac-source '' @ addr) 256, True)
         else (ok, [], False))"

text \<open>A rule of a class from its match on: the match of the protocol and the mark of packets, the number of bytes, and the
  rules.\<close>

definition class_rule :: "fwenv \<Rightarrow> int \<Rightarrow> int \<times> string \<times> bool \<Rightarrow> string list \<Rightarrow> qst \<Rightarrow> qst" where
  "class_rule e class_num am fs st =
     (let (v4v6_ok, saddr, usemacsrc) = am;
          (r, app, f) = ipt_ndpi e (fs ! 5) 256 (q_fw st);
          st = st\<lparr>q_fw := f\<rparr>
      in if r = - 1 then st
         else
           let saddr = strlcat saddr app 256;
               (_, s, f) = ipt_dscp (fs ! 7) 32 (q_fw st);
               saddr = strlcat saddr s 256;
               (saddr, st) = size_match e v4v6_ok (fs ! 6) saddr (st\<lparr>q_fw := f, class_flag := 0\<rparr>);
               st = (if 0 < sizegroup st \<and> class_flag st = 0 then st\<lparr>class_flag := push_bit 12 255\<rparr> else st);
               class_num = class_num OR class_flag st;
               st = (if app \<noteq> [] \<and> sizegroup st = 0 then st\<lparr>sizegroup := 1\<rparr> else st)
           in on_fw (\<lambda>f. foldl (\<lambda>f mt. mark_rules e v4v6_ok usemacsrc mt (set_mark class_num) f) f
                (rule_matches (fs ! 2) (fs ! 3) (fs ! 4) saddr)) st)"

text \<open>The fields of a rule: type of address, address, protocol, type of port, port, nDPI protocol, bytes, DSCP, class, description.\<close>

definition qos_rule :: "fwenv \<Rightarrow> qst \<Rightarrow> string \<Rightarrow> qst" where
  "qos_rule e st p =
     (let fs = vstrsep p (CHR ''<'') 10
      in if length fs < 10 then st
         else
           let class_num = atoi (fs ! 8)
           in if class_num < 0 \<or> 9 < class_num then st
              else
                let st = st\<lparr>inuse := inuse st OR push_bit (nat class_num) 1\<rparr>;
                    am = addr_match e (fs ! 0) (fs ! 1)
                in if fst am = 0 then st else class_rule e (class_num + 1) am fs st)"

definition qos_head :: "fwenv \<Rightarrow> fw \<Rightarrow> fw" where
  "qos_head e f =
     foldl (\<lambda>f l. ip46t_write (ipv6_enabled e) l f) f
       [Chain ''QOSO'', Append ''QOSO'' ''-m connmark --mark 0/0xff000 -m connmark ! --mark 0/0xf -j RETURN'',
        Chain ''QOSO2'', Append ''QOSO2'' ''-m connmark --mark 0/0xff000 -m connmark ! --mark 0/0xf -j RETURN'']"

definition default_class :: "nvram \<Rightarrow> int" where
  "default_class nv = (let i = nvram_get_int nv ''qos_default'' in if i < 0 \<or> 9 < i then 3 else i)"

definition default_rules :: "fwenv \<Rightarrow> int \<Rightarrow> fw \<Rightarrow> fw" where
  "default_rules e class_num f =
     foldl (\<lambda>f l. ip46t_write (ipv6_enabled e) l f) f
       [Append ''QOSO'' (''-j CONNMARK --set-mark '' @ show_hexi class_num @ ''/0xff00f''), Append ''QOSO'' ''-j RETURN'',
        Append ''QOSO2'' (''-j CONNMARK --set-mark '' @ show_hexi class_num @ ''/0xff00f''), Append ''QOSO2'' ''-j RETURN'']"

text \<open>The units that get rules: the first, and the others that are up.\<close>

definition qos_units :: "fwenv \<Rightarrow> sys \<Rightarrow> (string \<Rightarrow> bool \<times> bool) \<Rightarrow> int list" where
  "qos_units e sy garbage =
     filter (\<lambda>i. i = 1 \<or> check_wanup (fw_nv e) sy (garbage (''wan'' @ show_int i)) (''wan'' @ show_int i) \<noteq> 0)
       [1..mwan_active_num (fw_nv e)]"

definition egress_rules :: "fwenv \<Rightarrow> fw \<Rightarrow> int \<Rightarrow> fw" where
  "egress_rules e f i =
     (let qface = get_wanface (fw_nv e) (get_wan_prefix i)
      in foldl (\<lambda>f l. ipt_write l f) f
           [Append ''FORWARD'' (''-o '' @ qface @ '' -j QOSO''), Append ''OUTPUT'' (''-o '' @ qface @ '' -j QOSO2''),
            Append ''POSTROUTING'' (''-o '' @ qface @ '' -j CONNMARK --restore-mark --mask 0xf'')])"

definition egress6_rules :: "fwenv \<Rightarrow> fw \<Rightarrow> fw" where
  "egress6_rules e f =
     (if ipv6_enabled e \<and> wan6face e \<noteq> [] then
        foldl (\<lambda>f l. ip6t_write l f) f
          [Append ''FORWARD'' (''-o '' @ wan6face e @ '' -j QOSO''), Append ''OUTPUT'' (''-o '' @ wan6face e @ '' -p icmpv6 -j RETURN''),
           Append ''OUTPUT'' (''-o '' @ wan6face e @ '' -j QOSO2''),
           Append ''POSTROUTING'' (''-o '' @ wan6face e @ '' -j CONNMARK --restore-mark --mask 0xf'')]
      else f)"

definition class_rates :: "nvram \<Rightarrow> string \<Rightarrow> string list" where
  "class_rates nv var =
     split_on (CHR '','') (if nvram_get_int nv ''qos_classify'' = 0 then build_disabled_classification_rates (nat MWAN_MAX)
                      else nvram_safe_get nv var)"

definition rate_used :: "int \<Rightarrow> nat \<times> string \<Rightarrow> bool" where
  "rate_used iu = (\<lambda>(i, p). bit iu (i mod CLASSES_NUM) \<and> (case scan_rates p of None \<Rightarrow> False | Some (rate, ceil) \<Rightarrow> 1 \<le> rate))"

definition ingress_rules :: "fwenv \<Rightarrow> int list \<Rightarrow> fw \<Rightarrow> fw" where
  "ingress_rules e units f =
     (let f = foldl (\<lambda>f j. ipt_write (Append ''PREROUTING''
                 (''-i '' @ get_wanface (fw_nv e) (get_wan_prefix j) @ '' -j CONNMARK --restore-mark --mask 0xf'')) f) f units
      in if ipv6_enabled e \<and> wan6face e \<noteq> []
         then ip6t_write (Append ''PREROUTING'' (''-i '' @ wan6face e @ '' -j CONNMARK --restore-mark --mask 0xf'')) f
         else f)"

datatype qact =
    Modprobe "string list"
  | Modprobe_r string
  | Proc string string
  | Write_script string "string list"
  | Run string string

text \<open>
  After the loops over the units the variable \<^verbatim>\<open>i\<close>, which held the default class before them, is one more than
  the number of units: the bit that is set for the default class is that of the units.
\<close>

definition final_inuse :: "nvram \<Rightarrow> int \<Rightarrow> int" where
  "final_inuse nv iu = iu OR (push_bit (nat (mwan_active_num nv + 1)) 1 OR 1)"

definition qos_start :: "fwenv \<Rightarrow> fw \<Rightarrow> qst" where
  "qos_start e f = \<lparr>q_fw = qos_head e f, inuse = 0, class_flag = 0, sizegroup = 0, sizechain = False, prev_max = 0\<rparr>"

definition qos_orules :: "nvram \<Rightarrow> string list" where
  "qos_orules nv =
     split_on (CHR ''>'') (if nvram_get_int nv ''qos_classify'' = 0 then disabled_classification_rules else nvram_safe_get nv ''qos_orules'')"

definition ipt_qos :: "fwenv \<Rightarrow> sys \<Rightarrow> (string \<Rightarrow> bool \<times> bool) \<Rightarrow> fw \<Rightarrow> fw \<times> nvram \<times> qact list" where
  "ipt_qos e sy garbage f =
     (let nv = fw_nv e
      in if nvram_get_int nv ''qos_enable'' = 0 then (f, nv, [])
         else
           let acts = (if nvram_get_int nv ''qos_stats'' \<noteq> 0 then [Proc ''netfilter/nf_conntrack_acct'' ''1''] else []);
               st = foldl (qos_rule e) (qos_start e f) (qos_orules nv);
               flag = (if 0 < sizegroup st then push_bit 12 255 else class_flag st);
               f = default_rules e ((default_class nv + 1) OR flag) (q_fw st);
               units = qos_units e sy garbage;
               f = egress6_rules e (foldl (egress_rules e) f units);
               iu = final_inuse nv (inuse st);
               f = (if list_ex (rate_used iu) (enumerate 0 (take 40 (class_rates nv ''qos_irates''))) then ingress_rules e units f else f)
           in (f, nv(''qos_inuse'' \<mapsto> show_int iu), acts))"

subsection \<open>The script of a unit\<close>

definition calc_pct :: "nat \<Rightarrow> nat \<Rightarrow> nat" where
  "calc_pct bw pct = (let n = (bw * pct mod 2 ^ 64) div 100 mod 2 ^ 32 in if n < 2 then 2 else n)"

definition calc_r2q :: "nat \<Rightarrow> nat \<Rightarrow> nat" where
  "calc_r2q bw mtu =
     (let w = bw * 1000 mod 2 ^ 32
      in if w div (8 * 10) < mtu then
           let r2q = w div (8 * mtu mod 2 ^ 32) in if r2q < 1 then 1 else r2q
         else if 60000 < w div (8 * 10) then w div (8 * 60000) + 1
         else 10)"

datatype dir = Out | In

text \<open>Lines of the script: classes, their queues and the filters that direct packets by their mark, and other text.  A line of
  the script starts with a tabulator, except for those of \<open>Plain\<close>.\<close>

datatype tc_line =
    Plain string
  | Text string
  | Class dir nat string
  | Leaf dir nat
  | Filter dir nat string nat nat

fun dsuf :: "dir \<Rightarrow> string" where
  "dsuf Out = []"
| "dsuf In = ''_QOS''"

fun show_tc :: "tc_line \<Rightarrow> string" where
  "show_tc (Plain t) = t"
| "show_tc (Text t) = CHR 9 # t"
| "show_tc (Class d x t) = CHR 9 # ''$TCA'' @ dsuf d @ '' parent 1:1 classid 1:'' @ show_nat x @ '' '' @ t"
| "show_tc (Leaf d x) = CHR 9 # ''$TQA'' @ dsuf d @ '' parent 1:'' @ show_nat x @ '' handle '' @ show_nat x @ '': $Q''"
| "show_tc (Filter d prio proto h x) =
     CHR 9 # ''$TFA'' @ dsuf d @ '' parent 1: prio '' @ show_nat prio @ '' protocol '' @ proto @ '' handle '' @ show_nat h @
     ''/0xf fw flowid 1:'' @ show_nat x"

definition kbit :: "nat \<Rightarrow> string" where
  "kbit n = show_nat n @ ''kbit''"

definition dq :: "string \<Rightarrow> string" where
  "dq s = CHR 34 # s @ [CHR 34]"

text \<open>What the script of a unit depends on.\<close>

record qparam =
  p_pre :: string
  p_obw :: nat
  p_ibw :: nat
  p_mtu :: nat
  p_overhead :: nat
  p_encap :: int
  p_default :: nat
  p_burst_leaf :: string
  p_inuse :: int

definition overhead_text :: "qparam \<Rightarrow> string" where
  "overhead_text q =
     (if 0 < p_overhead q then '' overhead '' @ show_nat (p_overhead q) @ (if p_encap q \<noteq> 0 then '' linklayer atm'' else []) else [])"

text \<open>The fields for the classes of this unit with their numbers, rates and ceilings.\<close>

definition unit_rates :: "qosst \<Rightarrow> int \<Rightarrow> string list \<Rightarrow> (nat \<times> nat \<times> nat) list" where
  "unit_rates st iu fs =
     concat (map (\<lambda>(i, p).
       if int i < qos_rate_start_index st \<or> \<not> bit iu (i mod CLASSES_NUM) then []
       else case scan_rates p of None \<Rightarrow> [] | Some (rate, ceil) \<Rightarrow> if rate < 1 then [] else [(i, rate, ceil)])
       (enumerate 0 (take (CLASSES_NUM * nat (qos_wan_num st)) fs)))"

definition out_class :: "qparam \<Rightarrow> nat \<times> nat \<times> nat \<Rightarrow> tc_line list" where
  "out_class q = (\<lambda>(i, rate, ceil).
     let x = (i + 1) * 10;
         s = (if 0 < ceil then ''ceil '' @ kbit (calc_pct (p_obw q) ceil) else [])
     in [Class Out x (''htb rate '' @ kbit (calc_pct (p_obw q) rate) @ '' '' @ s @ '' '' @ p_burst_leaf q @ '' prio '' @ show_nat (i + 1) @
           '' quantum '' @ show_nat (p_mtu q) @ overhead_text q),
         Leaf Out x, Filter Out x ''ip'' (i + 1) x, Filter Out (x + 100) ''ipv6'' (i + 1) x])"

definition in_root :: "qparam \<Rightarrow> tc_line list" where
  "in_root q =
     [Text (''$TQA_QOS handle 1: root htb default '' @ show_nat (p_default q) @ '' r2q '' @ show_nat (calc_r2q (p_ibw q) (p_mtu q))),
      Text (''$TCA_QOS parent 1: classid 1:1 htb rate '' @ kbit (p_ibw q) @ '' ceil '' @ kbit (p_ibw q) @ overhead_text q)]"

definition in_class :: "qparam \<Rightarrow> nat \<times> nat \<times> nat \<Rightarrow> tc_line list" where
  "in_class q = (\<lambda>(i, rate, ceil).
     let x = (i + 1) * 10; r = kbit (calc_pct (p_ibw q) rate); c = kbit (calc_pct (p_ibw q) ceil)
     in [Text (''# class id '' @ show_nat x @ '': rate '' @ r @ '' ceil '' @ c),
         Class In x (''htb rate '' @ r @ '' ceil '' @ c @ '' prio '' @ show_nat (i + 1) @ '' quantum '' @ show_nat (p_mtu q) @
           (if 0 < p_overhead q then '' overhead '' @ show_nat (p_overhead q) @ '' linklayer atm'' else [])),
         Leaf In x, Filter In x ''ip'' (i + 1) x, Filter In (x + 100) ''ipv6'' (i + 1) x])"

text \<open>Before the classes after the first there is an empty line.\<close>

definition in_classes :: "qparam \<Rightarrow> (nat \<times> nat \<times> nat) list \<Rightarrow> tc_line list" where
  "in_classes q rs =
     (case rs of [] \<Rightarrow> [] | r # rs \<Rightarrow> in_root q @ in_class q r @ concat (map (\<lambda>r. Plain [] # in_class q r) rs))"

definition leaf_qdisc :: "nvram \<Rightarrow> string" where
  "leaf_qdisc nv =
     (let x = nvram_get_int nv ''qos_pfifo''
      in if nvram_get_int nv ''qos_mode'' = 2 then ''cake''
         else if x = 1 then ''pfifo limit 256'' else if x = 2 then ''codel'' else if x = 3 then ''fq_codel'' else ''sfq perturb 10'')"

definition script_head :: "nvram \<Rightarrow> qosst \<Rightarrow> string \<Rightarrow> tc_line list" where
  "script_head nv st pre =
     map Plain
       [''#!/bin/sh'', ''WAN_DEV='' @ get_wanface nv pre, ''QOS_DEV='' @ qosdev st,
        ''TQA='' @ dq ''tc qdisc add dev $WAN_DEV'', ''TCA='' @ dq ''tc class add dev $WAN_DEV'', ''TFA='' @ dq ''tc filter add dev $WAN_DEV'',
        ''TQA_QOS='' @ dq ''tc qdisc add dev $QOS_DEV'', ''TCA_QOS='' @ dq ''tc class add dev $QOS_DEV'',
        ''TFA_QOS='' @ dq ''tc filter add dev $QOS_DEV'', ''Q='' @ dq (leaf_qdisc nv), [], ''case '' @ dq ''$1'' @ '' in'', ''start)''] @
     [Text ''tc qdisc del dev $WAN_DEV root 2>/dev/null'']"

definition cake_text :: "nvram \<Rightarrow> qparam \<Rightarrow> string" where
  "cake_text nv q =
     (if 0 < p_overhead q then '' overhead '' @ show_nat (p_overhead q) else []) @
     (if p_encap q = 1 then '' atm'' else if p_encap q = 2 then '' ptm'' else '' noatm'') @
     (let m = nvram_get_int nv ''qos_cake_prio_mode''
      in if m = 1 then '' diffserv8'' else if m = 2 then '' diffserv4'' else if m = 3 then '' diffserv3''
         else if m = 4 then '' precedence'' else '' besteffort'') @
     (if nvram_get_int nv ''qos_cake_wash'' \<noteq> 0 then '' wash'' else [])"

definition out_root :: "nvram \<Rightarrow> bool \<Rightarrow> string \<Rightarrow> qparam \<Rightarrow> tc_line list" where
  "out_root nv cake burst_root q =
     (if cake then [Text (''$TQA root handle 1: cake bandwidth '' @ kbit (p_obw q) @ '' nat egress fwmark 0xf'' @ cake_text nv q)]
      else
        [Text (''$TQA root handle 1: htb default '' @ show_nat (p_default q) @ '' r2q '' @ show_nat (calc_r2q (p_obw q) (p_mtu q))),
         Text (''$TCA parent 1: classid 1:1 htb rate '' @ kbit (p_obw q) @ '' ceil '' @ kbit (p_obw q) @ '' '' @ burst_root @ overhead_text q)])"

text \<open>Small packets of these kinds go to the first class.\<close>

definition flag_filter :: "string \<Rightarrow> string \<Rightarrow> tc_line list" where
  "flag_filter prio flags =
     [Plain [], Text (''$TFA parent 1: prio '' @ prio @ '' protocol ip u32 match ip protocol 6 0xff match u8 0x05 0x0f at 0 match u16 0x0000 0xffc0 at 2 match u8 '' @
        flags @ '' at 33 flowid 1:10'')]"

definition small_packets :: "nvram \<Rightarrow> bool \<Rightarrow> tc_line list" where
  "small_packets nv cake =
     (if cake then []
      else
        (if nvram_get_int nv ''qos_ack'' \<noteq> 0 then flag_filter ''14'' ''0x10 0xff'' else []) @
        (if nvram_get_int nv ''qos_syn'' \<noteq> 0 then flag_filter ''15'' ''0x02 0x02'' else []) @
        (if nvram_get_int nv ''qos_fin'' \<noteq> 0 then flag_filter ''17'' ''0x01 0x01'' else []) @
        (if nvram_get_int nv ''qos_rst'' \<noteq> 0 then flag_filter ''19'' ''0x04 0x04'' else []) @
        (if nvram_get_int nv ''qos_icmp'' \<noteq> 0
         then [Plain [], Text ''$TFA parent 1: prio 13 protocol ip u32 match ip protocol 1 0xff flowid 1:10''] else []))"

definition ingress_lines :: "nvram \<Rightarrow> tc_line list" where
  "ingress_lines nv =
     (let udp = nvram_get_int nv ''qos_udp'' \<noteq> 0
      in [Plain [], Text (''$TFA parent ffff: protocol ip prio 10 u32 match ip '' @ (if udp then ''protocol 6 0xff'' else ''dst 0.0.0.0/0'') @
            '' action connmark mirred egress redirect dev $QOS_DEV''),
          Text (''$TFA parent ffff: protocol ipv6 prio 11 u32 match ip6 '' @ (if udp then ''protocol 6 0xff'' else ''dst ::/0'') @
            '' action connmark mirred egress redirect dev $QOS_DEV'')])"

definition log_line :: "string \<Rightarrow> string \<Rightarrow> tc_line" where
  "log_line pre t = Text (''logger -t qos '' @ dq (''QoS ('' @ pre @ '') '' @ t))"

definition script_tail :: "nvram \<Rightarrow> qosst \<Rightarrow> string \<Rightarrow> tc_line list" where
  "script_tail nv st pre =
     (let udp = nvram_get_int nv ''qos_udp'' \<noteq> 0; n = show_int (qos_wan_num st); custom = ''[ -f /etc/wan_qos.custom ] && /etc/wan_qos.custom ''
      in [Plain [], Text ''# set up the IFB device (otherwise this won't work) to limit the incoming data'',
          Text ''ip link set $QOS_DEV up'', Plain [],
          log_line pre ''custom script (if exists) starting'', Text (custom @ ''start '' @ n), log_line pre ''custom script (if exists) started'',
          log_line pre ''is started'', Text '';;'', Plain ''stop)'',
          log_line pre ''custom script (if exists) stopping'', Text (custom @ ''stop '' @ n), log_line pre ''custom script (if exists) stopped'',
          Text ''ip link set $QOS_DEV down'', Text ''tc qdisc del dev $WAN_DEV root 2>/dev/null'', Text ''tc qdisc del dev $QOS_DEV root 2>/dev/null'',
          Text (''tc filter del dev $WAN_DEV parent ffff: protocol ip prio 10 u32 match ip '' @ (if udp then ''protocol 6 0xff'' else ''dst 0.0.0.0/0'') @
            '' action mirred egress redirect dev $QOS_DEV 2>/dev/null''),
          Text (''tc filter del dev $WAN_DEV parent ffff: protocol ipv6 prio 11 u32 match ip6 '' @ (if udp then ''protocol 6 0xff'' else ''dst ::/0'') @
            '' action mirred egress redirect dev $QOS_DEV 2>/dev/null''),
          Text ''tc qdisc del dev $WAN_DEV ingress 2>/dev/null'', Plain [], log_line pre ''is stopped'', Text '';;'', Plain ''*)'',
          Text (''echo '' @ dq ''...''), Text (''echo '' @ dq ''... OUTGOING QDISCS AND CLASSES FOR $WAN_DEV''), Text (''echo '' @ dq ''...''),
          Text ''tc -s -d qdisc ls dev $WAN_DEV'', Text ''echo'', Text ''tc -s -d class ls dev $WAN_DEV'', Text ''echo'',
          Text (''echo '' @ dq ''...''), Text (''echo '' @ dq ''... INCOMING QDISCS AND CLASSES FOR $WAN_DEV (routed through $QOS_DEV)''), Text (''echo '' @ dq ''...''),
          Text ''tc -s -d qdisc ls dev $QOS_DEV'', Text ''echo'', Text ''tc -s -d class ls dev $QOS_DEV'', Text ''echo'', Plain ''esac''])"

text \<open>A number of a variable of the unit, as \<^verbatim>\<open>unsigned int\<close>.\<close>

definition unit_num :: "nvram \<Rightarrow> string \<Rightarrow> string \<Rightarrow> nat" where
  "unit_num nv pre suf = fst (strtoul (prefix_nvram_get nv pre suf)) mod 2 ^ 32"

definition burst :: "nvram \<Rightarrow> string \<Rightarrow> string" where
  "burst nv var = (let i = nvram_get_int nv var in if 0 < i then ''burst '' @ show_int i @ ''k'' else [])"

definition unit_param :: "nvram \<Rightarrow> string \<Rightarrow> qparam" where
  "unit_param nv pre =
     \<lparr>p_pre = pre, p_obw = unit_num nv pre ''qos_obw'', p_ibw = unit_num nv pre ''qos_ibw'', p_mtu = unit_num nv pre ''mtu'',
      p_overhead = unit_num nv pre ''qos_overhead'', p_encap = prefix_nvram_get_int nv pre ''qos_encap'',
      p_default = nat ((nvram_get_int nv ''qos_default'' + 1) * 10 mod 2 ^ 32), p_burst_leaf = burst nv ''qos_burst1'',
      p_inuse = nvram_get_int nv ''qos_inuse''\<rparr>"

definition qos_script :: "nvram \<Rightarrow> qosst \<Rightarrow> string \<Rightarrow> tc_line list" where
  "qos_script nv st pre =
     (let q = unit_param nv pre; cake = nvram_get_int nv ''qos_mode'' = 2;
          rates = (\<lambda>var. unit_rates st (p_inuse q) (class_rates nv var))
      in script_head nv st pre @ out_root nv cake (burst nv ''qos_burst0'') q @
         (if cake then [] else concat (map (out_class q) (rates ''qos_orates''))) @
         small_packets nv cake @
         [Plain [], Text ''tc qdisc del dev $WAN_DEV ingress 2>/dev/null'', Text ''$TQA handle ffff: ingress'',
          Plain [], Text ''tc qdisc del dev $QOS_DEV 2>/dev/null''] @
         (if cake then [Text (''$TQA_QOS root handle 1: cake bandwidth '' @ kbit (p_ibw q) @ '' nat ingress fwmark 0xf'' @ cake_text nv q)]
          else in_classes q (rates ''qos_irates'')) @
         ingress_lines nv @ script_tail nv st pre)"

definition congestion :: "nvram \<Rightarrow> qact list" where
  "congestion nv =
     (let opt = (\<lambda>name var. strlcpy (name @ ''='' @ show_int (nvram_get_int nv var)) 10)
      in if nvram_get_int nv ''ne_vegas'' \<noteq> 0
         then [Modprobe [''tcp_vegas'', opt ''alpha'' ''ne_valpha'', opt ''beta'' ''ne_vbeta'', opt ''gamma'' ''ne_vgamma''],
               Proc ''ipv4/tcp_congestion_control'' ''vegas'']
         else [Modprobe_r ''tcp_vegas'', Proc ''ipv4/tcp_congestion_control'' ''cubic''])"

text \<open>\<open>can_write\<close> says whether the file of the script can be opened.\<close>

definition start_qos :: "nvram \<Rightarrow> bool \<Rightarrow> string \<Rightarrow> qosst \<Rightarrow> qosst \<times> qact list" where
  "start_qos nv can_write pre st =
     (if nvram_get_int nv ''qos_enable'' = 0 then (st, congestion nv)
      else
        let st = prep_qosstr pre st
        in if \<not> can_write then (st, congestion nv)
           else (st, congestion nv @ [Write_script (qosfn st) (map show_tc (qos_script nv st pre)), Run (qosfn st) ''start'']))"

definition stop_qos :: "(string \<Rightarrow> bool) \<Rightarrow> string \<Rightarrow> qosst \<Rightarrow> qosst \<times> qact list" where
  "stop_qos exists pre st = (let st = prep_qosstr pre st in (st, if exists (qosfn st) then [Run (qosfn st) ''stop''] else []))"

subsection \<open>What the chains hold\<close>

text \<open>Two rules for each match: the packet gets the mark and leaves the chain.\<close>

definition marking :: "string \<Rightarrow> (string \<times> int) list \<Rightarrow> string list" where
  "marking e ms = concat (map (\<lambda>(m, n). [m @ e @ set_mark n, m @ '' -j RETURN'']) ms)"

lemma marking_simps [simp]: "marking e [] = []" "marking e (xs @ ys) = marking e xs @ marking e ys"
  by (simp_all add: marking_def)

text \<open>A mark for a class: its number in the lowest four bits, counted from one, and a size group above.\<close>

definition class_mark :: "int \<Rightarrow> int \<Rightarrow> bool" where
  "class_mark iu n \<longleftrightarrow> (\<exists>c g. 0 \<le> c \<and> c \<le> 9 \<and> 0 \<le> g \<and> g \<le> 255 \<and> n = (c + 1) OR push_bit 12 g \<and> bit iu (nat c))"

lemma class_mark_bits: "class_mark iu n \<Longrightarrow> \<exists>c. n AND 15 = int c + 1 \<and> c \<le> 9 \<and> bit iu c"
proof -
  assume "class_mark iu n"
  then obtain c g where n: "0 \<le> c" "c \<le> 9" "n = (c + 1) OR push_bit 12 g" "bit iu (nat c)"
    unfolding class_mark_def by blast
  have "n AND 15 = take_bit 4 n"
    using take_bit_eq_mask [of 4 n] by (simp add: mask_eq_exp_minus_1)
  also have "\<dots> = take_bit 4 (c + 1)"
    by (simp add: n(3) take_bit_or take_bit_push_bit)
  also have "\<dots> = c + 1"
    using n(1,2) by (simp add: take_bit_int_eq_self)
  finally show ?thesis
    using n by (intro exI [of _ "nat c"]) auto
qed

lemma class_mark_mono: "class_mark iu n \<Longrightarrow> class_mark (iu OR x) n"
  by (force simp: class_mark_def bit_or_iff)

definition group_ok :: "qst \<Rightarrow> bool" where
  "group_ok st \<longleftrightarrow> 0 \<le> sizegroup st \<and> sizegroup st \<le> 255 \<and> (\<exists>g. 0 \<le> g \<and> g \<le> 255 \<and> class_flag st = push_bit 12 g)"

lemma group_okI: "0 \<le> sizegroup st \<Longrightarrow> sizegroup st \<le> 255 \<Longrightarrow> class_flag st = push_bit 12 g \<Longrightarrow> 0 \<le> g \<Longrightarrow> g \<le> 255 \<Longrightarrow> group_ok st"
  unfolding group_ok_def by blast

lemma size_chain_rules: "c \<noteq> ''QOSSIZE'' \<Longrightarrow> chain_rules c (out4 (size_chain e f)) = chain_rules c (out4 f)"
  by (simp add: size_chain_def ip46t_write_out)

lemma size_rules_rules: "c \<noteq> ''QOSSIZE'' \<Longrightarrow> chain_rules c (out4 (size_rules e k g m f)) = chain_rules c (out4 f)"
  by (simp add: size_rules_def ip46t_flagged_write_out)

lemma size_match_ok:
  assumes "group_ok st" "size_match e k b sa st = (sa', st')"
  shows "group_ok st' \<and> inuse st' = inuse st \<and> (\<forall>c. c \<noteq> ''QOSSIZE'' \<longrightarrow> chain_rules c (out4 (q_fw st')) = chain_rules c (out4 (q_fw st)))"
proof -
  have "group_ok (st\<lparr>sizegroup := sizegroup st + 1, class_flag := push_bit 12 (sizegroup st + 1), prev_max := m, sizechain := b, q_fw := f\<rparr>)"
    if "sizegroup st < 255" for m b f
    using assms(1) that by (intro group_okI [of _ "sizegroup st + 1"]) (auto simp: group_ok_def)
  moreover have "group_ok (st\<lparr>class_flag := push_bit 12 (sizegroup st), sizechain := b, q_fw := f\<rparr>)" for b f
    using assms(1) by (intro group_okI [of _ "sizegroup st"]) (auto simp: group_ok_def)
  ultimately show ?thesis
    using assms unfolding size_match_def Let_def on_fw_def
    by (auto simp: size_chain_rules size_rules_rules group_ok_def split: if_splits prod.splits)
qed

lemma mark_rules_out:
  "chain_rules ''QOSO'' (out4 (mark_rules e k mac m (set_mark n) f)) =
    chain_rules ''QOSO'' (out4 f) @ (if k AND IPT_V4 \<noteq> 0 then marking '' '' [(m, n)] else [])"
  by (simp add: mark_rules_def ip46t_flagged_write_out marking_def)

lemma mark_rules_fold:
  "chain_rules ''QOSO'' (out4 (foldl (\<lambda>f m. mark_rules e k mac m (set_mark n) f) f ms)) =
    chain_rules ''QOSO'' (out4 f) @ (if k AND IPT_V4 \<noteq> 0 then marking '' '' (map (\<lambda>m. (m, n)) ms) else [])"
  by (induction ms arbitrary: f) (auto simp: mark_rules_out marking_def)

lemma ipt_dscp_out [simp]: "out4 (snd (snd (ipt_dscp v n f))) = out4 f"
  by (simp add: ipt_dscp_def modprobe_def Let_def)

definition adds_marks :: "qst \<Rightarrow> qst \<Rightarrow> (string \<times> int) list \<Rightarrow> bool" where
  "adds_marks st st' ms \<longleftrightarrow>
     chain_rules ''QOSO'' (out4 (q_fw st')) = chain_rules ''QOSO'' (out4 (q_fw st)) @ marking '' '' ms \<and>
     list_all (\<lambda>(m, n). class_mark (inuse st') n) ms \<and> group_ok st' \<and> (\<exists>x. inuse st' = inuse st OR x)"

lemma class_rule_ok:
  assumes "0 \<le> c" "c \<le> 9" "bit (inuse st) (nat c)" "group_ok st"
  shows "\<exists>ms. adds_marks st (class_rule e (c + 1) am fs st) ms"
proof -
  obtain k sa mac where am: "am = (k, sa, mac)" by (metis prod_cases3)
  obtain r app f where nd: "ipt_ndpi e (fs ! 5) 256 (q_fw st) = (r, app, f)" by (metis prod_cases3)
  have f: "out4 f = out4 (q_fw st)"
    using ipt_ndpi_out(1) [of e "fs ! 5" 256 "q_fw st"] by (simp add: nd)
  show ?thesis
  proof (cases "r = - 1")
    case True
    then show ?thesis
      using assms f by (intro exI [of _ "[]"]) (auto simp: class_rule_def am nd adds_marks_def group_ok_def intro: exI [of _ 0])
  next
    case False
    obtain r' s f' where ds: "ipt_dscp (fs ! 7) 32 f = (r', s, f')" by (metis prod_cases3)
    have f': "out4 f' = out4 (q_fw st)"
      using ipt_dscp_out [of "fs ! 7" 32 f] f by (simp add: ds)
    let ?st = "st\<lparr>q_fw := f', class_flag := 0\<rparr>"
    obtain sa' st' where sm: "size_match e k (fs ! 6) (strlcat (strlcat sa app 256) s 256) ?st = (sa', st')" by (metis prod.collapse)
    have "group_ok ?st"
      using assms(4) by (intro group_okI [of _ 0]) (auto simp: group_ok_def)
    note st' = size_match_ok [OF this sm]
    define flag where "flag = (if 0 < sizegroup st' \<and> class_flag st' = 0 then push_bit 12 255 else class_flag st')"
    obtain g where g: "0 \<le> g" "g \<le> 255" "flag = push_bit 12 g"
    proof (cases "0 < sizegroup st' \<and> class_flag st' = 0")
      case True
      then show ?thesis by (intro that [of 255]) (simp_all add: flag_def)
    next
      case False
      then show ?thesis using st' that unfolding flag_def group_ok_def by auto
    qed
    let ?n = "(c + 1) OR flag" and ?ms = "rule_matches (fs ! 2) (fs ! 3) (fs ! 4) sa'"
    define st1 where "st1 = (if app \<noteq> [] \<and> sizegroup st' = 0 then st'\<lparr>class_flag := flag, sizegroup := 1\<rparr> else st'\<lparr>class_flag := flag\<rparr>)"
    have eq: "class_rule e (c + 1) am fs st =
        on_fw (\<lambda>f. foldl (\<lambda>f mt. mark_rules e k mac mt (set_mark ?n) f) f ?ms) st1"
      using False by (simp add: class_rule_def am nd ds sm Let_def st1_def flag_def)
    have st1: "q_fw st1 = q_fw st'" "inuse st1 = inuse st" "group_ok st1"
      using st' g by (auto simp: st1_def group_ok_def)
    have "class_mark (inuse st) ?n"
      unfolding class_mark_def g(3) using assms(1-3) g(1,2) by blast
    moreover have "group_ok (on_fw h st1)" for h
      using st1(3) by (simp add: group_ok_def on_fw_def)
    ultimately show ?thesis
      using st' st1 f' unfolding eq
      by (intro exI [of _ "if k AND IPT_V4 \<noteq> 0 then map (\<lambda>m. (m, ?n)) ?ms else []"])
        (auto simp: adds_marks_def on_fw_def mark_rules_fold list_all_iff intro: exI [of _ 0])
  qed
qed

lemma qos_rule_ok: "group_ok st \<Longrightarrow> \<exists>ms. adds_marks st (qos_rule e st p) ms"
proof -
  assume g: "group_ok st"
  let ?fs = "vstrsep p (CHR ''<'') 10"
  define c where "c = atoi (?fs ! 8)"
  let ?st = "st\<lparr>inuse := inuse st OR push_bit (nat c) 1\<rparr>"
  have skip: "adds_marks st st []" "adds_marks st ?st []"
    using g by (auto simp: adds_marks_def group_ok_def intro: exI [of _ 0])
  consider "length ?fs < 10 \<or> c < 0 \<or> 9 < c" | "10 \<le> length ?fs" "0 \<le> c" "c \<le> 9" by linarith
  then show ?thesis
  proof cases
    case 1
    then show ?thesis
      using skip(1) by (intro exI [of _ "[]"]) (auto simp: qos_rule_def Let_def c_def)
  next
    case 2
    have "\<exists>ms. adds_marks ?st (class_rule e (c + 1) (addr_match e (?fs ! 0) (?fs ! 1)) ?fs ?st) ms"
      using 2 g by (intro class_rule_ok) (auto simp: bit_simps group_ok_def)
    moreover have "adds_marks ?st s ms \<Longrightarrow> adds_marks st s ms" for s ms
      by (auto simp: adds_marks_def or.assoc)
    ultimately show ?thesis
      using 2 skip(2) by (auto simp: qos_rule_def Let_def c_def)
  qed
qed

lemma qos_rules_ok: "group_ok st \<Longrightarrow> \<exists>ms. adds_marks st (foldl (qos_rule e) st ps) ms"
proof (induction ps arbitrary: st)
  case Nil
  then show ?case
    by (intro exI [of _ "[]"]) (auto simp: adds_marks_def intro: exI [of _ 0])
next
  case (Cons p ps)
  obtain ms where ms: "adds_marks st (qos_rule e st p) ms"
    using qos_rule_ok [OF Cons.prems] by blast
  then have "group_ok (qos_rule e st p)"
    by (simp add: adds_marks_def)
  from Cons.IH [OF this] obtain ms' where ms': "adds_marks (qos_rule e st p) (foldl (qos_rule e) st (p # ps)) ms'"
    by auto
  have "adds_marks st (foldl (qos_rule e) st (p # ps)) (ms @ ms')"
    using ms ms' class_mark_mono by (force simp: adds_marks_def or.assoc list_all_iff)
  then show ?case by blast
qed

lemma chain_rules_frame:
  "chain_rules ''QOSO'' (out4 (foldl (egress_rules e) f us)) = chain_rules ''QOSO'' (out4 f)"
  "chain_rules ''QOSO'' (out4 (egress6_rules e f)) = chain_rules ''QOSO'' (out4 f)"
  "chain_rules ''QOSO'' (out4 (ingress_rules e us f)) = chain_rules ''QOSO'' (out4 f)"
proof -
  have pre: "chain_rules ''QOSO'' (out4 (foldl (\<lambda>f j. ipt_write (Append ''PREROUTING'' (t j)) f) f us)) = chain_rules ''QOSO'' (out4 f)" for t
    by (induction us arbitrary: f) simp_all
  show "chain_rules ''QOSO'' (out4 (foldl (egress_rules e) f us)) = chain_rules ''QOSO'' (out4 f)"
    by (induction us arbitrary: f) (simp_all add: egress_rules_def Let_def)
  show "chain_rules ''QOSO'' (out4 (egress6_rules e f)) = chain_rules ''QOSO'' (out4 f)"
    by (simp add: egress6_rules_def ip6t_write_out)
  show "chain_rules ''QOSO'' (out4 (ingress_rules e us f)) = chain_rules ''QOSO'' (out4 f)"
    by (simp add: ingress_rules_def Let_def pre ip6t_write_out del: append_Cons append_Nil)
qed

definition head_rule :: string where
  "head_rule = ''-m connmark --mark 0/0xff000 -m connmark ! --mark 0/0xf -j RETURN''"

lemma qos_start_ok: "group_ok (qos_start e f)"
  by (rule group_okI [of _ 0]) (simp_all add: qos_start_def)

lemma default_rules_out:
  "chain_rules ''QOSO'' (out4 (default_rules e n f)) =
    chain_rules ''QOSO'' (out4 f) @ [''-j CONNMARK --set-mark '' @ show_hexi n @ ''/0xff00f'', ''-j RETURN'']"
  by (simp add: default_rules_def ip46t_write_out)

lemma qos_head_out: "chain_rules ''QOSO'' (out4 (qos_head e f)) = chain_rules ''QOSO'' (out4 f) @ [head_rule]"
  by (simp add: qos_head_def head_rule_def ip46t_write_out)

text \<open>The classes in use after the rules of the configuration.\<close>

definition rule_classes :: "fwenv \<Rightarrow> fw \<Rightarrow> int" where
  "rule_classes e f = inuse (foldl (qos_rule e) (qos_start e f) (qos_orules (fw_nv e)))"

lemma ipt_qos_nvram:
  "nvram_get_int (fw_nv e) ''qos_enable'' \<noteq> 0 \<Longrightarrow>
    fst (snd (ipt_qos e sy garbage f)) = (fw_nv e)(''qos_inuse'' \<mapsto> show_int (final_inuse (fw_nv e) (rule_classes e f)))"
  by (simp add: ipt_qos_def Let_def rule_classes_def)

lemma final_inuse_bit: "bit (final_inuse nv x) c \<longleftrightarrow> bit x c \<or> c = nat (mwan_active_num nv + 1) \<or> c = 0"
  by (auto simp: final_inuse_def bit_simps bit_1_iff)

subsection \<open>What the scripts do\<close>

text \<open>The filters of a direction and a protocol with the marks they look for and their classes; the class of a packet with a
  mark, of which the filters look at the lowest four bits.\<close>

definition filters :: "dir \<Rightarrow> string \<Rightarrow> tc_line list \<Rightarrow> (nat \<times> nat) list" where
  "filters d proto ls =
     concat (map (\<lambda>l. case l of Filter d' _ p h x \<Rightarrow> if d' = d \<and> p = proto then [(h, x)] else [] | _ \<Rightarrow> []) ls)"

definition flow :: "dir \<Rightarrow> string \<Rightarrow> tc_line list \<Rightarrow> nat \<Rightarrow> nat option" where
  "flow d proto ls mark = map_of (filters d proto ls) (mark mod 16)"

lemma filters_simps [simp]:
  "filters d p [] = []" "filters d p (xs @ ys) = filters d p xs @ filters d p ys"
  "filters d p (Plain t # ls) = filters d p ls" "filters d p (Text t # ls) = filters d p ls"
  "filters d p (Class d' x t # ls) = filters d p ls" "filters d p (Leaf d' x # ls) = filters d p ls"
  "filters d p (Filter d' pr p' h x # ls) = (if d' = d \<and> p' = p then (h, x) # filters d p ls else filters d p ls)"
  by (simp_all add: filters_def)

lemma filters_concat: "filters d p (concat (map g xs)) = concat (map (\<lambda>x. filters d p (g x)) xs)"
  by (induction xs) simp_all

lemma filters_map_Plain [simp]: "filters d p (map Plain ts) = []"
  by (induction ts) simp_all

lemma filters_fixed [simp]:
  "filters d p (script_head nv st pre) = []" "filters d p (out_root nv cake b q) = []" "filters d p (small_packets nv cake) = []"
  "filters d p (ingress_lines nv) = []" "filters d p (script_tail nv st pre) = []"
  by (simp_all add: script_head_def out_root_def small_packets_def flag_filter_def ingress_lines_def script_tail_def log_line_def Let_def)

definition rates_var :: "dir \<Rightarrow> string" where
  "rates_var d = (case d of Out \<Rightarrow> ''qos_orates'' | In \<Rightarrow> ''qos_irates'')"

lemma filters_out_classes:
  "proto \<in> {''ip'', ''ipv6''} \<Longrightarrow> filters d proto (concat (map (out_class q) rs)) = (if d = Out then map (\<lambda>(i, _). (i + 1, (i + 1) * 10)) rs else [])"
  by (induction rs) (auto simp: out_class_def Let_def)

lemma filters_in_class:
  "proto \<in> {''ip'', ''ipv6''} \<Longrightarrow> filters d proto (in_class q r) = (if d = In then [(fst r + 1, (fst r + 1) * 10)] else [])"
  by (cases r) (auto simp: in_class_def Let_def)

lemma filters_in_classes:
  "proto \<in> {''ip'', ''ipv6''} \<Longrightarrow> filters d proto (in_classes q rs) = (if d = In then map (\<lambda>(i, _). (i + 1, (i + 1) * 10)) rs else [])"
proof -
  assume p: "proto \<in> {''ip'', ''ipv6''}"
  have "filters d proto (concat (map (\<lambda>r. Plain [] # in_class q r) rs)) = (if d = In then map (\<lambda>(i, _). (i + 1, (i + 1) * 10)) rs else [])" for rs
    by (induction rs) (auto simp: filters_in_class [OF p] split: prod.splits)
  then show ?thesis
    by (cases rs) (auto simp: in_classes_def in_root_def filters_in_class [OF p] split: prod.splits)
qed

lemma script_filters:
  assumes "nvram_get_int nv ''qos_mode'' \<noteq> 2" "proto \<in> {''ip'', ''ipv6''}"
  shows "filters d proto (qos_script nv st pre) =
    map (\<lambda>(i, _). (i + 1, (i + 1) * 10)) (unit_rates st (nvram_get_int nv ''qos_inuse'') (class_rates nv (rates_var d)))"
  using assms by (cases d) (simp_all add: qos_script_def Let_def filters_out_classes filters_in_classes rates_var_def unit_param_def)

text \<open>The classes that a unit has: those in use with a rate.\<close>

definition class_built :: "nvram \<Rightarrow> dir \<Rightarrow> nat \<Rightarrow> bool" where
  "class_built nv d i \<longleftrightarrow>
     (let fs = class_rates nv (rates_var d)
      in bit (nvram_get_int nv ''qos_inuse'') (i mod 10) \<and> i < length fs \<and>
         (case scan_rates (fs ! i) of None \<Rightarrow> False | Some (rate, _) \<Rightarrow> 1 \<le> rate))"

lemma unit_rates_mem:
  "i \<in> fst ` set (unit_rates st iu fs) \<longleftrightarrow>
    qos_rate_start_index st \<le> int i \<and> i < 10 * nat (qos_wan_num st) \<and> i < length fs \<and> bit iu (i mod 10) \<and>
    (case scan_rates (fs ! i) of None \<Rightarrow> False | Some (rate, _) \<Rightarrow> 1 \<le> rate)"
  (is "?L \<longleftrightarrow> ?R")
proof -
  define g where "g = (\<lambda>(i, p). if int i < qos_rate_start_index st \<or> \<not> bit iu (i mod CLASSES_NUM) then []
       else case scan_rates p of None \<Rightarrow> [] | Some (rate, ceil) \<Rightarrow> if rate < 1 then [] else [(i, rate, ceil)])"
  let ?xs = "enumerate 0 (take (CLASSES_NUM * nat (qos_wan_num st)) fs)"
  have g: "j = i" if "i \<in> fst ` set (g (j, p))" for j p
    using that by (auto simp: g_def split: if_splits option.splits)
  have "unit_rates st iu fs = concat (map g ?xs)"
    by (simp add: unit_rates_def g_def)
  then have "?L \<longleftrightarrow> (\<exists>x \<in> set ?xs. i \<in> fst ` set (g x))"
    by auto
  also have "\<dots> \<longleftrightarrow> (\<exists>p. (i, p) \<in> set ?xs \<and> i \<in> fst ` set (g (i, p)))"
    using g by (metis prod.collapse)
  also have "\<dots> \<longleftrightarrow> (\<exists>p. (i, p) \<in> set ?xs \<and> qos_rate_start_index st \<le> int i \<and> bit iu (i mod 10) \<and>
      (case scan_rates p of None \<Rightarrow> False | Some (rate, _) \<Rightarrow> 1 \<le> rate))"
  proof -
    have "i \<in> fst ` set (g (i, p)) \<longleftrightarrow> qos_rate_start_index st \<le> int i \<and> bit iu (i mod 10) \<and>
        (case scan_rates p of None \<Rightarrow> False | Some (rate, _) \<Rightarrow> 1 \<le> rate)" for p
    proof (cases "scan_rates p")
      case (Some rc)
      obtain a b where "rc = (a, b)" by (cases rc)
      with Some show ?thesis
        by (cases "a < 1") (simp_all add: g_def CLASSES_NUM_def)
    qed (simp add: g_def)
    then show ?thesis by simp
  qed
  also have "\<dots> \<longleftrightarrow> ?R"
    by (auto simp: in_set_enumerate_eq CLASSES_NUM_def)
  finally show ?thesis .
qed

lemma map_of_rates:
  "map_of (map (\<lambda>(i, _). (i + 1, (i + 1) * 10)) rs) h = (if 0 < h \<and> h - 1 \<in> fst ` set rs then Some (h * 10) else None)" for h :: nat
  by (induction rs) (auto simp: image_iff)

lemma script_flow:
  assumes "nvram_get_int nv ''qos_mode'' \<noteq> 2" "proto \<in> {''ip'', ''ipv6''}"
  shows "flow d proto (qos_script nv st pre) mark =
    (let h = mark mod 16
     in if 0 < h \<and> qos_rate_start_index st \<le> int (h - 1) \<and> h - 1 < 10 * nat (qos_wan_num st) \<and> class_built nv d (h - 1)
        then Some (h * 10) else None)"
  unfolding flow_def script_filters [OF assms] map_of_rates unit_rates_mem by (auto simp: class_built_def Let_def)

lemma prep_qosstr_unit:
  assumes "1 \<le> k" "k \<le> 4"
  shows "qos_wan_num (prep_qosstr (get_wan_prefix k) st) = k" "qos_rate_start_index (prep_qosstr (get_wan_prefix k) st) = (k - 1) * 10"
    "qosfn (prep_qosstr (get_wan_prefix k) st) = ''/etc/wa''" "qosdev (prep_qosstr (get_wan_prefix k) st) = ''ifb'' @ show_int (k - 1)"
proof -
  have up: "[1..MWAN_MAX] = [1, 2, 3, 4]"
    by (simp add: MWAN_MAX_def upto.simps)
  have pre: "get_wan_prefix 1 = ''wan''" "get_wan_prefix 2 = ''wan2''" "get_wan_prefix 3 = ''wan3''" "get_wan_prefix 4 = ''wan4''"
    by code_simp+
  have sh: "show_int 0 = ''0''" "show_int 1 = ''1''" "show_int 2 = ''2''" "show_int 3 = ''3''" "show_int 4 = ''4''"
    by code_simp+
  have "k = 1 \<or> k = 2 \<or> k = 3 \<or> k = 4" using assms by linarith
  then have "let s = prep_qosstr (get_wan_prefix k) st in qos_wan_num s = k \<and> qos_rate_start_index s = (k - 1) * 10 \<and> qosfn s = ''/etc/wa'' \<and>
      qosdev s = ''ifb'' @ show_int (k - 1)"
    by (elim disjE) (simp_all add: prep_qosstr_def up pre sh strlcpy_def Let_def)
  then show "qos_wan_num (prep_qosstr (get_wan_prefix k) st) = k" "qos_rate_start_index (prep_qosstr (get_wan_prefix k) st) = (k - 1) * 10"
    "qosfn (prep_qosstr (get_wan_prefix k) st) = ''/etc/wa''" "qosdev (prep_qosstr (get_wan_prefix k) st) = ''ifb'' @ show_int (k - 1)"
    by (simp_all add: Let_def)
qed

text \<open>The classes that a script makes.\<close>

definition class_ids :: "dir \<Rightarrow> tc_line list \<Rightarrow> nat list" where
  "class_ids d ls = concat (map (\<lambda>l. case l of Class d' x _ \<Rightarrow> if d' = d then [x] else [] | _ \<Rightarrow> []) ls)"

lemma class_ids_simps [simp]:
  "class_ids d [] = []" "class_ids d (xs @ ys) = class_ids d xs @ class_ids d ys"
  "class_ids d (Plain t # ls) = class_ids d ls" "class_ids d (Text t # ls) = class_ids d ls"
  "class_ids d (Class d' x t # ls) = (if d' = d then x # class_ids d ls else class_ids d ls)" "class_ids d (Leaf d' x # ls) = class_ids d ls"
  "class_ids d (Filter d' pr p' h x # ls) = class_ids d ls"
  by (simp_all add: class_ids_def)

lemma class_ids_fixed [simp]:
  "class_ids d (map Plain ts) = []" "class_ids d (script_head nv st pre) = []" "class_ids d (out_root nv cake b q) = []"
  "class_ids d (small_packets nv cake) = []" "class_ids d (ingress_lines nv) = []" "class_ids d (script_tail nv st pre) = []"
proof -
  show plain: "class_ids d (map Plain ts) = []" for ts
    by (induction ts) simp_all
  show "class_ids d (script_head nv st pre) = []" "class_ids d (out_root nv cake b q) = []"
    "class_ids d (small_packets nv cake) = []" "class_ids d (ingress_lines nv) = []" "class_ids d (script_tail nv st pre) = []"
    using plain by (simp_all add: script_head_def out_root_def small_packets_def flag_filter_def ingress_lines_def script_tail_def log_line_def Let_def)
qed

lemma script_classes:
  "x \<in> set (class_ids d (qos_script nv st pre)) \<Longrightarrow>
    \<exists>i \<in> fst ` set (unit_rates st (nvram_get_int nv ''qos_inuse'') (class_rates nv (rates_var d))). x = (i + 1) * 10"
proof -
  have out: "class_ids d (out_class q r) = (if d = Out then [(fst r + 1) * 10] else [])" for q r
    by (cases r) (auto simp: out_class_def Let_def)
  have in1: "class_ids d (in_class q r) = (if d = In then [(fst r + 1) * 10] else [])" for q r
    by (cases r) (auto simp: in_class_def Let_def)
  have outs: "set (class_ids d (concat (map (out_class q) rs))) \<subseteq> {x. d = Out \<and> (\<exists>i \<in> fst ` set rs. x = (i + 1) * 10)}" for q rs
    by (induction rs) (auto simp: out)
  have "set (class_ids d (concat (map (\<lambda>r. Plain [] # in_class q r) rs))) \<subseteq> {x. d = In \<and> (\<exists>i \<in> fst ` set rs. x = (i + 1) * 10)}" for q rs
    by (induction rs) (auto simp: in1)
  then have ins: "set (class_ids d (in_classes q rs)) \<subseteq> {x. d = In \<and> (\<exists>i \<in> fst ` set rs. x = (i + 1) * 10)}" for q rs
    by (cases rs) (fastforce simp: in_classes_def in_root_def in1)+
  show "x \<in> set (class_ids d (qos_script nv st pre)) \<Longrightarrow>
      \<exists>i \<in> fst ` set (unit_rates st (nvram_get_int nv ''qos_inuse'') (class_rates nv (rates_var d))). x = (i + 1) * 10"
    using outs ins by (cases d) (fastforce simp: qos_script_def Let_def unit_param_def rates_var_def split: if_splits)+
qed

text \<open>An example: one rule for a class and a default class that no rule uses.\<close>

definition example_qos :: fwenv where
  "example_qos =
     \<lparr>ipv6_enabled = False, wan6face = [], wanfaces = [], chain_in_accept = ''ACCEPT'', chain_out_drop = ''DROP'', chain_out_reject = ''REJECT'',
      ndpi_tab = Some [], getaddrinfo = (\<lambda>_ _. None),
      fw_nv = [''qos_enable'' \<mapsto> ''1'', ''qos_classify'' \<mapsto> ''1'', ''qos_default'' \<mapsto> ''8'', ''wan_proto'' \<mapsto> ''dhcp'',
        ''qos_orules'' \<mapsto> ''0<<6<d<80<<<<1<web'', ''qos_orates'' \<mapsto> ''5-100,20-90'', ''qos_inuse'' \<mapsto> ''3'']\<rparr>"

definition no_rules :: fw where
  "no_rules = \<lparr>out4 = [], out6 = [], ndpi_in = [], modules = []\<rparr>"

subsection \<open>Properties\<close>

text \<open>C6: the chain for forwarded packets.  After a rule for connections that have their class already come two rules for each
  match of the configuration, one that sets a mark and one that returns, so that the first match counts; each of these marks is
  for a class from 1 to 10 that is in \<^verbatim>\<open>qos_inuse\<close> afterwards, with a size group of one byte.  The last rules set the mark of
  the default class.\<close>

theorem qos_chain_correct:
  assumes "nvram_get_int (fw_nv e) ''qos_enable'' \<noteq> 0"
  shows "\<exists>ms iu n. chain_rules ''QOSO'' (out4 (fst (ipt_qos e sy garbage f))) =
      chain_rules ''QOSO'' (out4 f) @ [head_rule] @ marking '' '' ms @ [''-j CONNMARK --set-mark '' @ show_hexi n @ ''/0xff00f'', ''-j RETURN''] \<and>
    fst (snd (ipt_qos e sy garbage f)) = (fw_nv e)(''qos_inuse'' \<mapsto> show_int iu) \<and>
    list_all (\<lambda>(m, k). class_mark iu k) ms \<and> n AND 15 = default_class (fw_nv e) + 1"
proof -
  let ?st = "foldl (qos_rule e) (qos_start e f) (qos_orules (fw_nv e))"
  obtain ms where ms: "adds_marks (qos_start e f) ?st ms"
    using qos_rules_ok [OF qos_start_ok] by blast
  define flag where "flag = (if 0 < sizegroup ?st then push_bit 12 255 else class_flag ?st)"
  obtain g where g: "flag = push_bit 12 g"
    using ms that [of 255] that unfolding adds_marks_def group_ok_def flag_def by (cases "0 < sizegroup ?st") auto
  let ?n = "(default_class (fw_nv e) + 1) OR flag" and ?iu = "final_inuse (fw_nv e) (inuse ?st)"
  have d: "0 \<le> default_class (fw_nv e)" "default_class (fw_nv e) \<le> 9"
    by (simp_all add: default_class_def Let_def)
  then have "?n AND 15 = default_class (fw_nv e) + 1"
    using take_bit_eq_mask [of 4 ?n] by (simp add: mask_eq_exp_minus_1 g take_bit_or take_bit_push_bit take_bit_int_eq_self)
  moreover have "chain_rules ''QOSO'' (out4 (fst (ipt_qos e sy garbage f))) = chain_rules ''QOSO'' (out4 f) @ [head_rule] @ marking '' '' ms @
      [''-j CONNMARK --set-mark '' @ show_hexi ?n @ ''/0xff00f'', ''-j RETURN'']"
    using assms ms by (simp add: ipt_qos_def Let_def chain_rules_frame default_rules_out qos_head_out adds_marks_def qos_start_def flag_def)
  moreover have "fst (snd (ipt_qos e sy garbage f)) = (fw_nv e)(''qos_inuse'' \<mapsto> show_int ?iu)"
    using ipt_qos_nvram [OF assms] by (simp add: rule_classes_def)
  moreover have "list_all (\<lambda>(m, k). class_mark ?iu k) ms"
    using ms class_mark_mono by (force simp: adds_marks_def list_all_iff final_inuse_def)
  ultimately show ?thesis by blast
qed

theorem qos_chain_correct_witness:
  "\<forall>sy garbage. \<exists>ms iu n. chain_rules ''QOSO'' (out4 (fst (ipt_qos example_qos sy garbage no_rules))) =
      chain_rules ''QOSO'' (out4 no_rules) @ [head_rule] @ marking '' '' ms @ [''-j CONNMARK --set-mark '' @ show_hexi n @ ''/0xff00f'', ''-j RETURN''] \<and>
    fst (snd (ipt_qos example_qos sy garbage no_rules)) = (fw_nv example_qos)(''qos_inuse'' \<mapsto> show_int iu) \<and>
    list_all (\<lambda>(m, k). class_mark iu k) ms \<and> n AND 15 = default_class (fw_nv example_qos) + 1"
proof (intro allI qos_chain_correct)
  show "nvram_get_int (fw_nv example_qos) ''qos_enable'' \<noteq> 0"
    by code_simp
qed



text \<open>C36: the scripts of the other units direct no packet to a class: their filters look for marks above 10, which no rule sets, because
  the number of the class is counted over all units.\<close>

theorem other_units_unclassified:
  assumes "nvram_get_int nv ''qos_mode'' \<noteq> 2" "proto \<in> {''ip'', ''ipv6''}" "2 \<le> k" "k \<le> 4" "mark mod 16 \<le> 10"
  shows "flow d proto (qos_script nv (prep_qosstr (get_wan_prefix k) st) (get_wan_prefix k)) mark = None"
  using script_flow [OF assms(1,2), of d "prep_qosstr (get_wan_prefix k) st" "get_wan_prefix k" mark] prep_qosstr_unit(1,2) [of k st] assms(3-5)
  by (auto simp: Let_def)

theorem other_units_unclassified_witness:
  "\<forall>st d. flow d ''ip'' (qos_script (fw_nv example_qos) (prep_qosstr (get_wan_prefix 2) st) (get_wan_prefix 2)) 2 = None"
proof (intro allI other_units_unclassified)
  show "nvram_get_int (fw_nv example_qos) ''qos_mode'' \<noteq> 2"
    by code_simp
qed simp_all

text \<open>The number that relates rates and quanta for the queues is positive, and the quantum that the kernel derives from the
  whole bandwidth is at most 60000 bytes, for bandwidths below four gigabits per second.\<close>

theorem r2q_bounds:
  assumes "bw * 1000 < 2 ^ 32" "mtu \<le> 30000"
  shows "1 \<le> calc_r2q bw mtu \<and> bw * 1000 div (8 * calc_r2q bw mtu) \<le> 60000"
proof -
  define w r where "w = bw * 1000" and "r = calc_r2q bw mtu"
  have r: "r = (if w div 80 < mtu then max 1 (w div (8 * mtu)) else if 60000 < w div 80 then w div 480000 + 1 else 10)"
    using assms by (auto simp: r_def calc_r2q_def w_def Let_def)
  consider "w div 80 < mtu" "w div (8 * mtu) < 1" | "w div 80 < mtu" "1 \<le> w div (8 * mtu)"
    | "mtu \<le> w div 80" "60000 < w div 80" | "mtu \<le> w div 80" "w div 80 \<le> 60000" by linarith
  then have "1 \<le> r \<and> w < 60001 * (8 * r)"
  proof cases
    case 1
    then have "w < 8 * mtu" by (cases "mtu = 0") (simp_all add: div_eq_0_iff)
    then show ?thesis using 1 r assms(2) by simp
  next
    case 2
    then have "w < (r + 1) * (8 * mtu)"
      using dividend_less_times_div [of "8 * mtu" w] r by (cases "mtu = 0") (simp_all add: algebra_simps)
    also have "\<dots> \<le> (2 * r) * (8 * 30000)"
      using 2 r assms(2) by (intro mult_le_mono) auto
    finally show ?thesis using 2 r by simp
  next
    case 3
    then show ?thesis using r dividend_less_times_div [of 480000 w] by simp
  next
    case 4
    then show ?thesis using r by simp
  qed
  then have "1 \<le> r" "w div (8 * r) < 60001"
    by (simp_all add: div_less_iff_less_mult)
  then show ?thesis
    unfolding w_def r_def by linarith
qed

text \<open>C37: the default class is not built.  The script tells the kernel to put packets without a class of their own into the default class
  of the configuration, but no class of the script has this number, unless a rule uses the class, it is the first one, or its
  number happens to be one more than the number of units.\<close>

theorem default_class_missing:
  assumes "nvram_get_int (fw_nv e) ''qos_enable'' \<noteq> 0" "nvram_get_int (fw_nv e) ''qos_default'' = int c" "1 \<le> c" "c \<le> 9"
    "int c \<noteq> mwan_active_num (fw_nv e) + 1" "\<not> bit (rule_classes e f) c"
  shows "let nv' = fst (snd (ipt_qos e sy garbage f))
    in p_default (unit_param nv' ''wan'') = (c + 1) * 10 \<and> (c + 1) * 10 \<notin> set (class_ids d (qos_script nv' (prep_qosstr ''wan'' st) ''wan''))"
proof -
  let ?iu = "final_inuse (fw_nv e) (rule_classes e f)" and ?st = "prep_qosstr ''wan'' st"
  define nv' where "nv' = fst (snd (ipt_qos e sy garbage f))"
  have nv': "nv' = (fw_nv e)(''qos_inuse'' \<mapsto> show_int ?iu)"
    unfolding nv'_def by (rule ipt_qos_nvram [OF assms(1)])
  have "nvram_get_int nv' ''qos_default'' = int c" "nvram_get_int nv' ''qos_inuse'' = ?iu"
    using assms(2) atoi_show_int [of "[]" ?iu] by (simp_all add: nv' nvram_get_int_def nvram_safe_get_def)
  moreover have "\<not> bit ?iu c"
    using assms(3,5,6) by (auto simp: final_inuse_bit)
  moreover have "nat ((int c + 1) * 10 mod 2 ^ 32) = (c + 1) * 10"
    using assms(4) by (simp add: nat_mod_distrib nat_mult_distrib nat_add_distrib)
  ultimately have "p_default (unit_param nv' ''wan'') = (c + 1) * 10" "(c + 1) * 10 \<notin> set (class_ids d (qos_script nv' ?st ''wan''))"
    using assms(4) script_classes [of "(c + 1) * 10" d nv' ?st "''wan''"] by (auto simp: unit_param_def unit_rates_mem)
  then show ?thesis
    unfolding nv'_def Let_def by blast
qed

theorem default_class_missing_witness:
  "\<forall>sy garbage d st. let nv' = fst (snd (ipt_qos example_qos sy garbage no_rules))
    in p_default (unit_param nv' ''wan'') = (8 + 1) * 10 \<and> (8 + 1) * 10 \<notin> set (class_ids d (qos_script nv' (prep_qosstr ''wan'' st) ''wan''))"
proof (intro allI default_class_missing)
  show "nvram_get_int (fw_nv example_qos) ''qos_enable'' \<noteq> 0" "nvram_get_int (fw_nv example_qos) ''qos_default'' = int 8"
    "int 8 \<noteq> mwan_active_num (fw_nv example_qos) + 1" "\<not> bit (rule_classes example_qos no_rules) 8"
    by code_simp+
qed simp_all

theorem r2q_bounds_witness: "1 \<le> calc_r2q 1000000 1500 \<and> 1000000 * 1000 div (8 * calc_r2q 1000000 1500) \<le> 60000"
  by (rule r2q_bounds) simp_all

text \<open>From four gigabits per second on the product wraps around and the bound is lost.\<close>

lemma r2q_wraps: "60000 < 5000000 * 1000 div (8 * calc_r2q 5000000 1500)"
  by (simp add: calc_r2q_def Let_def)

text \<open>The buffer for the name of the script has room for seven characters: all units use one file, and stopping a unit runs the
  script of the unit that was started last.\<close>

lemma one_script_for_all_units:
  "1 \<le> j \<Longrightarrow> j \<le> 4 \<Longrightarrow> 1 \<le> k \<Longrightarrow> k \<le> 4 \<Longrightarrow>
    qosfn (prep_qosstr (get_wan_prefix j) st) = qosfn (prep_qosstr (get_wan_prefix k) st')"
  by (simp add: prep_qosstr_unit)

text \<open>A negative overhead, which the form allows, becomes a very large one.\<close>

lemma negative_overhead: "unit_num [''wan_qos_overhead'' \<mapsto> ''-10''] ''wan'' ''qos_overhead'' = 4294967286"
proof -
  have "prefix_nvram_get [''wan_qos_overhead'' \<mapsto> ''-10''] ''wan'' ''qos_overhead'' = ''-10''" "read_nat ''10'' = 10"
    by code_simp+
  then show ?thesis
    by (simp add: unit_num_def strtoul_def isspace_def isdigit_def Let_def)
qed

text \<open>The rule for classification switched off has the fields of another build: its sixth field, which is a protocol here, is not the
  name of one, and the rule is dropped.\<close>

lemma disabled_rule_dropped:
  assumes "ndpi_tab e = Some ps" "\<not> list_ex (\<lambda>p. strcaseeq (fst p) ''0'') ps"
  shows "out4 (q_fw (qos_rule e st disabled_classification_rules)) = out4 (q_fw st)"
proof -
  have fs: "vstrsep disabled_classification_rules (CHR ''<'') 10 = [''0'', [], ''-2'', ''a'', [], ''0'', [], [], [], ''0'']"
    by code_simp
  have "ndpi_proto_list_valid (ndpi_tab e) ''0'' \<noteq> None"
    using assms by (simp add: ndpi_proto_list_valid_def ndpi_proto_valid_def strlcpy_def)
  then have nd: "ipt_ndpi e ''0'' 256 f = (- 1, [], modprobe ''xt_ndpi'' f)" for f
    by (simp add: ipt_ndpi_def Let_def)
  have "class_rule e c am [''0'', [], ''-2'', ''a'', [], ''0'', [], [], [], ''0''] s = s\<lparr>q_fw := modprobe ''xt_ndpi'' (q_fw s)\<rparr>" for c am s
    by (cases am) (simp add: class_rule_def nd)
  then show ?thesis
    by (simp add: qos_rule_def fs Let_def modprobe_def)
qed

end
