(* ===== verification/Pbr.thy ===== *)
theory Pbr
  imports Iptables Records
begin

section \<open>Routing by policy\<close>

text \<open>
  \<^verbatim>\<open>rc/pbr.c\<close>: with several WAN units every unit has a chain \<^verbatim>\<open>WAN_n\<close> that marks new connections with
  the number of the unit, and the chain \<^verbatim>\<open>WAN_PBR\<close> sends the packets of the configured rules to these chains.
  \<^verbatim>\<open>ipt_routerpolicy\<close> writes them when the firewall is built; \<^verbatim>\<open>mwan_pbr_update\<close> empties or fills the
  chain of one unit later.  The answers of the resolver are a parameter, and so is what the buffer for the match of
  the source holds before the first rule.  The C library prints an address with \<^verbatim>\<open>inet_ntoa\<close> and
  \<^verbatim>\<open>inet_ntop\<close> in the same way.
\<close>

definition inet_ntoa :: "u32 \<Rightarrow> string" where
  "inet_ntoa a =
     show_nat (unat (drop_bit 24 a)) @ ''.'' @ show_nat (unat (drop_bit 16 a AND 255)) @ ''.'' @
     show_nat (unat (drop_bit 8 a AND 255)) @ ''.'' @ show_nat (unat (a AND 255))"

subsection \<open>The rules of the firewall\<close>

definition wan_chain :: "int \<Rightarrow> string" where
  "wan_chain u = ''WAN_'' @ show_int u"

definition set_mark_text :: "int \<Rightarrow> string" where
  "set_mark_text u = ''-m conntrack --ctstate NEW -j CONNMARK --set-mark 0x'' @ show_int u @ ''00/0xf00''"

definition restore_mark_text :: string where
  "restore_mark_text = ''-m conntrack --ctstate NEW -j CONNMARK --restore-mark --mask 0xf00''"

definition wan_up :: "nvram \<Rightarrow> sys \<Rightarrow> (string \<Rightarrow> bool \<times> bool) \<Rightarrow> string \<Rightarrow> bool" where
  "wan_up nv sy garbage pre \<longleftrightarrow> check_wanup nv sy (garbage pre) pre \<noteq> 0"

definition unit_chain :: "nvram \<Rightarrow> (string \<Rightarrow> bool) \<Rightarrow> int \<Rightarrow> ipt_line list" where
  "unit_chain nv up u =
     (let pre = get_wan_prefix u
      in Chain (wan_chain u) #
         (if up pre then
            [Append (wan_chain u) (set_mark_text u), Append (wan_chain u) restore_mark_text,
             Append ''PREROUTING'' (''-i '' @ get_wanface nv pre @ '' -j '' @ wan_chain u),
             Append ''POSTROUTING'' (''-o '' @ get_wanface nv pre @ '' -j '' @ wan_chain u)]
          else []))"

definition pbr_head :: "ipt_line list" where
  "pbr_head =
     [Chain ''WAN_PBR'',
      Append ''WAN_PBR'' ''-m state --state RELATED,ESTABLISHED -j RETURN'',
      Append ''PREROUTING'' ''-i br+ -j WAN_PBR'',
      Append ''PREROUTING'' ''-i br+ -m conntrack --ctstate ESTABLISHED,RELATED -j CONNMARK --restore-mark --mask 0xf00'',
      Append ''OUTPUT'' ''-m conntrack --ctstate ESTABLISHED,RELATED -j CONNMARK --restore-mark --mask 0xf00'']"

text \<open>The match of the source, which keeps its old text for any other type.\<close>

definition pbr_src :: "string \<Rightarrow> string \<Rightarrow> string \<Rightarrow> string" where
  "pbr_src srt_type srt_addr msrt =
     (if atoi srt_type = 1 then strlcpy (''-s '' @ srt_addr) 192
      else if atoi srt_type = 2 then strlcpy (''-m mac --mac-source '' @ srt_addr) 192
      else msrt)"

text \<open>The matches of the destination: one for every IPv4 address of a name, none if it cannot be resolved.\<close>

definition pbr_dsts :: "(string \<Rightarrow> (family \<times> u32 option) list option) \<Rightarrow> string \<Rightarrow> string \<Rightarrow> string list" where
  "pbr_dsts resolve dst_type dst_addr =
     (if atoi dst_type = 3 then
        case inet_pton dst_addr of
          Some a \<Rightarrow> [strlcpy (''-d '' @ inet_ntoa a) 192]
        | None \<Rightarrow>
            (case resolve dst_addr of
               None \<Rightarrow> []
             | Some ps \<Rightarrow>
                 concat (map (\<lambda>(fam, addr). case addr of
                     None \<Rightarrow> []
                   | Some a \<Rightarrow> if fam \<noteq> AF_INET then [] else [strlcpy (''-d '' @ inet_ntoa a) 192]) ps))
      else [if atoi dst_type \<noteq> 0 then strlcpy (''-d '' @ dst_addr) 192 else []])"

definition pbr_port :: "string \<Rightarrow> string \<Rightarrow> string \<Rightarrow> string" where
  "pbr_port one many p = (if p = [] then [] else (if strchr p (CHR '','') \<noteq> None then many else one) @ p)"

definition pbr_lines :: "string \<Rightarrow> string \<Rightarrow> string \<Rightarrow> string \<Rightarrow> string \<Rightarrow> string \<Rightarrow> ipt_line list" where
  "pbr_lines proto srt_port dst_port msrt jump mdst =
     (let n = atoi proto;
          with_ports = (\<lambda>p. Append ''WAN_PBR''
            (''-p '' @ p @ '' '' @ msrt @ pbr_port '' --sport '' '' -m multiport --sports '' srt_port @ '' '' @
             mdst @ pbr_port '' --dport '' '' -m multiport --dports '' dst_port @ '' -j '' @ jump))
      in if - 2 < n then
           if n = 6 \<or> n = 17 \<or> n = - 1 then
             (if n \<noteq> 6 then [with_ports ''udp''] else []) @ (if n \<noteq> 17 then [with_ports ''tcp''] else [])
           else [Append ''WAN_PBR'' (''-p '' @ show_int n @ '' '' @ msrt @ '' '' @ mdst @ '' -j '' @ jump)]
         else [Append ''WAN_PBR'' (msrt @ '' '' @ mdst @ '' -j '' @ jump)])"

definition pbr_rule ::
    "(string \<Rightarrow> (family \<times> u32 option) list option) \<Rightarrow> int \<Rightarrow> string \<times> fw \<Rightarrow> string \<Rightarrow> string \<times> fw" where
  "pbr_rule resolve mwan_num st b =
     (case vstrsep b (CHR ''<'') 10 of
        [active, proto, srt_type, srt_addr, srt_port, dst_type, dst_addr, dst_port, wanx, desc] \<Rightarrow>
          if hd0 active \<noteq> CHR ''1'' then st
          else
            let msrt = pbr_src srt_type srt_addr (fst st); wan_unit = atoi wanx
            in if 1 \<le> wan_unit \<and> wan_unit \<le> mwan_num then
                 (msrt, foldl (\<lambda>f d. foldl (\<lambda>f l. ipt_write l f) f
                                        (pbr_lines proto srt_port dst_port msrt (strlcpy (wan_chain wan_unit) 16) d))
                          (snd st) (pbr_dsts resolve dst_type dst_addr))
               else (msrt, snd st)
      | _ \<Rightarrow> st)"

definition ipt_routerpolicy ::
    "fwenv \<Rightarrow> sys \<Rightarrow> (string \<Rightarrow> bool \<times> bool) \<Rightarrow> (string \<Rightarrow> (family \<times> u32 option) list option) \<Rightarrow> string \<Rightarrow> fw \<Rightarrow> fw" where
  "ipt_routerpolicy e sy garbage resolve msrt0 f =
     (let nv = fw_nv e; up = wan_up nv sy garbage; mwan_num = mwan_active_num nv
      in if mwan_num \<le> 1 then f
         else
           let f = foldl (\<lambda>f u. foldl (\<lambda>f l. ipt_write l f) f (unit_chain nv up u)) f [1..mwan_num];
               f = foldl (\<lambda>f l. ipt_write l f) f pbr_head
           in snd (foldl (pbr_rule resolve mwan_num) (msrt0, f) (split_on (CHR ''>'') (nvram_safe_get nv ''pbr_rules''))))"

subsection \<open>The update of one unit\<close>

text \<open>
  The programs that this part and \<^verbatim>\<open>rc/mwan.c\<close> call, by what is put into their arguments, and the
  arguments themselves.  The rules for the addresses of a unit, for its DNS servers and for its mark have the
  preferences 10n, 11n and 12n.
\<close>

datatype rule_kind = FROM | TO | FWMARK

datatype ipcmd =
    Flush int
  | SetMark int
  | RestoreMark int
  | RuleDel int rule_kind
  | RuleAdd int rule_kind string
  | RouteLink string string string int
  | RouteLan string string string int
  | RouteLo int
  | RouteDefault string string int
  | RouteDel string string
  | RouteReplace "(string \<times> string \<times> int) list"

fun rule_pref :: "rule_kind \<Rightarrow> int \<Rightarrow> string" where
  "rule_pref FROM u = ''10'' @ show_int u"
| "rule_pref TO u = ''11'' @ show_int u"
| "rule_pref FWMARK u = ''12'' @ show_int u"

fun rule_selector :: "rule_kind \<Rightarrow> string" where
  "rule_selector FROM = ''from''"
| "rule_selector TO = ''to''"
| "rule_selector FWMARK = ''fwmark''"

definition mark_text :: "int \<Rightarrow> string" where
  "mark_text u = ''0x'' @ show_int u @ ''00/0xf00''"

fun argv :: "ipcmd \<Rightarrow> string list" where
  "argv (Flush u) = [''iptables'', ''-t'', ''mangle'', ''-F'', wan_chain u]"
| "argv (SetMark u) =
     [''iptables'', ''-t'', ''mangle'', ''-A'', wan_chain u, ''-m'', ''conntrack'', ''--ctstate'', ''NEW'',
      ''-j'', ''CONNMARK'', ''--set-mark'', mark_text u]"
| "argv (RestoreMark u) =
     [''iptables'', ''-t'', ''mangle'', ''-A'', wan_chain u, ''-m'', ''conntrack'', ''--ctstate'', ''NEW'',
      ''-j'', ''CONNMARK'', ''--restore-mark'', ''--mask'', ''0xf00'']"
| "argv (RuleDel u k) = [''ip'', ''rule'', ''del'', ''table'', show_int u, ''pref'', rule_pref k u]"
| "argv (RuleAdd u k s) = [''ip'', ''rule'', ''add'', rule_selector k, s, ''table'', show_int u, ''pref'', rule_pref k u]"
| "argv (RouteLink dst dev src t) =
     [''ip'', ''route'', ''append'', dst, ''dev'', dev, ''proto'', ''kernel'', ''scope'', ''link'', ''src'', src,
      ''table'', show_int t]"
| "argv (RouteLan cidr dev src t) =
     [''ip'', ''route'', ''append'', cidr, ''dev'', dev, ''proto'', ''kernel'', ''scope'', ''link'', ''src'', src,
      ''table'', show_int t]"
| "argv (RouteLo t) =
     [''ip'', ''route'', ''append'', ''127.0.0.0/8'', ''dev'', ''lo'', ''scope'', ''link'', ''table'', show_int t]"
| "argv (RouteDefault via dev t) = [''ip'', ''route'', ''append'', ''default'', ''via'', via, ''dev'', dev, ''table'', show_int t]"
| "argv (RouteDel via dev) = [''ip'', ''route'', ''del'', ''default'', ''via'', via, ''dev'', dev]"
| "argv (RouteReplace hops) =
     [''ip'', ''route'', ''replace'', ''default'', ''scope'', ''global''] @
     concat (map (\<lambda>(via, dev, w). [''nexthop'', ''via'', via, ''dev'', dev, ''weight'', show_int w]) hops)"

text \<open>What the programs of these files do to the outside.\<close>

datatype act =
    Eval ipcmd
  | Lock string
  | Unlock string
  | StopDnsmasq
  | StartDnsmasq
  | WriteFile string string

text \<open>The exit status of a program is a parameter: whether it is zero.\<close>

definition mwan_pbr_update :: "(ipcmd \<Rightarrow> bool) \<Rightarrow> int \<Rightarrow> bool \<Rightarrow> act list" where
  "mwan_pbr_update ok wan_unit up =
     (if wan_unit < 1 \<or> MWAN_MAX < wan_unit then []
      else
        [Lock ''firewall'', Eval (Flush wan_unit)] @
        (if ok (Flush wan_unit) \<and> up then [Eval (SetMark wan_unit), Eval (RestoreMark wan_unit)] else []) @
        [Unlock ''firewall''])"


subsection \<open>Addresses as text\<close>

lemma show_nat_leading: "0 < n \<Longrightarrow> hd0 (show_nat n) \<noteq> CHR ''0''"
proof (induction n rule: show_nat.induct)
  case (1 n)
  show ?case
  proof (cases "n < 10")
    case True
    then have "of_char (digit_char n) \<noteq> (of_char (CHR ''0'') :: nat)"
      using 1(2) by (simp add: of_char_digit_char)
    then have "digit_char n \<noteq> CHR ''0''" by metis
    then show ?thesis using True by (simp add: show_nat.simps [of n])
  next
    case False
    moreover have "hd0 (show_nat (n div 10) @ s) = hd0 (show_nat (n div 10))" for s
      using show_nat_not_Nil [of "n div 10"] by (cases "show_nat (n div 10)") auto
    ultimately show ?thesis
      using 1(1) by (simp add: show_nat.simps [of n])
  qed
qed

lemma octet_text:
  assumes "n < 256"
  shows "length (show_nat n) \<le> 3" "\<not> (1 < length (show_nat n) \<and> hd0 (show_nat n) = CHR ''0'')"
proof -
  show "length (show_nat n) \<le> 3"
    using length_show_nat [of n 2] assms by simp
  have "length (show_nat 0) = 1"
    by code_simp
  then show "\<not> (1 < length (show_nat n) \<and> hd0 (show_nat n) = CHR ''0'')"
    using show_nat_leading [of n] by (cases "n = 0") auto
qed

lemma octet_digits:
  assumes "n < 256" "r = [] \<or> \<not> isdigit (hd r)"
  shows "takeWhile isdigit (take 3 (show_nat n @ r)) = show_nat n"
proof -
  have "takeWhile isdigit (take k r) = []" for k
    using assms(2) by (cases r; cases k) auto
  moreover have "takeWhile isdigit (show_nat n @ s) = show_nat n @ takeWhile isdigit s" for s
    by (simp add: takeWhile_append show_nat_digits)
  ultimately show ?thesis
    using octet_text(1) [OF assms(1)] by simp
qed

lemma pton_loop_octet:
  assumes "n < 256" "r = [] \<or> \<not> isdigit (hd r)"
  shows "pton_loop m (show_nat n @ r) acc =
    (case m of
       0 \<Rightarrow> if hd0 r = NUL then Some (push_bit 8 acc OR of_nat n) else None
     | Suc k \<Rightarrow> if hd0 r = CHR ''.'' then pton_loop k (drop 1 r) (push_bit 8 acc OR of_nat n) else None)"
proof -
  have h: "hd0 (show_nat n @ r) = hd0 (show_nat n)"
    using show_nat_not_Nil [of n] by (cases "show_nat n") auto
  have d: "drop (length (show_nat n) + 1) (show_nat n @ r) = drop 1 r" "drop (length (show_nat n)) (show_nat n @ r) = r"
    by simp_all
  have c: "\<not> (length (show_nat n) = 0 \<or> 1 < length (show_nat n) \<and> hd0 (show_nat n) = CHR ''0'' \<or> 255 < n)"
    using octet_text(2) [OF assms(1)] assms(1) by simp
  show ?thesis
    by (subst pton_loop.simps)
      (simp only: Let_def octet_digits [OF assms] digits_value_show_nat h d c if_False)
qed

lemma and_octet: "x AND 255 = take_bit 8 (x :: u32)"
  by (simp add: take_bit_eq_mask mask_eq_exp_minus_1)

lemma octets_join:
  "((push_bit 24 (drop_bit 24 a) OR push_bit 16 (take_bit 8 (drop_bit 16 a))) OR push_bit 8 (take_bit 8 (drop_bit 8 a))) OR
    take_bit 8 a = (a :: u32)"
proof (rule bit_word_eqI)
  fix n assume "n < LENGTH(32)"
  moreover have "n < 8 \<or> (\<exists>k < 8. n = 8 + k) \<or> (\<exists>k < 8. n = 16 + k) \<or> (\<exists>k. n = 24 + k)"
    by presburger
  ultimately show "bit (((push_bit 24 (drop_bit 24 a) OR push_bit 16 (take_bit 8 (drop_bit 16 a))) OR
      push_bit 8 (take_bit 8 (drop_bit 8 a))) OR take_bit 8 a) n = bit a n"
    by (auto simp: bit_simps)
qed

text \<open>Every address is read back from its text.\<close>

lemma inet_ntoa_roundtrip: "inet_pton (inet_ntoa a) = Some a"
proof -
  have b: "unat (take_bit 8 x :: u32) < 256" for x
    by (simp add: unsigned_take_bit_eq) (simp add: take_bit_eq_mod)
  have t: "unat (drop_bit 24 a) < 256"
    using unsigned_less [of a, where ?'a = nat] by (simp add: drop_bit_eq_div unat_div)
  have dot: "\<not> isdigit (CHR ''.'')"
    by code_simp
  have e: "n < 256 \<Longrightarrow> pton_loop 0 (show_nat n) acc = Some (push_bit 8 acc OR of_nat n)" for n acc
    using pton_loop_octet [of n "[]" 0 acc] by simp
  show ?thesis
    by (simp add: inet_pton_def inet_ntoa_def and_octet pton_loop_octet b t dot e octets_join numeral_3_eq_3)
qed

lemma active_num_bound: "mwan_active_num nv \<le> MWAN_MAX"
proof -
  let ?P = "\<lambda>i. get_wanx_proto nv (get_wan_prefix i) = WP_DISABLED"
  have c: "mwan_configured_num nv \<le> MWAN_MAX"
    by (simp add: mwan_configured_num_def MWAN_MAX_def Let_def)
  show ?thesis
  proof (cases "find ?P [1..mwan_configured_num nv]")
    case None
    then show ?thesis using c by (simp add: mwan_active_num_def)
  next
    case (Some i)
    then show ?thesis using c find_upto_Some [of ?P 1 "mwan_configured_num nv" i] by (simp add: mwan_active_num_def)
  qed
qed

lemma unit_cases: "1 \<le> u \<Longrightarrow> u \<le> MWAN_MAX \<Longrightarrow> u = 1 \<or> u = 2 \<or> u = 3 \<or> u = 4"
  by (auto simp: MWAN_MAX_def)

lemma show_unit: "show_int 1 = ''1''" "show_int 2 = ''2''" "show_int 3 = ''3''" "show_int 4 = ''4''"
  by code_simp+

lemma wan_chain_fits: "1 \<le> u \<Longrightarrow> u \<le> MWAN_MAX \<Longrightarrow> strlcpy (wan_chain u) 16 = wan_chain u"
  using unit_cases [of u] by (auto simp: wan_chain_def show_unit strlcpy_def)

lemma show_pos: "1 \<le> u \<Longrightarrow> isdigit (hd0 (show_int u)) \<and> show_int u \<noteq> []"
  using show_nat_digits [of "hd0 (show_nat (nat u))" "nat u"] show_nat_not_Nil [of "nat u"]
  by (cases "show_nat (nat u)") (auto simp: show_int_def)

lemma wan_chain_other [simp]:
  assumes "1 \<le> u"
  shows "''WAN_PBR'' \<noteq> wan_chain u" "''PREROUTING'' \<noteq> wan_chain u" "''POSTROUTING'' \<noteq> wan_chain u" "''OUTPUT'' \<noteq> wan_chain u"
proof -
  have "\<not> isdigit (CHR ''P'')"
    by code_simp
  then have "show_int u \<noteq> ''PBR''"
    using show_pos [OF assms] by auto
  then show "''WAN_PBR'' \<noteq> wan_chain u"
    by (simp add: wan_chain_def not_sym)
qed (simp_all add: wan_chain_def)

lemmas wan_chain_other_sym [simp] = wan_chain_other [THEN not_sym]

lemma wan_chain_inj: "1 \<le> u \<Longrightarrow> 1 \<le> v \<Longrightarrow> wan_chain u = wan_chain v \<longleftrightarrow> u = v"
  by (auto simp: wan_chain_def show_int_def)

subsection \<open>What the chains hold\<close>

text \<open>
  The lines of a rule, given the text that stands for the source when the type of the source gives none.  A rule that
  counts but has such a type is \<open>unrestricted\<close>: it is meant for all sources, that is for the empty text.
\<close>

definition policy_lines :: "(string \<Rightarrow> (family \<times> u32 option) list option) \<Rightarrow> int \<Rightarrow> string \<Rightarrow> string \<Rightarrow> ipt_line list" where
  "policy_lines resolve n m b =
     (case vstrsep b (CHR ''<'') 10 of
        [active, proto, srt_type, srt_addr, srt_port, dst_type, dst_addr, dst_port, wanx, desc] \<Rightarrow>
          if hd0 active = CHR ''1'' \<and> 1 \<le> atoi wanx \<and> atoi wanx \<le> n then
            concat (map (pbr_lines proto srt_port dst_port (pbr_src srt_type srt_addr m) (wan_chain (atoi wanx)))
              (pbr_dsts resolve dst_type dst_addr))
          else []
      | _ \<Rightarrow> [])"

definition unrestricted :: "string \<Rightarrow> bool" where
  "unrestricted b \<longleftrightarrow>
     (case vstrsep b (CHR ''<'') 10 of
        [active, proto, srt_type, srt_addr, srt_port, dst_type, dst_addr, dst_port, wanx, desc] \<Rightarrow>
          hd0 active = CHR ''1'' \<and> atoi srt_type \<noteq> 1 \<and> atoi srt_type \<noteq> 2
      | _ \<Rightarrow> False)"

lemma policy_cases:
  obtains (fields) a p t s sp dt d dp w x where "vstrsep b (CHR ''<'') 10 = [a, p, t, s, sp, dt, d, dp, w, x]"
  | (short) "policy_lines resolve n m b = []" "pbr_rule resolve n st b = st"
proof (cases "\<exists>a p t s sp dt d dp w x. vstrsep b (CHR ''<'') 10 = [a, p, t, s, sp, dt, d, dp, w, x]")
  case True
  then show ?thesis using fields by blast
next
  case False
  then show ?thesis
    by (intro short) (auto simp: pbr_rule_def policy_lines_def split: list.split)
qed

lemma pbr_rule_out:
  assumes "n \<le> MWAN_MAX"
  shows "out4 (snd (pbr_rule resolve n st b)) = out4 (snd st) @ policy_lines resolve n (fst st) b"
proof (cases rule: policy_cases [where resolve = resolve and n = n and b = b and m = "fst st" and st = st])
  case (fields a p t s sp dt d dp w x)
  show ?thesis
  proof (cases "hd0 a = CHR ''1'' \<and> 1 \<le> atoi w \<and> atoi w \<le> n")
    case True
    moreover have "strlcpy (wan_chain (atoi w)) 16 = wan_chain (atoi w)"
      using True assms(1) by (intro wan_chain_fits) auto
    ultimately show ?thesis
      using fields by (simp add: pbr_rule_def policy_lines_def Let_def out4_foldl [OF out4_write_all])
  next
    case False
    then show ?thesis using fields by (auto simp: pbr_rule_def policy_lines_def Let_def)
  qed
qed simp

lemma policy_lines_restricted: "\<not> unrestricted b \<Longrightarrow> policy_lines resolve n m b = policy_lines resolve n [] b"
  by (cases rule: policy_cases [where resolve = resolve and n = n and b = b and m = "m" and st = undefined])
    (auto simp: policy_lines_def unrestricted_def pbr_src_def split: list.split)

text \<open>All lines of the rules end with a jump to the chain of a unit.\<close>

lemma pbr_lines_jump: "l \<in> set (pbr_lines p sp dp m j d) \<Longrightarrow> \<exists>t. l = Append ''WAN_PBR'' (t @ '' -j '' @ j)"
  unfolding pbr_lines_def Let_def
  by (auto split: if_splits)

definition jump_line :: "int \<Rightarrow> ipt_line \<Rightarrow> bool" where
  "jump_line n l \<longleftrightarrow> (\<exists>t u. 1 \<le> u \<and> u \<le> n \<and> l = Append ''WAN_PBR'' (t @ '' -j '' @ wan_chain u))"

lemma policy_lines_jump: "l \<in> set (policy_lines resolve n m b) \<Longrightarrow> jump_line n l"
proof (cases rule: policy_cases [where resolve = resolve and n = n and b = b and m = "m" and st = undefined])
  case (fields a p t s sp dt d dp w x)
  moreover assume "l \<in> set (policy_lines resolve n m b)"
  ultimately obtain y where
      "1 \<le> atoi w" "atoi w \<le> n" "l \<in> set (pbr_lines p sp dp (pbr_src t s m) (wan_chain (atoi w)) y)"
    by (auto simp: policy_lines_def split: if_splits)
  then show ?thesis
    unfolding jump_line_def using pbr_lines_jump by blast
qed simp

lemma pbr_rules_jump:
  assumes "n \<le> MWAN_MAX"
  shows "\<exists>ls. out4 (snd (foldl (pbr_rule resolve n) st bs)) = out4 (snd st) @ ls \<and> (\<forall>l \<in> set ls. jump_line n l)"
proof (induction bs arbitrary: st)
  case Nil
  then show ?case by simp
next
  case (Cons b bs)
  from Cons [of "pbr_rule resolve n st b"] obtain ls where
      "out4 (snd (foldl (pbr_rule resolve n) st (b # bs))) = out4 (snd st) @ policy_lines resolve n (fst st) b @ ls"
      "\<forall>l \<in> set ls. jump_line n l"
    by (auto simp: pbr_rule_out [OF assms])
  then show ?case
    using policy_lines_jump by (metis Un_iff set_append)
qed

lemma pbr_rules_restricted:
  assumes "n \<le> MWAN_MAX" "\<forall>b \<in> set bs. \<not> unrestricted b"
  shows "out4 (snd (foldl (pbr_rule resolve n) st bs)) = out4 (snd st) @ concat (map (policy_lines resolve n []) bs)"
  using assms(2)
proof (induction bs arbitrary: st)
  case (Cons b bs)
  then show ?case
    using policy_lines_restricted [of b resolve n "fst st"] by (simp add: pbr_rule_out [OF assms(1)])
qed simp

lemma jump_chain_rules:
  assumes "1 \<le> u" "\<forall>l \<in> set ls. jump_line n l"
  shows "chain_rules (wan_chain u) ls = []" "declared_chains ls = []"
proof -
  have "chain_rules (wan_chain u) ls = [] \<and> declared_chains ls = []"
    using assms(2)
  proof (induction ls)
    case (Cons l ls)
    then obtain t where "l = Append ''WAN_PBR'' t"
      by (auto simp: jump_line_def)
    with Cons show ?case using assms(1) by simp
  qed simp
  then show "chain_rules (wan_chain u) ls = []" "declared_chains ls = []" by simp_all
qed

lemma unit_chain_rules:
  assumes "1 \<le> u" "1 \<le> v"
  shows "chain_rules (wan_chain u) (unit_chain nv up v) =
    (if v = u \<and> up (get_wan_prefix u) then [set_mark_text u, restore_mark_text] else [])"
  using assms by (auto simp: unit_chain_def Let_def wan_chain_inj)

lemma concat_only:
  assumes "u \<in> set xs" "distinct xs" "\<forall>x \<in> set xs. f x = (if x = u then y else [])"
  shows "concat (map f xs) = y"
proof -
  obtain as bs where "xs = as @ u # bs" "u \<notin> set as" "u \<notin> set bs"
    using assms(1,2) by (metis split_list distinct.simps(2) distinct_append disjoint_insert(1) list.simps(15))
  moreover from this have "concat (map f as) = []" "concat (map f bs) = []" "f u = y"
    using assms(3) by auto
  ultimately show ?thesis
    by (simp only: map_append list.map concat_append concat.simps append_Nil append_Nil2)
qed

lemma units_chain_rules:
  assumes "1 \<le> u" "u \<le> n"
  shows "chain_rules (wan_chain u) (concat (map (unit_chain nv up) [1..n])) =
    (if up (get_wan_prefix u) then [set_mark_text u, restore_mark_text] else [])"
proof -
  have "chain_rules c (concat xss) = concat (map (chain_rules c) xss)" for c xss
    by (induction xss) simp_all
  moreover have "concat (map (\<lambda>v. chain_rules (wan_chain u) (unit_chain nv up v)) [1..n]) =
      (if up (get_wan_prefix u) then [set_mark_text u, restore_mark_text] else [])"
    using assms unit_chain_rules [of u _ nv up] by (intro concat_only [of u]) auto
  ultimately show ?thesis by (simp add: o_def)
qed

lemma jump_lines_text:
  "\<forall>l \<in> set ls. jump_line n l \<Longrightarrow>
    \<exists>rs. ls = map (Append ''WAN_PBR'') rs \<and> (\<forall>t \<in> set rs. \<exists>s. \<exists>u \<in> set [1..n]. t = s @ '' -j '' @ wan_chain u)"
proof (induction ls)
  case (Cons l ls)
  then obtain rs where "ls = map (Append ''WAN_PBR'') rs" "\<forall>t \<in> set rs. \<exists>s. \<exists>u \<in> set [1..n]. t = s @ '' -j '' @ wan_chain u"
    by auto
  moreover obtain s u where "u \<in> set [1..n]" "l = Append ''WAN_PBR'' (s @ '' -j '' @ wan_chain u)"
    using Cons(2) by (auto simp: jump_line_def)
  ultimately have "\<forall>t \<in> set ((s @ '' -j '' @ wan_chain u) # rs). \<exists>s. \<exists>u \<in> set [1..n]. t = s @ '' -j '' @ wan_chain u"
    "l # ls = map (Append ''WAN_PBR'') ((s @ '' -j '' @ wan_chain u) # rs)"
    by (metis set_ConsD, simp)
  then show ?case
    by (intro exI [of _ "(s @ '' -j '' @ wan_chain u) # rs"] conjI)
qed simp

lemma units_declared: "declared_chains (concat (map (unit_chain nv up) us)) = map wan_chain us"
  by (induction us) (simp_all add: unit_chain_def Let_def)

text \<open>The lines before the rules.\<close>

definition policy_frame :: "nvram \<Rightarrow> (string \<Rightarrow> bool) \<Rightarrow> ipt_line list" where
  "policy_frame nv up = concat (map (unit_chain nv up) [1..mwan_active_num nv]) @ pbr_head"

lemma routerpolicy_out:
  assumes "1 < mwan_active_num (fw_nv e)"
  shows "out4 (ipt_routerpolicy e sy garbage resolve m f) =
    out4 (snd (foldl (pbr_rule resolve (mwan_active_num (fw_nv e)))
      (m, foldl (\<lambda>f l. ipt_write l f) f (policy_frame (fw_nv e) (wan_up (fw_nv e) sy garbage)))
      (split_on (CHR ''>'') (nvram_safe_get (fw_nv e) ''pbr_rules''))))"
proof -
  have "foldl (\<lambda>f u. foldl (\<lambda>f l. ipt_write l f) f (g u)) f us = foldl (\<lambda>f l. ipt_write l f) f (concat (map g us))" for g f and us :: "int list"
    by (induction us arbitrary: f) simp_all
  then show ?thesis
    using assms by (simp add: ipt_routerpolicy_def policy_frame_def Let_def)
qed

lemma policy_frame_chains:
  "declared_chains (policy_frame nv up) = map wan_chain [1..mwan_active_num nv] @ [''WAN_PBR'']"
  by (simp add: policy_frame_def units_declared pbr_head_def)

lemma policy_frame_unit:
  "1 \<le> u \<Longrightarrow> u \<le> mwan_active_num nv \<Longrightarrow>
    chain_rules (wan_chain u) (policy_frame nv up) =
      (if up (get_wan_prefix u) then [set_mark_text u, restore_mark_text] else [])"
  by (simp add: policy_frame_def units_chain_rules pbr_head_def)

lemma unit_chain_pbr: "1 \<le> v \<Longrightarrow> chain_rules ''WAN_PBR'' (unit_chain nv up v) = []"
  by (simp add: unit_chain_def Let_def)

lemma policy_frame_pbr:
  "chain_rules ''WAN_PBR'' (policy_frame nv up) = [''-m state --state RELATED,ESTABLISHED -j RETURN'']"
proof -
  have "chain_rules ''WAN_PBR'' (concat (map (unit_chain nv up) us)) = []" if "\<forall>u \<in> set us. 1 \<le> u" for us
    using that by (induction us) (simp_all add: unit_chain_pbr)
  then show ?thesis
    by (simp add: policy_frame_def pbr_head_def)
qed

lemma distinct_chains: "distinct (map wan_chain [1..n] @ [''WAN_PBR''])"
  by (auto simp: distinct_map inj_on_def wan_chain_inj)

text \<open>
  C5: Let several WAN units be in use and let every active rule name its source.  Then the lines written for routing by
  policy declare the chain of every unit and the chain of the rules, each once; the chain of a unit marks new
  connections exactly when the unit is up; and the chain of the rules lets known connections pass and then has for
  each rule, in their order, the lines that this rule alone asks for, each of which jumps to a chain that is declared.
\<close>

theorem policy_rules_correct:
  assumes "1 < mwan_active_num (fw_nv e)"
    "\<forall>b \<in> set (split_on (CHR ''>'') (nvram_safe_get (fw_nv e) ''pbr_rules'')). \<not> unrestricted b"
  shows "\<exists>ls. out4 (ipt_routerpolicy e sy garbage resolve m f) = out4 f @ ls \<and>
    declared_chains ls = map wan_chain [1..mwan_active_num (fw_nv e)] @ [''WAN_PBR''] \<and> distinct (declared_chains ls) \<and>
    (\<forall>u. 1 \<le> u \<and> u \<le> mwan_active_num (fw_nv e) \<longrightarrow>
      chain_rules (wan_chain u) ls =
        (if check_wanup (fw_nv e) sy (garbage (get_wan_prefix u)) (get_wan_prefix u) \<noteq> 0
         then [set_mark_text u, restore_mark_text] else [])) \<and>
    (\<exists>rs. chain_rules ''WAN_PBR'' ls = ''-m state --state RELATED,ESTABLISHED -j RETURN'' # rs \<and>
      map (Append ''WAN_PBR'') rs = concat (map (policy_lines resolve (mwan_active_num (fw_nv e)) [])
        (split_on (CHR ''>'') (nvram_safe_get (fw_nv e) ''pbr_rules''))) \<and>
      (\<forall>t \<in> set rs. \<exists>s. \<exists>u \<in> set [1..mwan_active_num (fw_nv e)]. t = s @ '' -j '' @ wan_chain u))"
proof -
  let ?n = "mwan_active_num (fw_nv e)" and ?bs = "split_on (CHR ''>'') (nvram_safe_get (fw_nv e) ''pbr_rules'')"
  let ?ps = "concat (map (policy_lines resolve ?n []) ?bs)" and ?fr = "policy_frame (fw_nv e) (wan_up (fw_nv e) sy garbage)"
  have o: "out4 (ipt_routerpolicy e sy garbage resolve m f) = out4 f @ ?fr @ ?ps"
    using pbr_rules_restricted [OF active_num_bound assms(2)] by (simp add: routerpolicy_out [OF assms(1)])
  have j: "\<forall>l \<in> set ?ps. jump_line ?n l"
    using policy_lines_jump by auto
  have "\<exists>rs. ?ps = map (Append ''WAN_PBR'') rs \<and> (\<forall>t \<in> set rs. \<exists>s. \<exists>u \<in> set [1..?n]. t = s @ '' -j '' @ wan_chain u)"
    using jump_lines_text [OF j] by simp
  then obtain rs where rs: "?ps = map (Append ''WAN_PBR'') rs" "\<forall>t \<in> set rs. \<exists>s. \<exists>u \<in> set [1..?n]. t = s @ '' -j '' @ wan_chain u"
    by blast
  have "chain_rules ''WAN_PBR'' (map (Append ''WAN_PBR'') rs) = rs" for rs
    by (induction rs) simp_all
  then have "chain_rules ''WAN_PBR'' (?fr @ ?ps) = ''-m state --state RELATED,ESTABLISHED -j RETURN'' # rs"
    by (simp add: policy_frame_pbr rs(1) del: map_concat)
  moreover have "declared_chains (?fr @ ?ps) = map wan_chain [1..?n] @ [''WAN_PBR'']"
    using jump_chain_rules(2) [OF _ j, of 1] by (simp add: policy_frame_chains)
  moreover have "\<forall>u. 1 \<le> u \<and> u \<le> ?n \<longrightarrow> chain_rules (wan_chain u) (?fr @ ?ps) =
        (if check_wanup (fw_nv e) sy (garbage (get_wan_prefix u)) (get_wan_prefix u) \<noteq> 0 then [set_mark_text u, restore_mark_text] else [])"
    using jump_chain_rules(1) [OF _ j] by (simp add: policy_frame_unit wan_up_def)
  ultimately show ?thesis
    using o rs distinct_chains by (intro exI [of _ "?fr @ ?ps"]) (metis (no_types, lifting))
qed

text \<open>An example: two units, and a rule that sends one computer over the second.\<close>

definition two_units :: nvram where
  "two_units =
     [''mwan_num'' \<mapsto> ''2'', ''wan_proto'' \<mapsto> ''dhcp'', ''wan2_proto'' \<mapsto> ''dhcp'',
      ''pbr_rules'' \<mapsto> ''1<6<1<192.168.1.5<<1<10.0.0.1<443<2<www'']"

definition pbr_env :: "nvram \<Rightarrow> fwenv" where
  "pbr_env nv =
     \<lparr>ipv6_enabled = False, wan6face = [], wanfaces = [], chain_in_accept = [], chain_out_drop = [], chain_out_reject = [],
      ndpi_tab = None, getaddrinfo = (\<lambda>_ _. None), fw_nv = nv\<rparr>"

lemma two_units_num: "mwan_active_num (fw_nv (pbr_env two_units)) = 2"
  by code_simp

theorem policy_rules_correct_witness:
  "\<forall>sy garbage resolve m f. \<exists>ls. out4 (ipt_routerpolicy (pbr_env two_units) sy garbage resolve m f) = out4 f @ ls \<and>
    declared_chains ls = [''WAN_1'', ''WAN_2'', ''WAN_PBR'']"
proof (intro allI)
  fix sy garbage resolve m f
  have "\<forall>b \<in> set (split_on (CHR ''>'') (nvram_safe_get (fw_nv (pbr_env two_units)) ''pbr_rules'')). \<not> unrestricted b"
    by code_simp
  moreover have "map wan_chain [1..2] = [''WAN_1'', ''WAN_2'']"
    by code_simp
  ultimately show "\<exists>ls. out4 (ipt_routerpolicy (pbr_env two_units) sy garbage resolve m f) = out4 f @ ls \<and>
      declared_chains ls = [''WAN_1'', ''WAN_2'', ''WAN_PBR'']"
    using policy_rules_correct [of "pbr_env two_units" sy garbage resolve m f] by (auto simp: two_units_num)
qed

text \<open>The rules that a sequence of actions appends to the chain of a unit after emptying it.\<close>

definition appended :: "int \<Rightarrow> act list \<Rightarrow> string list" where
  "appended u as =
     concat (map (\<lambda>a. case a of
         Eval c \<Rightarrow> if take 5 (argv c) = [''iptables'', ''-t'', ''mangle'', ''-A'', wan_chain u] then [joined '' '' (drop 5 (argv c))] else []
       | _ \<Rightarrow> []) as)"

text \<open>
  C39: An update of the chain of a unit empties it and then appends exactly the rules that the chain has when the whole
  firewall is built in the same state of the unit, whatever rules are configured.
\<close>

theorem pbr_update_agrees:
  assumes "1 < mwan_active_num (fw_nv e)" "1 \<le> u" "u \<le> mwan_active_num (fw_nv e)" "ok (Flush u)"
  shows "\<exists>ls bs. out4 (ipt_routerpolicy e sy garbage resolve m f) = out4 f @ ls \<and>
    mwan_pbr_update ok u (wan_up (fw_nv e) sy garbage (get_wan_prefix u)) = [Lock ''firewall'', Eval (Flush u)] @ bs \<and>
    appended u bs = chain_rules (wan_chain u) ls"
proof -
  let ?n = "mwan_active_num (fw_nv e)" and ?up = "wan_up (fw_nv e) sy garbage"
  obtain ps where ps: "out4 (ipt_routerpolicy e sy garbage resolve m f) = out4 f @ policy_frame (fw_nv e) ?up @ ps"
      "\<forall>l \<in> set ps. jump_line ?n l"
    using pbr_rules_jump [OF active_num_bound [of "fw_nv e"], of resolve "(m, foldl (\<lambda>f l. ipt_write l f) f (policy_frame (fw_nv e) ?up))"
      "split_on (CHR ''>'') (nvram_safe_get (fw_nv e) ''pbr_rules'')"]
    by (auto simp: routerpolicy_out [OF assms(1)])
  let ?bs = "(if ?up (get_wan_prefix u) then [Eval (SetMark u), Eval (RestoreMark u)] else []) @ [Unlock ''firewall'']"
  have "mwan_pbr_update ok u (?up (get_wan_prefix u)) = [Lock ''firewall'', Eval (Flush u)] @ ?bs"
    using assms active_num_bound [of "fw_nv e"] by (auto simp: mwan_pbr_update_def)
  moreover have "appended u ?bs = chain_rules (wan_chain u) (policy_frame (fw_nv e) ?up @ ps)"
    using jump_chain_rules(1) [OF assms(2) ps(2)] assms(2,3)
    by (simp add: policy_frame_unit appended_def set_mark_text_def restore_mark_text_def mark_text_def)
  ultimately show ?thesis using ps(1) by blast
qed

theorem pbr_update_agrees_witness:
  "\<forall>sy garbage resolve m f. \<exists>ls bs. out4 (ipt_routerpolicy (pbr_env two_units) sy garbage resolve m f) = out4 f @ ls \<and>
    mwan_pbr_update (\<lambda>_. True) 2 (wan_up two_units sy garbage ''wan2'') = [Lock ''firewall'', Eval (Flush 2)] @ bs \<and>
    appended 2 bs = chain_rules (wan_chain 2) ls"
  using pbr_update_agrees [of "pbr_env two_units" 2 "\<lambda>_. True"] two_units_num
  by (simp add: get_wan_prefix_values) (simp add: pbr_env_def)

text \<open>
  A rule for all sources does not reset the match of the source: it takes over that of the rule before it, and the
  first rule takes what the buffer happens to hold.
\<close>

lemma all_sources_stale:
  "out4 (snd (pbr_rule resolve 2 (m, f) ''1<-2<0<<<1<10.0.0.1<<2<all'')) =
     out4 f @ [Append ''WAN_PBR'' (m @ '' -d 10.0.0.1 -j WAN_2'')]"
  "fst (pbr_rule resolve 2 (m, f) ''1<6<1<192.168.1.5<<1<10.0.0.1<443<2<www'') = ''-s 192.168.1.5''"
proof -
  have "vstrsep ''1<-2<0<<<1<10.0.0.1<<2<all'' (CHR ''<'') 10 = [''1'', ''-2'', ''0'', [], [], ''1'', ''10.0.0.1'', [], ''2'', ''all'']"
    "vstrsep ''1<6<1<192.168.1.5<<1<10.0.0.1<443<2<www'' (CHR ''<'') 10 =
      [''1'', ''6'', ''1'', ''192.168.1.5'', [], ''1'', ''10.0.0.1'', ''443'', ''2'', ''www'']"
    by code_simp+
  moreover have "atoi ''-2'' = - 2" "atoi ''0'' = 0" "atoi ''1'' = 1" "atoi ''2'' = 2" "strlcpy (wan_chain 2) 16 = ''WAN_2''"
    by code_simp+
  ultimately show "out4 (snd (pbr_rule resolve 2 (m, f) ''1<-2<0<<<1<10.0.0.1<<2<all'')) =
     out4 f @ [Append ''WAN_PBR'' (m @ '' -d 10.0.0.1 -j WAN_2'')]"
    "fst (pbr_rule resolve 2 (m, f) ''1<6<1<192.168.1.5<<1<10.0.0.1<443<2<www'') = ''-s 192.168.1.5''"
    by (simp_all add: pbr_rule_def pbr_src_def pbr_dsts_def pbr_lines_def Let_def strlcpy_def)
qed

end
