(* ===== verification/Mwan.thy ===== *)
theory Mwan
  imports Pbr
begin

section \<open>Several WAN units\<close>

text \<open>
  \<^verbatim>\<open>rc/mwan.c\<close>: the state of every unit (down, standby, routing), the default route that balances the load, the
  policy tables of the units, and the program \<^verbatim>\<open>mwanroute\<close> that looks every 15 seconds for changes.  What a
  function reads from outside is a snapshot: the variables, the state of the system and what memory holds that is not
  initialised.  The functions read it several times while they run programs, so that \<^verbatim>\<open>mwan_load_balance\<close> and a
  pass of the main loop take one snapshot for each of their parts.  The programs that they run are collected in order.
  Log messages are left out, with \<^verbatim>\<open>mwan_eval\<close>, which only logs and runs.  The structure
  \<^verbatim>\<open>wan_info\<close> is filled before every use and so is a value here.
\<close>

record snap =
  m_nv :: nvram
  m_sys :: sys
  m_flags :: "string \<Rightarrow> bool \<times> bool"
  m_raw :: "u32 \<times> u32"

abbreviation unit_up :: "snap \<Rightarrow> int \<Rightarrow> bool" where
  "unit_up e u \<equiv> wan_up (m_nv e) (m_sys e) (m_flags e) (get_wan_prefix u)"

definition BRIDGE_COUNT :: nat where "BRIDGE_COUNT = 8"

text \<open>The text for the log, built argument by argument in a buffer.\<close>

fun argv_loop :: "bool \<Rightarrow> string list \<Rightarrow> string \<Rightarrow> nat \<Rightarrow> string" where
  "argv_loop first [] cmd sz = cmd"
| "argv_loop first (a # as) cmd sz =
     (let rem = sz - length cmd
      in if rem \<le> 1 then cmd
         else
           let t = (if first then [] else '' '') @ a
           in if rem \<le> length t then cmd @ take (rem - 1) t else argv_loop False as (cmd @ t) sz)"

definition mwan_argv_to_cmd :: "string list \<Rightarrow> nat \<Rightarrow> string" where
  "mwan_argv_to_cmd as sz = argv_loop True as [] sz"

subsection \<open>What is known about a unit\<close>

record waninfo =
  wan_name :: string
  wan_ipaddr :: string
  wan_netmask :: string
  wan_gateway_ip :: string
  wan_dns :: "(u32 \<times> nat) list"
  wan_weight :: int

definition get_sta_wan_prefix :: "nvram \<Rightarrow> bool \<times> string" where
  "get_sta_wan_prefix nv =
     (case find (\<lambda>u. wan_nvram_get nv u ''sta'' \<noteq> []) [1..mwan_active_num nv] of
        None \<Rightarrow> (False, ''wan'')
      | Some u \<Rightarrow> (True, get_wan_prefix u))"

definition wan_gateway :: "nvram \<Rightarrow> string \<Rightarrow> string" where
  "wan_gateway nv pre =
     (let gw = prefix_nvram_get nv pre ''gateway_get''
      in if gw = [] \<or> gw = ''0.0.0.0'' then prefix_nvram_get nv pre ''gateway'' else gw)"

definition get_wan_info :: "nvram \<Rightarrow> string \<Rightarrow> waninfo" where
  "get_wan_info nv pre =
     (let proto = get_wanx_proto nv pre;
          ppp = proto = WP_L2TP \<or> proto = WP_PPTP \<or> proto = WP_PPPOE \<and> using_dhcpc nv pre \<noteq> 0
      in \<lparr>wan_name = strlcpy (get_wanface nv pre) 16,
          wan_ipaddr = strlcpy (prefix_nvram_get nv pre (if ppp then ''ppp_get_ip'' else ''ipaddr'')) 32,
          wan_netmask =
            strlcpy (if proto = WP_L2TP \<or> proto = WP_PPTP \<or> proto = WP_PPPOE \<or> proto = WP_PPP3G then ''255.255.255.255''
                     else prefix_nvram_get nv pre ''netmask'') 32,
          wan_gateway_ip = strlcpy (wan_gateway nv pre) 32,
          wan_dns = get_dns nv pre,
          wan_weight = atoi (prefix_nvram_get nv pre ''weight'')\<rparr>)"

definition direct_proto :: "wan_proto \<Rightarrow> bool" where
  "direct_proto proto \<longleftrightarrow> proto = WP_DHCP \<or> proto = WP_LTE \<or> proto = WP_STATIC"

definition get_wan_ip :: "wan_proto \<Rightarrow> waninfo \<Rightarrow> nat \<Rightarrow> string" where
  "get_wan_ip proto info sz = strlcpy (if direct_proto proto then wan_gateway_ip info else wan_ipaddr info) sz"

text \<open>
  \<^verbatim>\<open>inet_aton\<close> of the C library: up to four numbers in decimal, octal or hexadecimal, the last of which fills
  the bytes that are left.
\<close>

definition aton_num :: "string \<Rightarrow> (nat \<times> string) option" where
  "aton_num s =
     (if \<not> isdigit (hd0 s) then None
      else if hd0 s = CHR ''0'' \<and> (hd0 (tl s) = CHR ''x'' \<or> hd0 (tl s) = CHR ''X'') \<and> isxdigit (hd0 (drop 2 s)) then
        let ds = takeWhile isxdigit (drop 2 s) in Some (xdigits_value ds, drop (2 + length ds) s)
      else if hd0 s = CHR ''0'' then
        let ds = takeWhile (\<lambda>c. isdigit c \<and> c \<noteq> CHR ''8'' \<and> c \<noteq> CHR ''9'') s
        in Some (foldl (\<lambda>a c. a * 8 + (of_char c - 48)) 0 ds, drop (length ds) s)
      else let ds = takeWhile isdigit s in Some (digits_value ds, drop (length ds) s))"

fun aton_parts :: "nat \<Rightarrow> string \<Rightarrow> nat list option" where
  "aton_parts n s =
     (case aton_num s of
        None \<Rightarrow> None
      | Some (v, r) \<Rightarrow>
          if r = [] then Some [v]
          else if hd0 r \<noteq> CHR ''.'' then None
          else case n of 0 \<Rightarrow> None | Suc m \<Rightarrow> map_option (Cons v) (aton_parts m (tl r)))"

declare aton_parts.simps [simp del]

definition inet_aton :: "string \<Rightarrow> u32 option" where
  "inet_aton s =
     (case aton_parts 3 s of
        None \<Rightarrow> None
      | Some ps \<Rightarrow>
          if list_all (\<lambda>p. p \<le> 255) (butlast ps) \<and> last ps < 256 ^ (5 - length ps) then
            Some (of_nat (foldl (\<lambda>a p. a * 256 + p) 0 (butlast ps) * 256 ^ (5 - length ps) + last ps))
          else None)"

text \<open>Addresses are kept with the first number as the highest byte; the loop and the conjunction do not depend on that.\<close>

fun cidr_bits :: "nat \<Rightarrow> u32 \<Rightarrow> u64 \<Rightarrow> nat" where
  "cidr_bits 0 m bits = 0"
| "cidr_bits (Suc n) m bits = (if (ucast m :: u64) AND bits \<noteq> 0 then 1 else 0) + cidr_bits n m (push_bit 1 bits)"

definition get_cidr :: "u32 \<times> u32 \<Rightarrow> string \<Rightarrow> string \<Rightarrow> nat \<Rightarrow> string" where
  "get_cidr raw ipaddr netmask sz =
     (let ip = (case inet_aton ipaddr of None \<Rightarrow> fst raw | Some a \<Rightarrow> a);
          m = (case inet_aton netmask of None \<Rightarrow> snd raw | Some a \<Rightarrow> a)
      in strlcpy (inet_ntoa (ip AND m) @ ''/'' @ show_nat (cidr_bits 63 m 1)) sz)"

subsection \<open>The tables of a unit\<close>

definition mwan_table_del :: "nvram \<Rightarrow> string \<Rightarrow> act list" where
  "mwan_table_del nv pre =
     (let u = get_wan_unit pre; info = get_wan_info nv pre
      in [Eval (RuleDel u FROM)] @ replicate (length (wan_dns info)) (Eval (RuleDel u TO)) @ [Eval (RuleDel u FWMARK)])"

definition lan_routes :: "snap \<Rightarrow> int \<Rightarrow> act list" where
  "lan_routes e u =
     concat (map (\<lambda>i.
         let lan_ifname = bridge_nvram_get (m_nv e) i ''ifname'';
             lan_ipaddr = bridge_nvram_get (m_nv e) i ''ipaddr'';
             lan_netmask = bridge_nvram_get (m_nv e) i ''netmask''
         in if lan_ifname = [] \<or> lan_ipaddr = [] \<or> lan_netmask = [] then []
            else [Eval (RouteLan (get_cidr (m_raw e) lan_ipaddr lan_netmask 32) lan_ifname lan_ipaddr u)])
       [0..<BRIDGE_COUNT])"

definition mwan_table_add :: "snap \<Rightarrow> string \<Rightarrow> act list" where
  "mwan_table_add e pre =
     (let nv = m_nv e; del = mwan_table_del nv pre; mwan_num = mwan_active_num nv
      in if mwan_num \<le> 1 then del
         else
           let u = get_wan_unit pre; info = get_wan_info nv pre; proto = get_wanx_proto nv pre
           in if \<not> wan_up nv (m_sys e) (m_flags e) pre then del
              else
                del @ [Eval (RuleAdd u FROM (wan_ipaddr info))] @
                map (\<lambda>d. Eval (RuleAdd u TO (inet_ntoa (fst d)))) (wan_dns info) @
                [Eval (RuleAdd u FWMARK (strlcpy (mark_text u) 16))] @
                map (\<lambda>wanid.
                    let route_dst = (if direct_proto proto then get_cidr (m_raw e) (wan_ipaddr info) (wan_netmask info) 32
                                     else wan_gateway_ip info)
                    in Eval (RouteLink route_dst (wan_name info) (wan_ipaddr info) wanid)) [1..mwan_num] @
                lan_routes e u @
                [Eval (RouteLo u), Eval (RouteDefault (get_wan_ip proto info 32) (wan_name info) u)])"

text \<open>The state files of the units; without a file to write to the program would follow a null pointer.\<close>

fun state_files_loop :: "nvram \<Rightarrow> (string \<Rightarrow> bool) \<Rightarrow> int list \<Rightarrow> (string \<rightharpoonup> string) \<Rightarrow> (string \<rightharpoonup> string) option" where
  "state_files_loop nv can_write [] fs = Some fs"
| "state_files_loop nv can_write (u # us) fs =
     (let f = strlcpy (''/var/lib/misc/'' @ get_wan_prefix u @ ''_state'') 64
      in if fs f \<noteq> None then state_files_loop nv can_write us fs
         else if \<not> can_write f then None
         else state_files_loop nv can_write us
                (fs(f \<mapsto> (if nvram_get_int nv ''mwan_state_init'' \<noteq> 0 then ''1'' @ [CHR 10] else ''0'' @ [CHR 10]))))"

definition mwan_state_files :: "nvram \<Rightarrow> (string \<Rightarrow> bool) \<Rightarrow> (string \<rightharpoonup> string) \<Rightarrow> (string \<rightharpoonup> string) option" where
  "mwan_state_files nv can_write fs =
     (if mwan_active_num nv \<le> 1 then Some fs else state_files_loop nv can_write [1..mwan_active_num nv] fs)"

subsection \<open>The state of the units\<close>

definition set_status :: "int \<Rightarrow> char \<Rightarrow> string \<Rightarrow> string" where
  "set_status u c s = s[nat (u - 1) := c]"

definition status :: "string \<Rightarrow> int \<Rightarrow> char" where
  "status s u = s ! nat (u - 1)"

definition link_status :: "snap \<Rightarrow> string \<Rightarrow> int \<Rightarrow> string" where
  "link_status e cur u =
     set_status u
       (if unit_up e u then
          if 0 < wan_weight (get_wan_info (m_nv e) (get_wan_prefix u)) then CHR ''2'' else CHR ''1''
        else CHR ''0'') cur"

definition failover_status :: "snap \<Rightarrow> string \<Rightarrow> int \<Rightarrow> string" where
  "failover_status e cur u =
     (if status cur u = CHR ''1'' \<and> wan_weight (get_wan_info (m_nv e) (get_wan_prefix u)) = 0
      then set_status u (CHR ''2'') cur else cur)"

definition mwan_status_update :: "snap \<Rightarrow> string" where
  "mwan_status_update e =
     (let mwan_num = mwan_active_num (m_nv e); cur = replicate (nat MWAN_MAX) (CHR ''0'')
      in if mwan_num \<le> 1 then cur
         else
           let cur = foldl (link_status e) cur [1..mwan_num];
               allwan_down = list_all (\<lambda>u. (of_char (status cur u) :: nat) < of_char (CHR ''2'')) [1..mwan_num]
           in if allwan_down then foldl (failover_status e) cur [1..mwan_num] else cur)"

subsection \<open>The default route\<close>

definition balance_hop :: "snap \<Rightarrow> string \<Rightarrow> int \<Rightarrow> (string \<times> string \<times> int) list" where
  "balance_hop e cur u =
     (let pre = get_wan_prefix u; info = get_wan_info (m_nv e) pre; buf = get_wan_ip (get_wanx_proto (m_nv e) pre) info 32
      in if unit_up e u \<and> status cur u = CHR ''2'' then
           [(buf, wan_name info, if wan_weight info = 0 then 1 else wan_weight info)]
         else [])"

definition default_del :: "snap \<Rightarrow> int \<Rightarrow> act list" where
  "default_del e u =
     (let pre = get_wan_prefix u; info = get_wan_info (m_nv e) pre
      in if wan_name info \<noteq> ''none'' then [Eval (RouteDel (get_wan_ip (get_wanx_proto (m_nv e) pre) info 32) (wan_name info))] else [])"

text \<open>The unit of the route for emergencies: the first one, or a later one with a higher weight.\<close>

fun wan_default_loop :: "nvram \<Rightarrow> int list \<Rightarrow> int \<times> int \<Rightarrow> int \<times> int" where
  "wan_default_loop nv [] dw = dw"
| "wan_default_loop nv (u # us) (d, w) =
     (let wt = wan_weight (get_wan_info nv (get_wan_prefix u))
      in wan_default_loop nv us (if u = 1 then (d, wt) else if w < wt then (u, wt) else (d, w)))"

definition emergency_hop :: "nvram \<Rightarrow> int \<Rightarrow> string \<times> string \<times> int" where
  "emergency_hop nv mwan_num =
     (let pre = get_wan_prefix (fst (wan_default_loop nv [1..mwan_num] (1, 0))); info = get_wan_info nv pre
      in (get_wan_ip (get_wanx_proto nv pre) info 32, wan_name info, wan_weight info))"

text \<open>
  The new state of the units and the programs run; the first snapshot is for the state, the second for the rest.
\<close>

definition mwan_load_balance :: "snap \<Rightarrow> snap \<Rightarrow> string \<Rightarrow> string \<times> act list" where
  "mwan_load_balance e e' cur =
     (let mwan_num = mwan_active_num (m_nv e)
      in if mwan_num \<le> 1 then (cur, [])
         else
           let cur = mwan_status_update e;
               hops = concat (map (balance_hop e' cur) [1..mwan_num]);
               not_allwan_down = list_ex (\<lambda>u. status cur u \<noteq> CHR ''0'') [1..mwan_num];
               hops = (if not_allwan_down then hops else hops @ [emergency_hop (m_nv e') mwan_num])
           in (cur, concat (map (default_del e') [1..mwan_num]) @ [Eval (RouteReplace hops)]))"

subsection \<open>The main loop\<close>

record mwan =
  mwan_curr :: string
  mwan_last :: string

definition transition :: "(ipcmd \<Rightarrow> bool) \<Rightarrow> snap \<Rightarrow> string \<Rightarrow> string \<Rightarrow> int \<Rightarrow> act list" where
  "transition ok e old cur u =
     (let was_up = status old u \<noteq> CHR ''0''; now_up = status cur u \<noteq> CHR ''0''
      in if was_up = now_up then []
         else if now_up then mwan_table_add e (get_wan_prefix u) @ mwan_pbr_update ok u True
         else mwan_pbr_update ok u False @ mwan_table_del (m_nv e) (get_wan_prefix u))"

text \<open>
  One pass.  The snapshots are those of the state of the units, of the changes of tables and chains, and of the two
  parts of the default route.
\<close>

definition mwan_pass :: "(ipcmd \<Rightarrow> bool) \<Rightarrow> int \<Rightarrow> snap \<times> snap \<times> snap \<times> snap \<Rightarrow> mwan \<Rightarrow> mwan \<times> act list" where
  "mwan_pass ok mwan_num es st =
     (case es of (e1, e2, e3, e4) \<Rightarrow>
        let cur = mwan_status_update e1
        in if mwan_last st \<noteq> cur then
             let acts = concat (map (transition ok e2 (mwan_last st) cur) [1..mwan_num]);
                 (cur, lb) = mwan_load_balance e3 e4 cur
             in (\<lparr>mwan_curr = cur, mwan_last = cur\<rparr>, acts @ lb @ [StopDnsmasq, StartDnsmasq])
           else (\<lparr>mwan_curr = cur, mwan_last = cur\<rparr>, []))"

text \<open>The passes for a sequence of observations; the loop ends when fewer than two units are in use.\<close>

fun mwan_loop :: "(ipcmd \<Rightarrow> bool) \<Rightarrow> int \<Rightarrow> (snap \<times> snap \<times> snap \<times> snap) list \<Rightarrow> mwan \<Rightarrow> mwan \<times> act list" where
  "mwan_loop ok n [] st = (st, [])"
| "mwan_loop ok n (es # ess) st =
     (if mwan_active_num (m_nv (fst es)) \<le> 1 then (st, [])
      else let (st, as) = mwan_pass ok n es st; (st, bs) = mwan_loop ok n ess st in (st, as @ bs))"


definition mwan_start :: mwan where
  "mwan_start = \<lparr>mwan_curr = replicate (nat MWAN_MAX) (CHR ''0''), mwan_last = replicate (nat MWAN_MAX) (CHR ''0'')\<rparr>"


subsection \<open>The text for the log\<close>

lemma argv_loop_False:
  "cmd \<noteq> [] \<Longrightarrow> length cmd < sz \<Longrightarrow>
    argv_loop False as cmd sz = take (sz - 1) (cmd @ concat (map (\<lambda>a. '' '' @ a) as))"
  by (induction as arbitrary: cmd) (auto simp: Let_def not_le take_Cons')

lemma joined_spaces: "joined '' '' (a # as) = a @ concat (map (\<lambda>a. '' '' @ a) as)"
  by (induction as arbitrary: a) auto

lemma argv_to_cmd_cut: "0 < sz \<Longrightarrow> (case as of [] \<Rightarrow> True | a # _ \<Rightarrow> a \<noteq> []) \<Longrightarrow> mwan_argv_to_cmd as sz = strlcpy (joined '' '' as) sz"
  by (cases as) (auto simp: mwan_argv_to_cmd_def strlcpy_def joined_spaces argv_loop_False Let_def not_le)

subsection \<open>Networks\<close>

lemma aton_num_show:
  assumes "r = [] \<or> hd r = CHR ''.''"
  shows "aton_num (show_nat n @ r) = Some (n, r)"
proof -
  have r: "takeWhile isdigit r = []" "takeWhile (\<lambda>c. isdigit c \<and> c \<noteq> CHR ''8'' \<and> c \<noteq> CHR ''9'') r = []"
    using assms by (cases r; simp add: isdigit_def)+
  have h: "hd0 (show_nat n @ r) = hd0 (show_nat n)" "isdigit (hd0 (show_nat n))"
    using show_nat_not_Nil [of n] show_nat_digits [of "hd0 (show_nat n)" n] by (cases "show_nat n"; simp)+
  show ?thesis
  proof (cases "n = 0")
    case True
    have "show_nat 0 = ''0''" by code_simp
    then show ?thesis using True r assms by (cases r) (auto simp: aton_num_def isdigit_def)
  next
    case False
    then have "hd0 (show_nat n) \<noteq> CHR ''0''" by (simp add: show_nat_leading)
    moreover have "takeWhile isdigit (show_nat n @ r) = show_nat n"
      using r(1) by (simp add: takeWhile_append show_nat_digits)
    ultimately show ?thesis using h by (simp add: aton_num_def Let_def)
  qed
qed

lemma inet_aton_ntoa: "inet_aton (inet_ntoa a) = Some a"
proof -
  have b: "unat (take_bit 8 x :: u32) < 256" for x
    by (simp add: unsigned_take_bit_eq) (simp add: take_bit_eq_mod)
  have t: "unat (drop_bit 24 a) < 256"
    using unsigned_less [of a, where ?'a = nat] by (simp add: drop_bit_eq_div unat_div)
  have e: "aton_num (show_nat n) = Some (n, [])" for n
    using aton_num_show [of "[]" n] by simp
  have "aton_parts 3 (inet_ntoa a) =
      Some [unat (drop_bit 24 a), unat (take_bit 8 (drop_bit 16 a)), unat (take_bit 8 (drop_bit 8 a)), unat (take_bit 8 a)]"
    by (simp add: inet_ntoa_def and_octet aton_parts.simps aton_num_show e numeral_3_eq_3)
  moreover have "((unat (drop_bit 24 a) * 256 + unat (take_bit 8 (drop_bit 16 a))) * 256 +
      unat (take_bit 8 (drop_bit 8 a))) * 256 + unat (take_bit 8 a) = unat a"
  proof -
    have v: "unat (drop_bit k a) = unat a div 2 ^ k" "unat (take_bit 8 x) = unat x mod 256" for k and x :: u32
    proof -
      have "take_bit 32 (unat a) = unat a"
        using unsigned_less [of a, where ?'a = nat] by (simp add: take_bit_nat_eq_self)
      then have "unat (drop_bit k a) = drop_bit k (unat a)" "unat (take_bit 8 x) = take_bit 8 (unat x)"
        by (simp_all add: unsigned_drop_bit_eq unsigned_take_bit_eq)
      then show "unat (drop_bit k a) = unat a div 2 ^ k" "unat (take_bit 8 x) = unat x mod 256"
        by (simp_all add: drop_bit_eq_div take_bit_eq_mod)
    qed
    have "unat a div 2 ^ 24 * 256 + unat a div 2 ^ 16 mod 256 = unat a div 2 ^ 16"
      "unat a div 2 ^ 16 * 256 + unat a div 2 ^ 8 mod 256 = unat a div 2 ^ 8"
      "unat a div 2 ^ 8 * 256 + unat a mod 256 = unat a"
      using div_mult_mod_eq [of "unat a div 2 ^ 16" 256] div_mult_mod_eq [of "unat a div 2 ^ 8" 256]
        div_mult_mod_eq [of "unat a" 256]
      by (simp_all add: div_mult2_eq [symmetric])
    then show ?thesis by (simp only: v)
  qed
  then have "of_nat (((unat (drop_bit 24 a) * 256 + unat (take_bit 8 (drop_bit 16 a))) * 256 +
      unat (take_bit 8 (drop_bit 8 a))) * 256 + unat (take_bit 8 a)) = a"
    by (metis of_nat_unat ucast_id)
  ultimately show ?thesis
    using b [of "drop_bit 16 a"] b [of "drop_bit 8 a"] b [of a] t by (simp add: inet_aton_def)
qed

text \<open>The mask of a network with \<open>k\<close> bits.\<close>

definition netmask :: "nat \<Rightarrow> u32" where
  "netmask k = push_bit (32 - k) (mask k)"

lemma cidr_bits_count: "j + n < 64 \<Longrightarrow> cidr_bits n m (push_bit j 1) = card {i. j \<le> i \<and> i < j + n \<and> bit m i}"
proof (induction n arbitrary: j)
  case 0
  have "{i. j \<le> i \<and> i < j + 0 \<and> bit m i} = {}" by auto
  then show ?case by simp
next
  case (Suc n)
  have t: "(ucast m :: u64) AND push_bit j 1 \<noteq> 0 \<longleftrightarrow> bit m j"
  proof -
    have "(ucast m :: u64) AND push_bit j 1 = (if bit (ucast m :: u64) j then push_bit j 1 else 0)"
      using Suc(2) by (intro bit_word_eqI) (auto simp: bit_simps bit_1_iff)
    moreover have "push_bit j (1 :: u64) \<noteq> 0"
      using Suc(2) by simp
    ultimately show ?thesis
      using Suc(2) by (auto simp: bit_simps dest: bit_imp_le_length)
  qed
  have "{i. j \<le> i \<and> i < j + Suc n \<and> bit m i} = (if bit m j then {j} else {}) \<union> {i. Suc j \<le> i \<and> i < Suc j + n \<and> bit m i}"
    by (auto simp: le_eq_less_or_eq Suc_le_eq)
  moreover have "finite {i. Suc j \<le> i \<and> i < Suc j + n \<and> bit m i}"
    by (rule finite_subset [of _ "{..<Suc j + n}"]) auto
  moreover have "j \<notin> {i. Suc j \<le> i \<and> i < Suc j + n \<and> bit m i}"
    by simp
  ultimately have "card {i. j \<le> i \<and> i < j + Suc n \<and> bit m i} =
      (if bit m j then 1 else 0) + card {i. Suc j \<le> i \<and> i < Suc j + n \<and> bit m i}"
    by simp
  then show ?case
    using Suc(1) [of "Suc j"] Suc(2) t by (simp add: mult.commute)
qed

lemma netmask_bits: "k \<le> 32 \<Longrightarrow> cidr_bits 63 (netmask k) 1 = k"
proof -
  assume k: "k \<le> 32"
  have "{i. 0 \<le> i \<and> i < 0 + 63 \<and> bit (netmask k) i} = {32 - k..<32}"
    using k by (auto simp: netmask_def bit_simps bit_mask_iff)
  then show ?thesis
    using cidr_bits_count [of 0 63 "netmask k"] k by simp
qed

lemma length_ntoa: "length (inet_ntoa a) \<le> 15"
proof -
  have b: "unat (take_bit 8 x :: u32) < 256" for x
    by (simp add: unsigned_take_bit_eq) (simp add: take_bit_eq_mod)
  have t: "unat (drop_bit 24 a) < 256"
    using unsigned_less [of a, where ?'a = nat] by (simp add: drop_bit_eq_div unat_div)
  show ?thesis
    using octet_text(1) [OF t] octet_text(1) [OF b [of "drop_bit 16 a"]] octet_text(1) [OF b [of "drop_bit 8 a"]]
      octet_text(1) [OF b [of a]]
    by (simp add: inet_ntoa_def and_octet)
qed

text \<open>The network of an address and a mask in its text form, which always fits.\<close>

lemma get_cidr_correct:
  assumes "k \<le> 32"
  shows "get_cidr raw (inet_ntoa ip) (inet_ntoa (netmask k)) 32 = inet_ntoa (ip AND netmask k) @ ''/'' @ show_nat k"
proof -
  have "length (show_nat k) \<le> 2"
    using length_show_nat [of k 1] assms by simp
  then show ?thesis
    using length_ntoa [of "ip AND netmask k"]
    by (simp add: get_cidr_def inet_aton_ntoa netmask_bits [OF assms] strlcpy_def)
qed

subsection \<open>The state of the units\<close>

lemma status_update_nth:
  "length s = 4 \<Longrightarrow> 1 \<le> u \<Longrightarrow> u \<le> 4 \<Longrightarrow> 1 \<le> v \<Longrightarrow> status (set_status u c s) v = (if u = v then c else status s v)"
  by (auto simp: status_def set_status_def nth_list_update)

lemma length_set_status [simp]: "length (set_status u c s) = length s"
  by (simp add: set_status_def)

lemma foldl_status:
  assumes "\<And>s u. length s = 4 \<Longrightarrow> 1 \<le> u \<Longrightarrow> u \<le> 4 \<Longrightarrow> f s u = set_status u (h u (status s u)) s"
    "distinct us" "\<forall>u \<in> set us. 1 \<le> u \<and> u \<le> 4" "length s = 4"
  shows "length (foldl f s us) = 4 \<and>
    (\<forall>v. 1 \<le> v \<and> v \<le> 4 \<longrightarrow> status (foldl f s us) v = (if v \<in> set us then h v (status s v) else status s v))"
  using assms(2-4)
proof (induction us arbitrary: s)
  case (Cons u us)
  have f: "f s u = set_status u (h u (status s u)) s"
    using assms(1) Cons.prems by simp
  then have "length (f s u) = 4" using Cons.prems by simp
  with Cons.IH [of "f s u"] Cons.prems show ?case
    by (auto simp: f status_update_nth)
qed simp

definition weight_of :: "snap \<Rightarrow> int \<Rightarrow> int" where
  "weight_of e u = wan_weight (get_wan_info (m_nv e) (get_wan_prefix u))"

text \<open>
  A unit takes part in routing if it is up and has a weight, or if it is up with weight 0 while no unit with a weight is
  up.
\<close>

definition routing :: "snap \<Rightarrow> int \<Rightarrow> bool" where
  "routing e u \<longleftrightarrow> unit_up e u \<and>
     (0 < weight_of e u \<or> weight_of e u = 0 \<and> (\<forall>v. 1 \<le> v \<and> v \<le> mwan_active_num (m_nv e) \<and> unit_up e v \<longrightarrow> weight_of e v \<le> 0))"

definition unit_status :: "snap \<Rightarrow> int \<Rightarrow> char" where
  "unit_status e u = (if routing e u then CHR ''2'' else if unit_up e u then CHR ''1'' else CHR ''0'')"

lemma link_loop:
  assumes "n \<le> 4"
  shows "length (foldl (link_status e) (replicate 4 (CHR ''0'')) [1..n]) = 4 \<and>
    (\<forall>v. 1 \<le> v \<and> v \<le> 4 \<longrightarrow> status (foldl (link_status e) (replicate 4 (CHR ''0'')) [1..n]) v =
      (if v \<le> n \<and> unit_up e v then if 0 < weight_of e v then CHR ''2'' else CHR ''1'' else CHR ''0''))"
proof -
  have z: "1 \<le> v \<Longrightarrow> v \<le> 4 \<Longrightarrow> status (replicate 4 (CHR ''0'')) v = CHR ''0''" for v
    by (simp add: status_def)
  let ?h = "\<lambda>u c. if unit_up e u then if 0 < weight_of e u then CHR ''2'' else CHR ''1'' else CHR ''0''"
  let ?s = "foldl (link_status e) (replicate 4 (CHR ''0'')) [1..n]"
  have "length ?s = 4 \<and> (\<forall>v. 1 \<le> v \<and> v \<le> 4 \<longrightarrow> status ?s v =
      (if v \<in> set [1..n] then ?h v (status (replicate 4 (CHR ''0'')) v) else status (replicate 4 (CHR ''0'')) v))"
    using assms by (intro foldl_status) (simp_all add: link_status_def weight_of_def)
  then show ?thesis
    using z by simp
qed

lemma status_update_correct:
  assumes "1 < mwan_active_num (m_nv e)"
  shows "length (mwan_status_update e) = 4"
    "1 \<le> u \<Longrightarrow> u \<le> 4 \<Longrightarrow>
      status (mwan_status_update e) u = (if u \<le> mwan_active_num (m_nv e) then unit_status e u else CHR ''0'')"
proof -
  let ?n = "mwan_active_num (m_nv e)"
  have n: "?n \<le> 4"
    using active_num_bound [of "m_nv e"] by (simp add: MWAN_MAX_def)
  let ?s = "foldl (link_status e) (replicate 4 (CHR ''0'')) [1..?n]"
  define d where "d = list_all (\<lambda>u. (of_char (status ?s u) :: nat) < of_char (CHR ''2'')) [1..?n]"
  note l = link_loop [OF n, of e]
  have d: "d \<longleftrightarrow> (\<forall>v. 1 \<le> v \<and> v \<le> ?n \<and> unit_up e v \<longrightarrow> weight_of e v \<le> 0)"
    using l n unfolding d_def list_all_iff by (auto simp: not_less split: if_splits)
  have m: "mwan_status_update e = (if d then foldl (failover_status e) ?s [1..?n] else ?s)"
    using assms by (simp add: mwan_status_update_def d_def Let_def MWAN_MAX_def)
  have f: "length (foldl (failover_status e) ?s [1..?n]) = 4 \<and>
      (\<forall>v. 1 \<le> v \<and> v \<le> 4 \<longrightarrow> status (foldl (failover_status e) ?s [1..?n]) v =
        (if v \<in> set [1..?n] then if status ?s v = CHR ''1'' \<and> weight_of e v = 0 then CHR ''2'' else status ?s v else status ?s v))"
    using n l by (intro foldl_status) (auto simp: failover_status_def weight_of_def status_def set_status_def)
  show "length (mwan_status_update e) = 4"
    using m l f by simp
  assume u: "1 \<le> u" "u \<le> 4"
  show "status (mwan_status_update e) u = (if u \<le> ?n then unit_status e u else CHR ''0'')"
  proof (cases d)
    case True
    then show ?thesis
      using f l u d m by (auto simp: unit_status_def routing_def)
  next
    case False
    then show ?thesis
      using f l u d m by (auto simp: unit_status_def routing_def)
  qed
qed

lemma unit_status_simps:
  "unit_status e u = CHR ''2'' \<longleftrightarrow> routing e u" "unit_status e u \<noteq> CHR ''0'' \<longleftrightarrow> unit_up e u"
  by (auto simp: unit_status_def routing_def)

text \<open>If no weight is negative, some unit takes part in routing as soon as one is up.\<close>

lemma some_routing:
  assumes "unit_up e u" "1 \<le> u" "u \<le> mwan_active_num (m_nv e)"
    "\<forall>v. 1 \<le> v \<and> v \<le> mwan_active_num (m_nv e) \<longrightarrow> 0 \<le> weight_of e v"
  shows "\<exists>v. 1 \<le> v \<and> v \<le> mwan_active_num (m_nv e) \<and> routing e v"
proof (cases "\<exists>v. 1 \<le> v \<and> v \<le> mwan_active_num (m_nv e) \<and> unit_up e v \<and> 0 < weight_of e v")
  case True
  then show ?thesis by (auto simp: routing_def)
next
  case False
  then have "routing e u"
    using assms by (force simp: routing_def)
  then show ?thesis using assms by blast
qed

subsection \<open>The default route\<close>

definition next_hop :: "snap \<Rightarrow> int \<Rightarrow> string \<times> string \<times> int" where
  "next_hop e u =
     (let pre = get_wan_prefix u; info = get_wan_info (m_nv e) pre
      in (get_wan_ip (get_wanx_proto (m_nv e) pre) info 32, wan_name info, max 1 (weight_of e u)))"

lemma hops_routing:
  assumes "1 < mwan_active_num (m_nv e)" "\<forall>u \<in> set us. 1 \<le> u \<and> u \<le> mwan_active_num (m_nv e)"
  shows "concat (map (balance_hop e (mwan_status_update e)) us) = map (next_hop e) (filter (routing e) us)"
  using assms(2)
proof (induction us)
  case (Cons u us)
  have "u \<le> 4"
    using Cons.prems active_num_bound [of "m_nv e"] by (simp add: MWAN_MAX_def)
  then have "status (mwan_status_update e) u = unit_status e u"
    using status_update_correct(2) [OF assms(1), of u] Cons.prems by simp
  then have "balance_hop e (mwan_status_update e) u = (if routing e u then [next_hop e u] else [])"
    by (auto simp: balance_hop_def next_hop_def unit_status_simps Let_def weight_of_def routing_def)
  with Cons show ?case by simp
qed simp

lemma wan_default_loop_max:
  assumes "1 < u"
  shows "let (d', w') = wan_default_loop nv [u..n] (d, w)
    in (d' = d \<and> w' = w \<and> (\<forall>v. u \<le> v \<and> v \<le> n \<longrightarrow> wan_weight (get_wan_info nv (get_wan_prefix v)) \<le> w)) \<or>
       (u \<le> d' \<and> d' \<le> n \<and> w' = wan_weight (get_wan_info nv (get_wan_prefix d')) \<and> w < w' \<and>
        (\<forall>v. u \<le> v \<and> v \<le> n \<longrightarrow> wan_weight (get_wan_info nv (get_wan_prefix v)) \<le> w' \<and>
           (v < d' \<longrightarrow> wan_weight (get_wan_info nv (get_wan_prefix v)) < w')))"
  using assms
proof (induction "nat (n - u + 1)" arbitrary: u d w)
  case 0
  then show ?case by auto
next
  case (Suc k)
  let ?w = "\<lambda>v. wan_weight (get_wan_info nv (get_wan_prefix v))"
  have c: "[u..n] = u # [u + 1..n]"
    using Suc(2) by (simp add: upto_rec1)
  have k: "k = nat (n - (u + 1) + 1)"
    using Suc(2) by simp
  have i: "(u \<le> v \<and> v \<le> n) \<longleftrightarrow> (v = u \<and> u \<le> n) \<or> (u + 1 \<le> v \<and> v \<le> n)" for v
    using Suc(2) by auto
  show ?case
    using Suc(1) [OF k, of "if w < ?w u then u else d" "max w (?w u)"] Suc(2,3)
    unfolding c i by (auto simp: Let_def split: if_splits)
qed

text \<open>The first unit with the highest weight.\<close>

definition heaviest :: "snap \<Rightarrow> int \<Rightarrow> bool" where
  "heaviest e d \<longleftrightarrow> 1 \<le> d \<and> d \<le> mwan_active_num (m_nv e) \<and>
     (\<forall>v. 1 \<le> v \<and> v \<le> mwan_active_num (m_nv e) \<longrightarrow> weight_of e v \<le> weight_of e d \<and> (v < d \<longrightarrow> weight_of e v < weight_of e d))"

lemma wan_default_heaviest:
  assumes "1 < mwan_active_num (m_nv e)"
  shows "heaviest e (fst (wan_default_loop (m_nv e) [1..mwan_active_num (m_nv e)] (1, 0)))"
proof -
  let ?n = "mwan_active_num (m_nv e)"
  have "[1..?n] = 1 # [2..?n]"
    using assms by (simp add: upto_rec1)
  then have "wan_default_loop (m_nv e) [1..?n] (1, 0) = wan_default_loop (m_nv e) [2..?n] (1, weight_of e 1)"
    by (simp add: weight_of_def)
  moreover have "(1 \<le> v \<and> v \<le> ?n) \<longleftrightarrow> v = 1 \<or> (2 \<le> v \<and> v \<le> ?n)" for v
    using assms by auto
  ultimately show ?thesis
    using wan_default_loop_max [of 2 "m_nv e" ?n 1 "weight_of e 1"] assms
    by (cases "wan_default_loop (m_nv e) [2..?n] (1, weight_of e 1)") (auto simp: heaviest_def weight_of_def)
qed

lemma load_balance_stable:
  assumes "1 < mwan_active_num (m_nv e)"
  defines "n \<equiv> mwan_active_num (m_nv e)"
  shows "mwan_load_balance e e cur =
    (mwan_status_update e,
     concat (map (default_del e) [1..n]) @
       [Eval (RouteReplace
          (if \<exists>u. 1 \<le> u \<and> u \<le> n \<and> unit_up e u then map (next_hop e) (filter (routing e) [1..n])
           else [emergency_hop (m_nv e) n]))])"
proof -
  have n: "n \<le> 4"
    using active_num_bound [of "m_nv e"] by (simp add: MWAN_MAX_def n_def)
  have "list_ex (\<lambda>u. status (mwan_status_update e) u \<noteq> CHR ''0'') [1..n] \<longleftrightarrow> (\<exists>u. 1 \<le> u \<and> u \<le> n \<and> unit_up e u)"
    using status_update_correct(2) [OF assms(1)] n by (auto simp: list_ex_iff unit_status_simps n_def)
  moreover have "concat (map (balance_hop e (mwan_status_update e)) [1..n]) = map (next_hop e) (filter (routing e) [1..n])"
    by (intro hops_routing assms(1)) (simp add: n_def)
  moreover have "filter (routing e) [1..n] = []" if "\<not> (\<exists>u. 1 \<le> u \<and> u \<le> n \<and> unit_up e u)"
    using that by (auto simp: filter_empty_conv routing_def)
  ultimately show ?thesis
    using assms(1) by (cases "\<exists>u. 1 \<le> u \<and> u \<le> n \<and> unit_up e u") (auto simp: mwan_load_balance_def Let_def n_def)
qed

subsection \<open>What the programs leave behind\<close>

text \<open>
  Two things matter for the marks of a unit: whether its chain marks new connections, and the rules that send its mark
  to its table.  An appended rule is the last of its preference, a removal takes the first.
\<close>

type_synonym view = "bool \<times> string list"

fun view_step :: "int \<Rightarrow> view \<Rightarrow> act \<Rightarrow> view" where
  "view_step u (m, rs) (Eval (Flush v)) = (if v = u then False else m, rs)"
| "view_step u (m, rs) (Eval (SetMark v)) = (if v = u then True else m, rs)"
| "view_step u (m, rs) (Eval (RuleAdd v k s)) = (m, if v = u \<and> k = FWMARK then rs @ [s] else rs)"
| "view_step u (m, rs) (Eval (RuleDel v k)) = (m, if v = u \<and> k = FWMARK then tl rs else rs)"
| "view_step u s _ = s"

definition view :: "int \<Rightarrow> view \<Rightarrow> act list \<Rightarrow> view" where
  "view u s as = foldl (view_step u) s as"

lemma view_simps [simp]: "view u s [] = s" "view u s (a # as) = view u (view_step u s a) as"
  "view u s (as @ bs) = view u (view u s as) bs"
  by (simp_all add: view_def)

text \<open>A property of all the views in between.\<close>

fun always :: "(view \<Rightarrow> bool) \<Rightarrow> int \<Rightarrow> view \<Rightarrow> act list \<Rightarrow> bool" where
  "always P u s [] = P s"
| "always P u s (a # as) = (P s \<and> always P u (view_step u s a) as)"

lemma always_append [simp]: "always P u s (as @ bs) \<longleftrightarrow> always P u s as \<and> always P u (view u s as) bs"
  by (induction as arbitrary: s) (auto elim: always.elims)

text \<open>The actions that concern a unit.\<close>

fun touches :: "int \<Rightarrow> act \<Rightarrow> bool" where
  "touches u (Eval (Flush v)) \<longleftrightarrow> v = u"
| "touches u (Eval (SetMark v)) \<longleftrightarrow> v = u"
| "touches u (Eval (RestoreMark v)) \<longleftrightarrow> v = u"
| "touches u (Eval (RuleAdd v k s)) \<longleftrightarrow> v = u"
| "touches u (Eval (RuleDel v k)) \<longleftrightarrow> v = u"
| "touches u _ \<longleftrightarrow> False"



lemma load_balance_untouched: "\<forall>a \<in> set (snd (mwan_load_balance e e' cur)). \<not> touches u a"
  by (auto simp: mwan_load_balance_def Let_def default_del_def)

lemma table_del_touches: "get_wan_unit pre \<noteq> u \<Longrightarrow> \<forall>a \<in> set (mwan_table_del nv pre). \<not> touches u a"
  by (auto simp: mwan_table_del_def Let_def)

lemma table_add_touches: "get_wan_unit pre \<noteq> u \<Longrightarrow> \<forall>a \<in> set (mwan_table_add e pre). \<not> touches u a"
  using table_del_touches [of pre u]
  by (auto simp: mwan_table_add_def lan_routes_def Let_def split: if_splits)

lemma pbr_update_touches: "v \<noteq> u \<Longrightarrow> \<forall>a \<in> set (mwan_pbr_update ok v up). \<not> touches u a"
  by (auto simp: mwan_pbr_update_def)

lemma transition_touches:
  assumes "1 \<le> v" "v \<le> 4" "v \<noteq> u"
  shows "\<forall>a \<in> set (transition ok e old cur v). \<not> touches u a"
proof -
  have "get_wan_unit (get_wan_prefix v) = v"
    using assms by (intro get_wan_unit_prefix) (simp_all add: MWAN_MAX_def)
  then show ?thesis
    using assms(3) table_del_touches [of "get_wan_prefix v" u] table_add_touches [of "get_wan_prefix v" u] pbr_update_touches [of v u]
    by (auto simp: transition_def Let_def)
qed











subsection \<open>Properties\<close>

text \<open>An example: two units with static addresses, the second as a standby; a unit is up if its name is in the list.\<close>

definition pair_nv :: nvram where
  "pair_nv =
     [''mwan_num'' \<mapsto> ''2'', ''wan_proto'' \<mapsto> ''static'', ''wan2_proto'' \<mapsto> ''static'', ''wan_weight'' \<mapsto> ''3'', ''wan2_weight'' \<mapsto> ''0'',
      ''wan_iface'' \<mapsto> ''eth0'', ''wan2_iface'' \<mapsto> ''eth1'', ''wan_ifname'' \<mapsto> ''eth0'', ''wan2_ifname'' \<mapsto> ''eth1'',
      ''wan_ipaddr'' \<mapsto> ''10.0.0.2'', ''wan2_ipaddr'' \<mapsto> ''10.1.0.2'', ''wan_gateway'' \<mapsto> ''10.0.0.1'', ''wan2_gateway'' \<mapsto> ''10.1.0.1'']"

definition pair :: "string list \<Rightarrow> snap" where
  "pair ups =
     \<lparr>m_nv = pair_nv,
      m_sys = \<lparr>file_text = Map.empty, psname = (\<lambda>_. []), socket_ok = True,
        if_flags = (\<lambda>i. Some (i \<in> set ups, True)), wan_time = Map.empty, sys_uptime = 0\<rparr>,
      m_flags = (\<lambda>_. (False, False)), m_raw = (0, 0)\<rparr>"

lemma pair_num: "mwan_active_num (m_nv (pair ups)) = 2"
proof -
  have "mwan_active_num pair_nv = 2" by code_simp
  then show ?thesis by (simp add: pair_def)
qed

text \<open>
  C4: Setting the default route while the state of the system does not change.  The state of a unit is 2 if it takes part
  in routing (it is up with a weight, or up with weight 0 while no unit with a weight is up), 1 if it is up otherwise and 0
  if it is down; the route has exactly the units in state 2 as its next hops, in order, a failover unit with weight 1, and
  there is at least one if weights are not negative.  If all units are down the only hop is the first unit with the highest
  weight.
\<close>

theorem load_balance_correct:
  assumes "1 < mwan_active_num (m_nv e)"
  shows "\<exists>dels hops. mwan_load_balance e e cur = (mwan_status_update e, dels @ [Eval (RouteReplace hops)]) \<and>
    length (mwan_status_update e) = 4 \<and>
    (\<forall>u \<in> set [1..4]. status (mwan_status_update e) u =
      (if mwan_active_num (m_nv e) < u \<or> \<not> unit_up e u then CHR ''0'' else if routing e u then CHR ''2'' else CHR ''1'')) \<and>
    (if \<exists>u \<in> set [1..mwan_active_num (m_nv e)]. unit_up e u then
       hops = map (next_hop e) (filter (routing e) [1..mwan_active_num (m_nv e)]) \<and>
       ((\<forall>u \<in> set [1..mwan_active_num (m_nv e)]. 0 \<le> weight_of e u) \<longrightarrow> hops \<noteq> [])
     else \<exists>d via dev w. heaviest e d \<and> next_hop e d = (via, dev, w) \<and> hops = [(via, dev, weight_of e d)])"
proof -
  let ?n = "mwan_active_num (m_nv e)"
  let ?hops = "if \<exists>u. 1 \<le> u \<and> u \<le> ?n \<and> unit_up e u then map (next_hop e) (filter (routing e) [1..?n]) else [emergency_hop (m_nv e) ?n]"
  let ?d = "fst (wan_default_loop (m_nv e) [1..?n] (1, 0))"
  have h: "mwan_load_balance e e cur = (mwan_status_update e, concat (map (default_del e) [1..?n]) @ [Eval (RouteReplace ?hops)])"
    by (rule load_balance_stable [OF assms])
  have s: "\<forall>u \<in> set [1..4]. status (mwan_status_update e) u =
      (if ?n < u \<or> \<not> unit_up e u then CHR ''0'' else if routing e u then CHR ''2'' else CHR ''1'')"
    using status_update_correct(2) [OF assms] by (auto simp: unit_status_def routing_def)
  have "if \<exists>u \<in> set [1..?n]. unit_up e u then
      ?hops = map (next_hop e) (filter (routing e) [1..?n]) \<and> ((\<forall>u \<in> set [1..?n]. 0 \<le> weight_of e u) \<longrightarrow> ?hops \<noteq> [])
    else \<exists>d via dev w. heaviest e d \<and> next_hop e d = (via, dev, w) \<and> ?hops = [(via, dev, weight_of e d)]"
  proof (cases "\<exists>u. 1 \<le> u \<and> u \<le> ?n \<and> unit_up e u")
    case True
    then obtain u where u: "unit_up e u" "1 \<le> u" "u \<le> ?n" by blast
    then show ?thesis
      using some_routing [OF u] by (auto simp: filter_empty_conv) (metis atLeastAtMost_iff)
  next
    case False
    moreover have "\<exists>via dev w. next_hop e ?d = (via, dev, w) \<and> emergency_hop (m_nv e) ?n = (via, dev, weight_of e ?d)"
      by (simp add: emergency_hop_def next_hop_def weight_of_def Let_def)
    ultimately show ?thesis
      using wan_default_heaviest [OF assms] by fastforce
  qed
  then show ?thesis
    using h s status_update_correct(1) [OF assms] by blast
qed

theorem load_balance_correct_witness:
  "\<exists>dels hops. mwan_load_balance (pair [''eth1'']) (pair [''eth1'']) [] =
      (mwan_status_update (pair [''eth1'']), dels @ [Eval (RouteReplace hops)]) \<and> hops \<noteq> []"
proof -
  have "unit_up (pair [''eth1'']) 2" "weight_of (pair [''eth1'']) 1 = 3" "weight_of (pair [''eth1'']) 2 = 0"
    by code_simp+
  moreover have "set [1..2] = {1, 2 :: int}"
    by auto
  ultimately show ?thesis
    using load_balance_correct [of "pair [''eth1'']" "[]"] unfolding pair_num by auto
qed



text \<open>
  C38: A change between the two readings of the state in one pass is lost.  Let a unit be down when a pass starts, let the pass
  have another change to make, and let the unit be up when the default route is set.  Then this pass and all later ones,
  as long as the state stays the same, run no program for the tables and the chain of the unit: it is recorded as up, but
  its connections are not marked and its mark is sent nowhere.
\<close>

theorem transition_lost:
  assumes "1 < n" "\<forall>e \<in> {e1, e2, e3, e4}. mwan_active_num (m_nv e) = n" "1 \<le> u" "u \<le> n"
    "mwan_last st \<noteq> mwan_status_update e1" "status (mwan_last st) u = CHR ''0''" "\<not> unit_up e1 u" "unit_up e3 u"
    "\<forall>es \<in> set ess. mwan_active_num (m_nv (fst es)) = n \<and> mwan_status_update (fst es) = mwan_status_update e3"
  shows "status (mwan_last (fst (mwan_loop ok n ((e1, e2, e3, e4) # ess) st))) u \<noteq> CHR ''0'' \<and>
    \<not> list_ex (touches u) (snd (mwan_loop ok n ((e1, e2, e3, e4) # ess) st))"
proof -
  have n: "n \<le> 4" "1 < mwan_active_num (m_nv e1)" "1 < mwan_active_num (m_nv e3)"
    using active_num_bound [of "m_nv e1"] assms(1,2) by (auto simp: MWAN_MAX_def)
  let ?c = "mwan_status_update e1" and ?d = "mwan_status_update e3"
  have c: "status ?c u = CHR ''0''" and d: "status ?d u \<noteq> CHR ''0''"
    using status_update_correct(2) [OF n(2), of u] status_update_correct(2) [OF n(3), of u] assms(2,3,4,7,8) n(1)
    by (simp_all add: unit_status_simps) (simp_all add: unit_status_def routing_def)
  obtain lb where lb: "mwan_load_balance e3 e4 ?c = (?d, lb)" "\<forall>a \<in> set lb. \<not> touches u a"
    using load_balance_untouched [of e3 e4 ?c u] n(3) assms(2) by (auto simp: mwan_load_balance_def Let_def)
  have t: "\<forall>a \<in> set (concat (map (transition ok e2 (mwan_last st) ?c) [1..n])). \<not> touches u a"
  proof -
    have "transition ok e2 (mwan_last st) ?c u = []"
      using c assms(6) by (simp add: transition_def)
    then show ?thesis
      using transition_touches [of _ u ok e2 "mwan_last st" ?c] n(1) by (fastforce simp del: transition_def)
  qed
  obtain as where p: "mwan_pass ok n (e1, e2, e3, e4) st = (\<lparr>mwan_curr = ?d, mwan_last = ?d\<rparr>, as)" "\<forall>a \<in> set as. \<not> touches u a"
    using assms(5) t lb(2) by (auto simp: mwan_pass_def Let_def lb(1))
  have q: "mwan_loop ok n ess \<lparr>mwan_curr = ?d, mwan_last = ?d\<rparr> = (\<lparr>mwan_curr = ?d, mwan_last = ?d\<rparr>, [])"
    using assms(1,9) by (induction ess) (auto simp: mwan_pass_def Let_def split: prod.splits)
  show ?thesis
    using p q d assms(1,2) by (simp add: list_ex_iff)
qed

theorem transition_lost_witness:
  "let r = mwan_loop (\<lambda>_. True) 2 [(pair [''eth0''], pair [''eth0''], pair [''eth0'', ''eth1''], pair [''eth0'', ''eth1'']),
      (pair [''eth0'', ''eth1''], pair [''eth0'', ''eth1''], pair [''eth0'', ''eth1''], pair [''eth0'', ''eth1''])] mwan_start
   in status (mwan_last (fst r)) 2 \<noteq> CHR ''0'' \<and> \<not> list_ex (touches 2) (snd r)"
proof -
  have "mwan_last mwan_start \<noteq> mwan_status_update (pair [''eth0''])" "status (mwan_last mwan_start) 2 = CHR ''0''"
      "\<not> unit_up (pair [''eth0'']) 2" "unit_up (pair [''eth0'', ''eth1'']) 2"
    by code_simp+
  then show ?thesis
    unfolding Let_def by (intro transition_lost) (simp_all add: pair_num)
qed

text \<open>The route for emergencies keeps a weight of 0, which the route for failover replaces with 1.\<close>

lemma emergency_weight_zero:
  assumes "1 < mwan_active_num (m_nv e)"
    "\<forall>u. 1 \<le> u \<and> u \<le> mwan_active_num (m_nv e) \<longrightarrow> \<not> unit_up e u \<and> weight_of e u = 0"
  shows "\<exists>dels via dev. snd (mwan_load_balance e e cur) = dels @ [Eval (RouteReplace [(via, dev, 0)])]"
proof -
  let ?n = "mwan_active_num (m_nv e)"
  have "snd (snd (emergency_hop (m_nv e) ?n)) = weight_of e (fst (wan_default_loop (m_nv e) [1..?n] (1, 0)))"
    by (simp add: emergency_hop_def weight_of_def Let_def)
  also have "\<dots> = 0"
    using wan_default_heaviest [OF assms(1)] assms(2) by (simp add: heaviest_def)
  finally show ?thesis
    using assms load_balance_stable [OF assms(1), of cur] by (cases "emergency_hop (m_nv e) ?n") auto
qed

text \<open>As many rules for DNS servers are removed as there are servers now, whatever number was entered.\<close>

lemma dns_rules_left:
  assumes "1 \<le> u" "u \<le> 4" "1 < mwan_active_num (m_nv e)" "unit_up e u"
  shows "length (filter (\<lambda>a. \<exists>s. a = Eval (RuleAdd u TO s)) (mwan_table_add e (get_wan_prefix u))) = length (get_dns (m_nv e) (get_wan_prefix u))"
    "length (filter (\<lambda>a. a = Eval (RuleDel u TO)) (mwan_table_del nv (get_wan_prefix u))) = length (get_dns nv (get_wan_prefix u))"
proof -
  have g: "get_wan_unit (get_wan_prefix u) = u"
    using assms by (intro get_wan_unit_prefix) (simp_all add: MWAN_MAX_def)
  show "length (filter (\<lambda>a. a = Eval (RuleDel u TO)) (mwan_table_del nv (get_wan_prefix u))) = length (get_dns nv (get_wan_prefix u))"
    by (simp add: mwan_table_del_def Let_def g get_wan_info_def)
  have "filter (\<lambda>a. \<exists>s. a = Eval (RuleAdd u TO s)) (lan_routes e u) = []"
    by (auto simp: filter_empty_conv lan_routes_def Let_def)
  then show "length (filter (\<lambda>a. \<exists>s. a = Eval (RuleAdd u TO s)) (mwan_table_add e (get_wan_prefix u))) = length (get_dns (m_nv e) (get_wan_prefix u))"
    using assms by (simp add: mwan_table_add_def mwan_table_del_def Let_def g get_wan_info_def filter_map o_def filter_empty_conv)
qed

end
