(* ===== verification/Bwlimit.thy ===== *)
theory Bwlimit
  imports Mwan
begin

section \<open>Limits on bandwidth\<close>

text \<open>
  \<^verbatim>\<open>rc/bwlimit.c\<close>: limits for single addresses and for whole bridges.  \<^verbatim>\<open>ipt_bwlimit\<close> writes rules that
  mark packets or limit connections while the firewall is built; \<^verbatim>\<open>start_bwlimit\<close> writes a script that makes a class
  for every limit and directs marked packets to it.  Both read the same table and have to count its entries in the same
  way, since the number of an entry is its mark and its class.  Where the code writes past a buffer or computes with a null
  pointer the result is \<open>None\<close>.  The script is kept as a list of lines; classes and filters are structured, with
  their text given by \<open>show_bw\<close>.
\<close>

datatype address_type = IP_ADDRESS | MAC_ADDRESS | IP_RANGE

definition strrchr :: "string \<Rightarrow> char \<Rightarrow> nat option" where
  "strrchr s c = map_option (\<lambda>k. length s - 1 - k) (if c \<in> set s then strchr (rev s) c else None)"

definition address_checker :: "string \<Rightarrow> nat \<Rightarrow> (address_type \<times> string) option" where
  "address_checker old sz =
     (case strchr old (CHR ''-'') of
        Some to_minus \<Rightarrow>
          if strchr (drop (to_minus + 1) old) (CHR ''.'') \<noteq> None then Some (IP_RANGE, strlcpy old sz)
          else
            (case strrchr old (CHR ''.'') of
               None \<Rightarrow> None
             | Some to_dot \<Rightarrow>
                 if sz < to_minus + to_dot + 3 then None
                 else
                   let ip = strlcpy old (to_minus + 2)
                   in Some (IP_RANGE, ip @ strlcpy ip (to_dot + 2) @ strlcpy (drop (to_minus + 1) old) (sz - to_minus - to_dot - 2)))
      | None \<Rightarrow> Some (if length old \<noteq> 17 then IP_ADDRESS else MAC_ADDRESS, strlcpy old sz))"

subsection \<open>The entries of the table\<close>

record brule =
  r_addr :: string
  r_dlrate :: string
  r_dlceil :: string
  r_ulrate :: string
  r_ulceil :: string
  r_prio :: string
  r_tcp :: string
  r_udp :: string

fun brule_of :: "string list \<Rightarrow> brule option" where
  "brule_of [a, dr, dc, ur, uc, p, t, u] =
     Some \<lparr>r_addr = a, r_dlrate = dr, r_dlceil = dc, r_ulrate = ur, r_ulceil = uc, r_prio = p, r_tcp = t, r_udp = u\<rparr>"
| "brule_of _ = None"

text \<open>An entry in the new form, or in the old form without the first and the last field, which is read from a copy of 127 characters.\<close>

definition read_rule :: "string \<Rightarrow> brule option" where
  "read_rule p =
     (let fs = vstrsep p (CHR ''<'') 10
      in if length fs < 10 then brule_of (vstrsep (strlcpy p 128) (CHR ''<'') 8)
         else if fs ! 0 \<noteq> [] \<and> atoi (fs ! 0) \<noteq> 1 then None
         else brule_of (take 8 (drop 1 fs)))"

definition bwl_rule :: "string \<Rightarrow> brule option" where
  "bwl_rule p =
     (case read_rule p of
        None \<Rightarrow> None
      | Some r \<Rightarrow> if atoi (r_prio r) < 0 \<or> 5 < atoi (r_prio r) \<or> r_addr r = [] then None else Some r)"

definition bwl_mark :: "nat \<Rightarrow> u32" where
  "bwl_mark n = push_bit 20 (of_nat n)"

definition ceiling_of :: "string \<Rightarrow> string \<Rightarrow> string" where
  "ceiling_of c r = (if c = [] then r else c)"

subsection \<open>The rules of the firewall\<close>



definition src_match :: "address_type \<Rightarrow> string \<Rightarrow> string" where
  "src_match t ip =
     (case t of IP_ADDRESS \<Rightarrow> ''-s '' @ ip | MAC_ADDRESS \<Rightarrow> ''-m mac --mac-source '' @ ip | IP_RANGE \<Rightarrow> ''-m iprange --src-range '' @ ip)"

definition seq_text :: "nat \<Rightarrow> string" where
  "seq_text n = ''0x'' @ show_hex (unat (bwl_mark n)) @ ''/0xff00000''"

text \<open>The lines of an entry in the table of a chain: 1 is mangle, 2 is nat and 3 is filter.\<close>

definition bwl_lines :: "nvram \<Rightarrow> nat \<Rightarrow> nat \<Rightarrow> address_type \<Rightarrow> string \<Rightarrow> brule \<Rightarrow> ipt_line list" where
  "bwl_lines nv chain n t ip r =
     (let lan = nvram_safe_get nv ''lan_ipaddr'' @ ''/'' @ nvram_safe_get nv ''lan_netmask'';
          mark = ''-j MARK --set-mark '' @ seq_text n
      in (if chain = 1 \<and> r_dlrate r \<noteq> [] \<and> ceiling_of (r_dlceil r) (r_dlrate r) \<noteq> [] then
            case t of
              IP_ADDRESS \<Rightarrow> [Append ''POSTROUTING'' (''! -s '' @ lan @ '' -d '' @ ip @ '' '' @ mark)]
            | MAC_ADDRESS \<Rightarrow> []
            | IP_RANGE \<Rightarrow> [Append ''POSTROUTING'' (''! -s '' @ lan @ '' -m iprange --dst-range '' @ ip @ '' '' @ mark)]
          else []) @
         (if chain = 1 \<and> r_ulrate r \<noteq> [] \<and> ceiling_of (r_ulceil r) (r_ulrate r) \<noteq> [] then
            [Append ''PREROUTING'' (src_match t ip @ '' ! -d '' @ lan @ (if t = MAC_ADDRESS then ''  '' else '' '') @ mark)]
          else []) @
         (if chain = 3 \<and> 0 < atoi (r_tcp r) then
            [Append ''FORWARD'' (src_match t ip @ '' -p tcp --syn -m connlimit --connlimit-above '' @ r_tcp r @ '' -j DROP'')]
          else []) @
         (if chain = 2 \<and> 0 < atoi (r_udp r) then
            [Append ''PREROUTING'' (src_match t ip @ '' -p udp -m limit --limit '' @ r_udp r @ ''/sec -j ACCEPT'')]
          else []))"



subsection \<open>The script\<close>

text \<open>The devices: the first bridge, the other bridges and the WAN interface, each with the number of its root.\<close>

datatype bdev = Bridge nat | Uplink

fun dev_var :: "bdev \<Rightarrow> string" where
  "dev_var (Bridge i) = (if i = 0 then [] else show_nat i)"
| "dev_var Uplink = ''U''"

fun dev_major :: "bdev \<Rightarrow> nat" where
  "dev_major (Bridge i) = (if i = 0 then 1 else 2 * i + 2)"
| "dev_major Uplink = 2"

datatype bwline =
    Line string
  | Class bdev nat string string string
  | Leaf bdev nat
  | Fw bdev string string string nat
  | Mac string "int list" nat

definition tabs :: "bdev \<Rightarrow> string" where
  "tabs d = (if d = Uplink then [CHR 9, CHR 9] else [CHR 9])"

definition upcase :: "char \<Rightarrow> char" where
  "upcase c = (if 97 \<le> (of_char c :: nat) \<and> (of_char c :: nat) \<le> 122 then char_of ((of_char c :: nat) - 32) else c)"

text \<open>\<^verbatim>\<open>%02X\<close> of an \<^verbatim>\<open>int\<close>.\<close>

definition show_X2 :: "int \<Rightarrow> string" where
  "show_X2 v = (let t = map upcase (show_hex (unat (of_int v :: u32))) in if length t < 2 then CHR ''0'' # t else t)"

fun show_bw :: "bwline \<Rightarrow> string" where
  "show_bw (Line t) = t"
| "show_bw (Class d m r c p) =
     tabs d @ ''$TCA'' @ dev_var d @ '' parent '' @ show_nat (dev_major d) @ '':1 classid '' @ show_nat (dev_major d) @ '':'' @ show_nat m @
     '' htb rate '' @ r @ ''kbit ceil '' @ c @ ''kbit prio '' @ p"
| "show_bw (Leaf d m) =
     tabs d @ ''$TQA'' @ dev_var d @ '' parent '' @ show_nat (dev_major d) @ '':'' @ show_nat m @ '' handle '' @ show_nat m @ '': $Q''"
| "show_bw (Fw d p h msk m) =
     tabs d @ ''$TFA'' @ dev_var d @ '' parent '' @ show_nat (dev_major d) @ '':0 prio '' @ p @ '' protocol all handle '' @ h @ ''/'' @ msk @
     '' fw flowid '' @ show_nat (dev_major d) @ '':'' @ show_nat m"
| "show_bw (Mac p s m) =
     tabs (Bridge 0) @ ''$TFA parent 1:0 protocol all prio '' @ p @ '' u32 match u16 0x0800 0xFFFF at -2 match u32 0x'' @
     show_X2 (s ! 2) @ show_X2 (s ! 3) @ show_X2 (s ! 4) @ show_X2 (s ! 5) @ '' 0xFFFFFFFF at -12 match u16 0x'' @
     show_X2 (s ! 0) @ show_X2 (s ! 1) @ '' 0xFFFF at -14 flowid 1:'' @ show_nat m"

definition q_enable :: "string \<Rightarrow> string" where
  "q_enable t = CHR 9 # ''[ '' @ [CHR 34] @ ''$(nvram get qos_enable)'' @ [CHR 34] @ '' == '' @ [CHR 34] @ ''0'' @ [CHR 34] @ '' ] && {'' @ t"

definition assign :: "string \<Rightarrow> string \<Rightarrow> string" where
  "assign v t = v @ ''='' @ [CHR 34] @ t @ [CHR 34]"

definition bwl_head :: "string \<Rightarrow> string \<Rightarrow> string \<Rightarrow> bwline list" where
  "bwl_head waniface ibw obw =
     map Line
       [''#!/bin/sh'', [], assign ''TCA'' ''tc class add dev br0'', assign ''TFA'' ''tc filter add dev br0'',
        assign ''TQA'' ''tc qdisc add dev br0'', assign ''TCAU'' (''tc class add dev '' @ waniface),
        assign ''TFAU'' (''tc filter add dev '' @ waniface), assign ''TQAU'' (''tc qdisc add dev '' @ waniface),
        assign ''Q'' ''fq_codel'', [], ''case '' @ [CHR 34] @ ''$1'' @ [CHR 34] @ '' in'', ''start)'',
        CHR 9 # ''tc qdisc del dev br0 root 2>/dev/null'', q_enable [],
        [CHR 9, CHR 9] @ ''tc qdisc del dev '' @ waniface @ '' root 2>/dev/null'', CHR 9 # ''}'', [],
        CHR 9 # ''$TQA root handle 1: htb'', CHR 9 # ''$TCA parent 1: classid 1:1 htb rate '' @ ibw @ ''kbit'', [],
        q_enable [], [CHR 9, CHR 9] @ ''$TQAU root handle 2: htb'',
        [CHR 9, CHR 9] @ ''$TCAU parent 2: classid 2:1 htb rate '' @ obw @ ''kbit'', CHR 9 # ''}'', []]"

text \<open>The six numbers of a hardware address.  \<^verbatim>\<open>sscanf\<close> leaves the ones after a failure as they were.\<close>

definition scan_X2 :: "string \<Rightarrow> (int \<times> string) option" where
  "scan_X2 s =
     (let s = dropWhile isspace s; c = hd0 s; d = hd0 (tl s)
      in if c = CHR ''+'' \<or> c = CHR ''-'' then
           if isxdigit d then Some (if c = CHR ''-'' then - int (xdigit_value d) else int (xdigit_value d), drop 2 s) else None
         else if \<not> isxdigit c \<or> c = CHR ''0'' \<and> (d = CHR ''x'' \<or> d = CHR ''X'') then None
         else if isxdigit d then Some (int (16 * xdigit_value c + xdigit_value d), drop 2 s)
         else Some (int (xdigit_value c), tl s))"

fun scan_macs :: "nat \<Rightarrow> string \<Rightarrow> int list \<Rightarrow> int list" where
  "scan_macs 0 t s = s"
| "scan_macs (Suc n) t s =
     (case scan_X2 t of
        None \<Rightarrow> s
      | Some (v, r) \<Rightarrow> let s = s[5 - n := v] in if 0 < n \<and> hd0 r = CHR '':'' then scan_macs n (tl r) s else s)"

definition mark_hex :: "nat \<Rightarrow> string" where
  "mark_hex n = ''0x'' @ show_hex (unat (bwl_mark n))"

definition entry_lines :: "nat \<Rightarrow> address_type \<Rightarrow> int list \<Rightarrow> brule \<Rightarrow> bwline list" where
  "entry_lines n t s r =
     (let seq = n * 10; prio = show_int (atoi (r_prio r) + 1);
          dlceil = ceiling_of (r_dlceil r) (r_dlrate r); ulceil = ceiling_of (r_ulceil r) (r_dlrate r)
      in (if r_dlrate r \<noteq> [] \<and> dlceil \<noteq> [] then
            [Class (Bridge 0) seq (r_dlrate r) dlceil prio, Leaf (Bridge 0) seq,
             if t \<noteq> MAC_ADDRESS then Fw (Bridge 0) prio (mark_hex n) ''0xff00000'' seq else Mac prio s seq, Line []]
          else []) @
         (if r_ulrate r \<noteq> [] \<and> ulceil \<noteq> [] then
            [Line (q_enable []), Class Uplink seq (r_ulrate r) ulceil prio, Leaf Uplink seq,
             Fw Uplink prio (mark_hex n) ''0xff00000'' seq, Line (CHR 9 # ''}''), Line []]
          else []))"

fun entries_loop :: "string list \<Rightarrow> nat \<Rightarrow> int list \<Rightarrow> bwline list option" where
  "entries_loop [] n s = Some []"
| "entries_loop (p # ps) n s =
     (case bwl_rule p of
        None \<Rightarrow> entries_loop ps n s
      | Some r \<Rightarrow>
          (case address_checker (r_addr r) 30 of
             None \<Rightarrow> None
           | Some (t, ip) \<Rightarrow>
               let s = (if r_dlrate r \<noteq> [] \<and> ceiling_of (r_dlceil r) (r_dlrate r) \<noteq> [] \<and> t = MAC_ADDRESS
                        then scan_macs 6 ip s else s)
               in map_option (\<lambda>ls. entry_lines n t s r @ ls) (entries_loop ps (n + 1) s)))"

definition lan_limit :: "nvram \<Rightarrow> bwline list" where
  "lan_limit nv =
     (let dlr = nvram_safe_get nv ''bwl_lan_dlr''; ulr = nvram_safe_get nv ''bwl_lan_ulr'';
          dlc = ceiling_of (nvram_safe_get nv ''bwl_lan_dlc'') dlr; ulc = ceiling_of (nvram_safe_get nv ''bwl_lan_ulc'') ulr;
          prio = nvram_safe_get nv ''bwl_lan_prio''
      in if nvram_get_int nv ''bwl_lan_enable'' = 1 \<and> dlr \<noteq> [] \<and> ulr \<noteq> [] then
           [Class (Bridge 0) 16 dlr dlc prio, Leaf (Bridge 0) 16, Fw (Bridge 0) (CHR ''1'' # prio) ''0x10'' ''0xf0'' 16, Line [],
            Line (q_enable []), Class Uplink 16 ulr ulc prio, Leaf Uplink 16, Fw Uplink (CHR ''1'' # prio) ''0x10'' ''0xf0'' 16,
            Line (CHR 9 # ''}''), Line []]
         else [])"

definition bridge_var :: "nvram \<Rightarrow> nat \<Rightarrow> string \<Rightarrow> string" where
  "bridge_var nv i v = nvram_safe_get nv (strlcpy (''bwl_lan'' @ show_nat i @ ''_'' @ v) 16)"

definition bridge_limit :: "nvram \<Rightarrow> string \<Rightarrow> nat \<Rightarrow> bwline list" where
  "bridge_limit nv ibw i =
     (let id1 = show_nat (2 * i + 2); id2 = 16 * (i - 1) + 32; n = show_nat i; d = Bridge i;
          dlr = bridge_var nv i ''dlr''; dlc = ceiling_of (bridge_var nv i ''dlc'') dlr;
          ulr = bridge_var nv i ''ulr''; ulc = ceiling_of (bridge_var nv i ''ulc'') ulr;
          prio = bridge_var nv i ''prio''; mark = ''0x'' @ show_nat (i + 1) @ ''0''
      in if atoi (bridge_var nv i ''enable'') = 1 then
           [Line (CHR 9 # assign (''TCA'' @ n) (''tc class add dev br'' @ n)),
            Line (CHR 9 # assign (''TFA'' @ n) (''tc filter add dev br'' @ n)),
            Line (CHR 9 # assign (''TQA'' @ n) (''tc qdisc add dev br'' @ n)),
            Line (CHR 9 # ''tc qdisc del dev br'' @ n @ '' root''),
            Line (CHR 9 # ''tc qdisc add dev br'' @ n @ '' root handle '' @ id1 @ '': htb''),
            Line (CHR 9 # ''tc class add dev br'' @ n @ '' parent '' @ id1 @ '': classid '' @ id1 @ '':1 htb rate '' @ ibw @ ''kbit''),
            Class d id2 dlr dlc prio, Leaf d id2, Fw d prio mark ''0xf0'' id2,
            Line (q_enable []), Class Uplink id2 ulr ulc prio, Leaf Uplink id2, Fw Uplink prio mark ''0xf0'' id2,
            Line (CHR 9 # ''}''), Line []]
         else [])"

definition bwl_tail :: "string \<Rightarrow> bwline list" where
  "bwl_tail waniface =
     map Line
       ([CHR 9 # ''logger -t bwlimit '' @ [CHR 34] @ ''BW Limiter is started'' @ [CHR 34], CHR 9 # '';;'', ''stop)'', q_enable [],
         [CHR 9, CHR 9] @ ''tc qdisc del dev '' @ waniface @ '' root'', CHR 9 # ''}''] @
        map (\<lambda>i. CHR 9 # ''tc qdisc del dev br'' @ show_nat i @ '' root 2>/dev/null'') [0..<BRIDGE_COUNT] @
        [[], CHR 9 # ''logger -t bwlimit '' @ [CHR 34] @ ''BW Limiter is stopped'' @ [CHR 34], CHR 9 # '';;'', ''*)'',
         CHR 9 # ''echo '' @ [CHR 34] @ ''Usage: $0 <start|stop>'' @ [CHR 34], ''esac''])"

definition bwlimit_script :: "nvram \<Rightarrow> int list \<Rightarrow> bwline list option" where
  "bwlimit_script nv s =
     (let ibw = nvram_safe_get nv ''wan_qos_ibw''; obw = nvram_safe_get nv ''wan_qos_obw''; waniface = nvram_safe_get nv ''wan_iface''
      in map_option (\<lambda>es. bwl_head waniface ibw obw @ es @ lan_limit nv @
             concat (map (bridge_limit nv ibw) [1..<BRIDGE_COUNT]) @ bwl_tail waniface)
           (entries_loop (split_on (CHR ''>'') (nvram_safe_get nv ''bwl_rules'')) 1 s))"

datatype bact = Put_script string "string list" | Chmod string | Exec string string

definition bwlimitfn :: string where "bwlimitfn = ''/etc/bwlimit''"

text \<open>The numbers of a hardware address that are not initialised are a parameter.\<close>

definition start_bwlimit :: "nvram \<Rightarrow> bool \<Rightarrow> int list \<Rightarrow> bact list option" where
  "start_bwlimit nv can_write s =
     (if nvram_get_int nv ''bwl_enable'' = 0 \<or> \<not> can_write then Some []
      else map_option (\<lambda>ls. [Put_script bwlimitfn (map show_bw ls), Chmod bwlimitfn, Exec bwlimitfn ''start'']) (bwlimit_script nv s))"

definition stop_bwlimit :: "(string \<Rightarrow> bool) \<Rightarrow> bact list" where
  "stop_bwlimit exists = (if exists bwlimitfn then [Exec bwlimitfn ''stop''] else [])"

subsection \<open>Ranges of addresses\<close>

text \<open>The short notation of a range, with only the last number of its end, stands for the long one.\<close>

lemma strrchr_last:
  assumes "c \<notin> set t"
  shows "strrchr (s @ c # t) c = Some (length s)"
proof -
  have "strchr (rev t @ c # rev s) c = Some (length t)"
    using assms by (simp add: strchr_def takeWhile_upto)
  then show ?thesis by (simp add: strrchr_def)
qed

lemma short_range:
  assumes "CHR ''-'' \<notin> set (a @ x)" "CHR ''.'' \<notin> set (x @ y)" "2 * length a + length x + length y + 3 < sz"
  shows "address_checker (a @ ''.'' @ x @ ''-'' @ y) sz = Some (IP_RANGE, a @ ''.'' @ x @ ''-'' @ a @ ''.'' @ y)"
    "address_checker (a @ ''.'' @ x @ ''-'' @ a @ ''.'' @ y) sz = Some (IP_RANGE, a @ ''.'' @ x @ ''-'' @ a @ ''.'' @ y)"
proof -
  let ?k = "length a + 1 + length x"
  have m: "strchr (a @ ''.'' @ x @ ''-'' @ r) (CHR ''-'') = Some ?k" for r
    using assms(1) takeWhile_upto [of "CHR ''-''" "a @ ''.'' @ x" r] by (simp add: strchr_def)
  have d: "drop (?k + 1) (a @ ''.'' @ x @ ''-'' @ r) = r" for r
    by simp
  have y: "strchr y (CHR ''.'') = None" "strchr (a @ ''.'' @ y) (CHR ''.'') \<noteq> None"
    using assms(2) by (auto simp: strchr_def)
  have l: "strrchr (a @ ''.'' @ x @ ''-'' @ y) (CHR ''.'') = Some (length a)"
    using strrchr_last [of "CHR ''.''" "x @ ''-'' @ y" a] assms(2) by simp
  have "strlcpy (a @ ''.'' @ x @ ''-'' @ y) (?k + 2) = a @ ''.'' @ x @ ''-''"
    by (simp add: strlcpy_def)
  moreover have "strlcpy (a @ ''.'' @ x @ ''-'') (length a + 2) = a @ ''.''"
    by (simp add: strlcpy_def)
  ultimately show "address_checker (a @ ''.'' @ x @ ''-'' @ y) sz = Some (IP_RANGE, a @ ''.'' @ x @ ''-'' @ a @ ''.'' @ y)"
    using assms(3) unfolding address_checker_def m option.case d y(1) l
    by (simp add: Let_def) (simp add: strlcpy_def)
  show "address_checker (a @ ''.'' @ x @ ''-'' @ a @ ''.'' @ y) sz = Some (IP_RANGE, a @ ''.'' @ x @ ''-'' @ a @ ''.'' @ y)"
    using assms(3) y(2) unfolding address_checker_def m option.case d by (simp add: strlcpy_def)
qed

text \<open>A range without a dot computes with a null pointer, and a long first part is written past the buffer.\<close>

lemma range_undefined: "address_checker ''10-20'' 32 = None" "address_checker ''office.example.net.local-5'' 32 = None"
  by code_simp+


subsection \<open>The classes and filters of the script\<close>

definition classes :: "bdev \<Rightarrow> bwline list \<Rightarrow> (nat \<times> string \<times> string \<times> string) list" where
  "classes d ls = concat (map (\<lambda>l. case l of Class d' m r c p \<Rightarrow> if d' = d then [(m, r, c, p)] else [] | _ \<Rightarrow> []) ls)"

definition fws :: "bdev \<Rightarrow> string \<Rightarrow> bwline list \<Rightarrow> (string \<times> nat) list" where
  "fws d k ls = concat (map (\<lambda>l. case l of Fw d' p h msk m \<Rightarrow> if d' = d \<and> msk = k then [(h, m)] else [] | _ \<Rightarrow> []) ls)"

lemma classes_simps [simp]:
  "classes d [] = []" "classes d (xs @ ys) = classes d xs @ classes d ys" "classes d (Line t # ls) = classes d ls"
  "classes d (Class d' m r c p # ls) = (if d' = d then (m, r, c, p) # classes d ls else classes d ls)"
  "classes d (Leaf d' m # ls) = classes d ls" "classes d (Fw d' p h msk m # ls) = classes d ls" "classes d (Mac p s m # ls) = classes d ls"
  "classes d (map Line ts) = []"
  by (simp_all add: classes_def)

lemma fws_simps [simp]:
  "fws d k [] = []" "fws d k (xs @ ys) = fws d k xs @ fws d k ys" "fws d k (Line t # ls) = fws d k ls"
  "fws d k (Fw d' p h msk m # ls) = (if d' = d \<and> msk = k then (h, m) # fws d k ls else fws d k ls)"
  "fws d k (Leaf d' m # ls) = fws d k ls" "fws d k (Class d' m r c p # ls) = fws d k ls" "fws d k (Mac p s m # ls) = fws d k ls"
  "fws d k (map Line ts) = []"
  by (simp_all add: fws_def)

text \<open>The entries that count, with their numbers.\<close>

definition accepted :: "string list \<Rightarrow> brule list" where
  "accepted ps = concat (map (\<lambda>p. case bwl_rule p of None \<Rightarrow> [] | Some r \<Rightarrow> [r]) ps)"

lemma accepted_simps [simp]:
  "accepted [] = []" "accepted (p # ps) = (case bwl_rule p of None \<Rightarrow> accepted ps | Some r \<Rightarrow> r # accepted ps)"
  by (simp_all add: accepted_def split: option.split)


definition prio_text :: "brule \<Rightarrow> string" where
  "prio_text r = show_int (atoi (r_prio r) + 1)"

text \<open>What an entry gets on a device: its rates for download on the bridge and for upload on the uplink.\<close>

fun rates :: "bdev \<Rightarrow> brule \<Rightarrow> (string \<times> string \<times> string) option" where
  "rates (Bridge i) r =
     (if i = 0 \<and> r_dlrate r \<noteq> [] then Some (r_dlrate r, ceiling_of (r_dlceil r) (r_dlrate r), prio_text r) else None)"
| "rates Uplink r =
     (if r_ulrate r \<noteq> [] \<and> ceiling_of (r_ulceil r) (r_dlrate r) \<noteq> []
      then Some (r_ulrate r, ceiling_of (r_ulceil r) (r_dlrate r), prio_text r) else None)"


lemma entries_classes:
  "entries_loop ps n s = Some ls \<Longrightarrow>
    classes d ls = concat (map (\<lambda>(k, r). case rates d r of None \<Rightarrow> [] | Some x \<Rightarrow> [(k * 10, x)]) (enumerate n (accepted ps)))"
proof (induction ps arbitrary: n s ls)
  case (Cons p ps)
  show ?case
  proof (cases "bwl_rule p")
    case None
    with Cons show ?thesis by simp
  next
    case (Some r)
    then obtain t ip s' es where e: "ls = entry_lines n t s' r @ es" "entries_loop ps (n + 1) s' = Some es"
      using Cons.prems by (auto simp: Let_def split: option.splits prod.splits)
    have "classes d (entry_lines n t s' r) = (case rates d r of None \<Rightarrow> [] | Some x \<Rightarrow> [(n * 10, x)])"
      by (cases d) (auto simp: entry_lines_def Let_def prio_text_def ceiling_of_def)
    with Some e Cons.IH [OF e(2)] show ?thesis by simp
  qed
qed simp


text \<open>The other limits.\<close>

definition bridge_on :: "nvram \<Rightarrow> nat \<Rightarrow> bool" where
  "bridge_on nv i \<longleftrightarrow> atoi (bridge_var nv i ''enable'') = 1"



lemma bwl_frame [simp]:
  "fws d k (bwl_head w ib ob) = []" "fws d k (bwl_tail w) = []" "classes d (bwl_head w ib ob) = []" "classes d (bwl_tail w) = []"
  by (simp_all only: bwl_head_def bwl_tail_def fws_simps classes_simps)

lemma script_parts:
  assumes "bwlimit_script nv s = Some ls"
  obtains es h t where "entries_loop (split_on (CHR ''>'') (nvram_safe_get nv ''bwl_rules'')) 1 s = Some es"
    "ls = h @ es @ lan_limit nv @ concat (map (bridge_limit nv (nvram_safe_get nv ''wan_qos_ibw'')) [1..<BRIDGE_COUNT]) @ t"
    "\<And>d k. fws d k h = []" "\<And>d k. fws d k t = []" "\<And>d. classes d h = []" "\<And>d. classes d t = []"
proof (cases "entries_loop (split_on (CHR ''>'') (nvram_safe_get nv ''bwl_rules'')) 1 s")
  case None
  then show thesis
    using assms by (simp only: bwlimit_script_def Let_def option.map option.distinct)
next
  case (Some es)
  then have "ls = bwl_head (nvram_safe_get nv ''wan_iface'') (nvram_safe_get nv ''wan_qos_ibw'') (nvram_safe_get nv ''wan_qos_obw'') @ es @
        lan_limit nv @ concat (map (bridge_limit nv (nvram_safe_get nv ''wan_qos_ibw'')) [1..<BRIDGE_COUNT]) @
        bwl_tail (nvram_safe_get nv ''wan_iface'')"
    using assms by (simp only: bwlimit_script_def Let_def option.map option.inject)
  then show thesis
    by (rule that [OF Some _ bwl_frame])
qed

abbreviation numbered :: "nvram \<Rightarrow> (nat \<times> brule) list" where
  "numbered nv \<equiv> enumerate 1 (accepted (split_on (CHR ''>'') (nvram_safe_get nv ''bwl_rules'')))"


text \<open>The classes for the bridges as a whole.\<close>

definition lan_on :: "nvram \<Rightarrow> bool" where
  "lan_on nv \<longleftrightarrow> nvram_get_int nv ''bwl_lan_enable'' = 1 \<and> nvram_safe_get nv ''bwl_lan_dlr'' \<noteq> [] \<and> nvram_safe_get nv ''bwl_lan_ulr'' \<noteq> []"

lemma lan_limit_classes:
  "map fst (classes Uplink (lan_limit nv)) = (if lan_on nv then [16] else [])"
  "map fst (classes (Bridge 0) (lan_limit nv)) = (if lan_on nv then [16] else [])"
  by (auto simp: lan_limit_def lan_on_def Let_def)

lemma bridge_limit_classes:
  "map fst (classes Uplink (concat (map (bridge_limit nv ibw) is))) = map (\<lambda>i. 16 * (i - 1) + 32) (filter (bridge_on nv) is)"
  "0 \<notin> set is \<Longrightarrow> classes (Bridge 0) (concat (map (bridge_limit nv ibw) is)) = []"
  by (induction "is") (auto simp: bridge_limit_def bridge_on_def Let_def)

lemma entries_ids:
  "map fst (concat (map (\<lambda>(k, r). case rates d r of None \<Rightarrow> [] | Some x \<Rightarrow> [(k * 10, x)]) krs)) =
    map (\<lambda>kr. fst kr * 10) (filter (\<lambda>kr. rates d (snd kr) \<noteq> None) krs)"
  by (induction krs) (auto split: option.split)

lemma distinct_numbers: "distinct (map (\<lambda>kr. fst kr * 10) (filter P (enumerate n rs)))"
proof -
  have "inj_on fst (set (enumerate n rs))"
    by (metis distinct_map distinct_upt map_fst_enumerate)
  then have "inj_on (\<lambda>kr. fst kr * 10) (set (filter P (enumerate n rs)))"
    by (auto simp: inj_on_def)
  then show ?thesis
    by (simp add: distinct_map distinct_enumerate)
qed

subsection \<open>The rules of the firewall\<close>




lemma entries_defined: "entries_loop ps n s \<noteq> None \<longleftrightarrow> (\<forall>r \<in> set (accepted ps). address_checker (r_addr r) 30 \<noteq> None)"
  by (induction ps arbitrary: n s) (auto simp: Let_def split: option.split)

subsection \<open>Marks\<close>




text \<open>The mark of entry 256 does not fit the bits that filters look at.\<close>

lemma mark_256: "bwl_mark 256 AND 0xff00000 = 0"
  by code_simp











text \<open>An example: a limit for an address and one for a hardware address.\<close>

definition two_limits :: nvram where
  "two_limits =
     [''bwl_enable'' \<mapsto> ''1'', ''lan_ipaddr'' \<mapsto> ''192.168.1.1'', ''lan_netmask'' \<mapsto> ''255.255.255.0'',
      ''bwl_rules'' \<mapsto> ''1<192.168.1.5<100<200<50<<2<0<0<pc>1<00:11:22:33:44:55<300<400<60<70<1<100<5<tv'']"




lemma script_ids:
  assumes "bwlimit_script nv s = Some ls"
  shows "map fst (classes Uplink ls) =
      map (\<lambda>kr. fst kr * 10) (filter (\<lambda>kr. rates Uplink (snd kr) \<noteq> None) (numbered nv)) @ (if lan_on nv then [16] else []) @
      map (\<lambda>i. 16 * (i - 1) + 32) (filter (bridge_on nv) [1..<BRIDGE_COUNT])"
    "map fst (classes (Bridge 0) ls) =
      map (\<lambda>kr. fst kr * 10) (filter (\<lambda>kr. rates (Bridge 0) (snd kr) \<noteq> None) (numbered nv)) @ (if lan_on nv then [16] else [])"
proof -
  obtain es h t where p: "entries_loop (split_on (CHR ''>'') (nvram_safe_get nv ''bwl_rules'')) 1 s = Some es"
      "ls = h @ es @ lan_limit nv @ concat (map (bridge_limit nv (nvram_safe_get nv ''wan_qos_ibw'')) [1..<BRIDGE_COUNT]) @ t"
      "\<And>d. classes d h = []" "\<And>d. classes d t = []"
    by (rule script_parts [OF assms]) blast
  have b: "classes (Bridge 0) (concat (map (bridge_limit nv (nvram_safe_get nv ''wan_qos_ibw'')) [1..<BRIDGE_COUNT])) = []"
    by (rule bridge_limit_classes(2)) simp
  have e: "map fst (classes d es) = map (\<lambda>kr. fst kr * 10) (filter (\<lambda>kr. rates d (snd kr) \<noteq> None) (numbered nv))" for d
    unfolding entries_classes [OF p(1)] by (rule entries_ids)
  show "map fst (classes Uplink ls) =
      map (\<lambda>kr. fst kr * 10) (filter (\<lambda>kr. rates Uplink (snd kr) \<noteq> None) (numbered nv)) @ (if lan_on nv then [16] else []) @
      map (\<lambda>i. 16 * (i - 1) + 32) (filter (bridge_on nv) [1..<BRIDGE_COUNT])"
    "map fst (classes (Bridge 0) ls) =
      map (\<lambda>kr. fst kr * 10) (filter (\<lambda>kr. rates (Bridge 0) (snd kr) \<noteq> None) (numbered nv)) @ (if lan_on nv then [16] else [])"
    unfolding p(2) by (simp_all only: classes_simps map_append p(3,4) e b lan_limit_classes bridge_limit_classes(1) list.map append_Nil append_Nil2)
qed

text \<open>
  C40: The numbers of the classes.  On the first bridge no two classes of the script have the same number; on the uplink only
  the class of entry 8 and the class of bridge 4 can have the same number, 80.
\<close>

theorem class_ids_distinct:
  assumes "bwlimit_script nv s = Some ls"
  shows "distinct (map fst (classes (Bridge 0) ls)) \<and>
    (distinct (map fst (classes Uplink ls)) \<longleftrightarrow> \<not> ((\<exists>r. (8, r) \<in> set (numbered nv) \<and> rates Uplink r \<noteq> None) \<and> bridge_on nv 4))"
proof -
  define ids where "ids d = map (\<lambda>kr. fst kr * 10) (filter (\<lambda>kr. rates d (snd kr) \<noteq> None) (numbered nv))" for d
  define bs where "bs = map (\<lambda>i. 16 * (i - 1) + 32) (filter (bridge_on nv) [1..<BRIDGE_COUNT])"
  define l where "l = (if lan_on nv then [16 :: nat] else [])"
  have u: "map fst (classes Uplink ls) = ids Uplink @ l @ bs" and b: "map fst (classes (Bridge 0) ls) = ids (Bridge 0) @ l"
    using script_ids [OF assms] unfolding ids_def bs_def l_def by simp_all
  have d: "distinct (ids d)" for d
    unfolding ids_def by (rule distinct_numbers)
  have t: "x \<in> set (ids d) \<Longrightarrow> 10 dvd x" for x d
    by (auto simp: ids_def)
  have l: "x \<in> set l \<Longrightarrow> x = 16" for x
    by (simp add: l_def split: if_splits)
  have bb: "x \<in> set bs \<longleftrightarrow> (\<exists>i. 1 \<le> i \<and> i \<le> 7 \<and> bridge_on nv i \<and> x = 16 * (i - 1) + 32)" for x
    by (auto simp: bs_def BRIDGE_COUNT_def)
  have db: "distinct bs"
    by (auto simp: bs_def distinct_map inj_on_def)
  have "16 \<notin> set bs"
    by (auto simp: bb)
  moreover have "16 \<notin> set (ids d)" for d
    using t [of 16 d] by auto
  ultimately have il: "set (ids d) \<inter> set l = {}" "set l \<inter> set bs = {}" for d
    using l by blast+
  have x: "x = 80" if x: "x \<in> set (ids Uplink)" "x \<in> set bs" for x
  proof -
    obtain i where "1 \<le> i" "i \<le> 7" "x = 16 * (i - 1) + 32"
      using x(2) bb by blast
    then have "x \<in> {32, 48, 64, 80, 96, 112, 128}"
      by (auto simp: numeral_eq_Suc le_Suc_eq)
    then show "x = 80"
      using t [OF x(1)] by auto
  qed
  have "1 \<le> i \<and> i \<le> 7 \<and> bridge_on nv i \<and> 80 = 16 * (i - 1) + 32 \<longleftrightarrow> i = 4 \<and> bridge_on nv 4" for i
    by (cases "i = 4") auto
  then have b4: "80 \<in> set bs \<longleftrightarrow> bridge_on nv 4"
    unfolding bb by blast
  have e8: "80 \<in> set (ids Uplink) \<longleftrightarrow> (\<exists>r. (8, r) \<in> set (numbered nv) \<and> rates Uplink r \<noteq> None)"
    unfolding ids_def by force
  have "distinct l"
    by (simp add: l_def)
  then have "distinct (ids Uplink @ l @ bs) \<longleftrightarrow> set (ids Uplink) \<inter> set bs = {}" "distinct (ids (Bridge 0) @ l)"
    using d db il by (auto simp only: distinct_append set_append)
  moreover have "set (ids Uplink) \<inter> set bs = {} \<longleftrightarrow> \<not> (80 \<in> set (ids Uplink) \<and> 80 \<in> set bs)"
    using x by blast
  ultimately show ?thesis
    unfolding u b e8 [symmetric] b4 [symmetric] by blast
qed

theorem class_ids_distinct_witness:
  "\<exists>ls. bwlimit_script two_limits [0, 0, 0, 0, 0, 0] = Some ls \<and> distinct (map fst (classes (Bridge 0) ls)) \<and> distinct (map fst (classes Uplink ls))"
proof -
  have "\<forall>r \<in> set (accepted (split_on (CHR ''>'') (nvram_safe_get two_limits ''bwl_rules''))). address_checker (r_addr r) 30 \<noteq> None"
    by code_simp
  then have "bwlimit_script two_limits [0, 0, 0, 0, 0, 0] \<noteq> None"
    unfolding bwlimit_script_def Let_def by (simp only: entries_defined option.map_disc_iff simp_thms)
  then obtain ls where ls: "bwlimit_script two_limits [0, 0, 0, 0, 0, 0] = Some ls"
    by blast
  have "\<not> bridge_on two_limits 4"
    by code_simp
  with class_ids_distinct [OF ls] ls show ?thesis by blast
qed

text \<open>
  An upload rate without a ceiling takes the download rate as its ceiling in the script, while the marks take the upload
  rate: an entry with an upload rate only is marked, but has no class.
\<close>

lemma upload_only_unlimited:
  assumes "r_ulrate r \<noteq> []" "r_ulceil r = []" "r_dlrate r = []"
  shows "rates Uplink r = None" "bwl_lines nv 1 n IP_ADDRESS ip r \<noteq> []"
  using assms by (simp_all add: bwl_lines_def ceiling_of_def Let_def)

lemma upload_ceiling_from_download:
  "r_ulrate r \<noteq> [] \<Longrightarrow> r_ulceil r = [] \<Longrightarrow> r_dlrate r \<noteq> [] \<Longrightarrow> rates Uplink r = Some (r_ulrate r, r_dlrate r, prio_text r)"
  by (simp add: ceiling_of_def)

text \<open>
  On the uplink the filter of a bridge has another mask than the filters of entries and can have the same preference as one
  of them.
\<close>

lemma bridge_filter_preference:
  assumes "bridge_on nv i" "bridge_var nv i ''prio'' = show_int (atoi (r_prio r) + 1)" "rates Uplink r \<noteq> None"
  shows "\<exists>h m h' m'. Fw Uplink (prio_text r) h ''0xf0'' m \<in> set (bridge_limit nv ibw i) \<and>
    Fw Uplink (prio_text r) h' ''0xff00000'' m' \<in> set (entry_lines n t s r)"
proof -
  have "Fw Uplink (prio_text r) (''0x'' @ show_nat (i + 1) @ ''0'') ''0xf0'' (16 * (i - 1) + 32) \<in> set (bridge_limit nv ibw i)"
    using assms(1,2) by (simp add: bridge_limit_def bridge_on_def prio_text_def Let_def)
  moreover have "Fw Uplink (prio_text r) (mark_hex n) ''0xff00000'' (n * 10) \<in> set (entry_lines n t s r)"
    using assms(3) by (simp add: entry_lines_def prio_text_def Let_def split: if_splits)
  ultimately show ?thesis by blast
qed

end
